(* ===== verification/Prelude.thy ===== *)
theory Prelude
  imports Main "HOL-Library.Word"
begin

text \<open>
  Shared ground of the development: the machine integers of the Rust sources as words of their
  width, the integer operations of the Rust standard library the sources call
  (\<open>checked_add\<close>, \<open>saturating_add\<close>, \<open>saturating_sub\<close>), masking by \<open>!(2^k - 1)\<close>, the result
  type of fallible code, and the lemma collections the component theories feed and use.
\<close>

unbundle bit_operations_syntax

section \<open>Types and collections\<close>

type_synonym u8 = "8 word"
type_synonym u16 = "16 word"
type_synonym u32 = "32 word"
type_synonym u64 = "64 word"

text \<open>\<open>word_nat\<close> collects the equations that move word arithmetic to natural numbers.\<close>

named_theorems word_nat

section \<open>Integer operations of the Rust standard library\<close>

definition checked_add :: "u32 \<Rightarrow> u32 \<Rightarrow> u32 option" where
  "checked_add a b = (if unat a + unat b < 2 ^ 32 then Some (a + b) else None)"

definition saturating_add :: "u32 \<Rightarrow> u32 \<Rightarrow> u32" where
  "saturating_add a b = (if unat a + unat b < 2 ^ 32 then a + b else 0xFFFFFFFF)"

definition saturating_sub :: "u32 \<Rightarrow> u32 \<Rightarrow> u32" where
  "saturating_sub a b = (if b \<le> a then a - b else 0)"

lemma unat_u32_lt [simp]: "unat (a :: u32) < 4294967296"
  using unsigned_less [of a] by simp

lemma le_unat_u32_lt: "n \<le> unat (a :: u32) \<Longrightarrow> n < 4294967296"
  by (rule le_less_trans [OF _ unat_u32_lt])

lemma unat_u32_add [word_nat]: "unat (a + b :: u32) = (unat a + unat b) mod 2 ^ 32"
  by (simp add: unat_word_ariths)

lemma unat_u32_add_nowrap: "unat a + unat b < 4294967296 \<Longrightarrow> unat (a + b :: u32) = unat a + unat b"
  by (simp add: word_nat)

lemma unat_u32_eq_max: "unat (a :: u32) = 4294967295 \<longleftrightarrow> a = 0xFFFFFFFF"
  by (simp add: word_unat_eq_iff)

lemma checked_add_Some: "checked_add a b = Some c \<Longrightarrow> unat c = unat a + unat b"
  by (auto simp: checked_add_def word_nat split: if_splits)

lemma checked_add_None: "checked_add a b = None \<longleftrightarrow> 2 ^ 32 \<le> unat a + unat b"
  by (auto simp: checked_add_def)

lemma unat_saturating_add [word_nat]:
  "unat (saturating_add a b) = min (unat a + unat b) (2 ^ 32 - 1)"
  by (auto simp: saturating_add_def unat_u32_add min_def)

lemma unat_saturating_sub [word_nat]: "unat (saturating_sub a b) = unat a - unat b"
  by (auto simp: saturating_sub_def unat_sub word_le_nat_alt)

text \<open>Literal lengths, for evaluation on concrete inputs.\<close>

lemma replicate_numeral_unfold: "replicate (numeral k) x = x # replicate (pred_numeral k) x"
  by (simp add: numeral_eq_Suc)

section \<open>Rounding to a power of two\<close>

text \<open>The sources round down with \<open>x & !(2^k - 1)\<close>, which is division and multiplication.\<close>

lemma word_and_not_mask:
  fixes x :: "'a::len word"
  shows "x AND NOT (mask n) = push_bit n (drop_bit n x)"
  by (rule bit_word_eqI) (auto simp: bit_simps)

lemma unat_and_not_mask:
  fixes x :: "'a::len word"
  shows "unat (x AND NOT (mask n)) = unat x div 2 ^ n * 2 ^ n"
proof -
  have "x AND NOT (mask n) = x - take_bit n x"
    by (metis add_diff_cancel_right' bits_ident word_and_not_mask)
  moreover have "take_bit n x \<le> x"
    by (simp add: word_le_nat_alt unsigned_take_bit_eq)
  ultimately have "unat (x AND NOT (mask n)) = unat x - unat x mod 2 ^ n"
    by (simp add: unat_sub unsigned_take_bit_eq) (simp add: take_bit_eq_mod)
  then show ?thesis
    by (simp add: minus_mod_eq_div_mult)
qed

text \<open>The simplifier writes \<open>NOT 7\<close> as \<open>- 8\<close>, so the collected form is the one with \<open>- 8\<close>.\<close>

lemma unat_round_down_8 [word_nat]: "unat (x AND - 8 :: u32) = unat x div 8 * 8"
proof -
  have "(- 8 :: u32) = NOT (mask 3)" by (simp add: mask_eq_exp_minus_1)
  then show ?thesis using unat_and_not_mask [of x 3] by simp
qed

lemma unat_round_down_64 [word_nat]: "unat (x AND - 64 :: u32) = unat x div 64 * 64"
proof -
  have "(- 64 :: u32) = NOT (mask 6)" by (simp add: mask_eq_exp_minus_1)
  then show ?thesis using unat_and_not_mask [of x 6] by simp
qed

end
