(* ===== verification/Memory.thy ===== *)
theory Memory
  imports Prelude
begin

text \<open>
  The 32-bit byte memory of the device and the little-endian views the payload takes of it through
  raw pointers (\<open>payloads/interceptor/src/reader.rs\<close>, \<open>writer.rs\<close> and the pointer accesses of
  \<open>payloads/rpc\<close> and \<open>payloads/shared\<close>). The locale \<open>byte_memory\<close> is what the clients rely on;
  its laws are discharged for the model's \<open>load_bytes\<close> and \<open>store_bytes\<close>.
\<close>

section \<open>Words as bytes\<close>

definition le16 :: "u16 \<Rightarrow> u8 list" where
  "le16 v = [ucast v, ucast (drop_bit 8 v)]"

definition le32 :: "u32 \<Rightarrow> u8 list" where
  "le32 v = [ucast v, ucast (drop_bit 8 v), ucast (drop_bit 16 v), ucast (drop_bit 24 v)]"

definition of_le16 :: "u8 list \<Rightarrow> u16" where
  "of_le16 bs = ucast (bs ! 0) OR push_bit 8 (ucast (bs ! 1))"

definition of_le32 :: "u8 list \<Rightarrow> u32" where
  "of_le32 bs = ucast (bs ! 0) OR push_bit 8 (ucast (bs ! 1)) OR
     push_bit 16 (ucast (bs ! 2)) OR push_bit 24 (ucast (bs ! 3))"

lemma length_le16 [simp]: "length (le16 v) = 2"
  by (simp add: le16_def)

lemma length_le32 [simp]: "length (le32 v) = 4"
  by (simp add: le32_def)

lemma of_le16_le16 [simp]: "of_le16 (le16 v) = v"
  by (rule bit_word_eqI) (auto simp: of_le16_def le16_def bit_simps)

lemma of_le32_le32 [simp]: "of_le32 (le32 v) = v"
proof (rule bit_word_eqI)
  fix n assume "n < LENGTH(32)"
  then consider "n < 8" | "8 \<le> n" "n < 16" | "16 \<le> n" "n < 24" | "24 \<le> n" "n < 32" by fastforce
  then show "bit (of_le32 (le32 v)) n = bit v n"
    by cases (auto simp: of_le32_def le32_def bit_simps)
qed

lemma le16_of_le16: "length bs = 2 \<Longrightarrow> le16 (of_le16 bs) = bs"
proof -
  assume "length bs = 2"
  then obtain a b where bs: "bs = [a, b]" by (auto simp: numeral_2_eq_2 length_Suc_conv)
  have "ucast (ucast a OR push_bit 8 (ucast b) :: u16) = a"
    "ucast (drop_bit 8 (ucast a OR push_bit 8 (ucast b) :: u16)) = b"
    by (rule bit_word_eqI, auto simp: bit_simps dest: bit_imp_le_length)+
  then show ?thesis by (simp add: bs of_le16_def le16_def)
qed

section \<open>Memory\<close>

type_synonym mem = "u32 \<Rightarrow> u8"

definition load_bytes :: "mem \<Rightarrow> u32 \<Rightarrow> nat \<Rightarrow> u8 list" where
  "load_bytes m a n = map (\<lambda>i. m (a + word_of_nat i)) [0..<n]"

fun store_bytes :: "mem \<Rightarrow> u32 \<Rightarrow> u8 list \<Rightarrow> mem" where
  "store_bytes m a [] = m"
| "store_bytes m a (b # bs) = store_bytes (m(a := b)) (a + 1) bs"

definition read16 :: "mem \<Rightarrow> u32 \<Rightarrow> u16" where
  "read16 m a = of_le16 (load_bytes m a 2)"

definition read32_unchecked :: "mem \<Rightarrow> u32 \<Rightarrow> u32" where
  "read32_unchecked m a = of_le32 (load_bytes m a 4)"

definition write16 :: "mem \<Rightarrow> u32 \<Rightarrow> u16 \<Rightarrow> mem" where
  "write16 m a v = store_bytes m a (le16 v)"

definition write32_unchecked :: "mem \<Rightarrow> u32 \<Rightarrow> u32 \<Rightarrow> mem" where
  "write32_unchecked m a v = store_bytes m a (le32 v)"

definition copy_nonoverlapping :: "mem \<Rightarrow> u32 \<Rightarrow> u32 \<Rightarrow> nat \<Rightarrow> mem" where
  "copy_nonoverlapping m src dst n = store_bytes m dst (load_bytes m src n)"

text \<open>The \<open>n\<close> bytes at \<open>a\<close> avoid the \<open>k\<close> bytes at \<open>b\<close>, addresses taken modulo \<open>2 ^ 32\<close>.\<close>

definition apart :: "u32 \<Rightarrow> nat \<Rightarrow> u32 \<Rightarrow> nat \<Rightarrow> bool" where
  "apart a n b k \<longleftrightarrow> (\<forall>i < n. k \<le> unat (a + word_of_nat i - b))"

section \<open>The interface\<close>

locale byte_memory =
  fixes load :: "'m \<Rightarrow> u32 \<Rightarrow> nat \<Rightarrow> u8 list"
    and store :: "'m \<Rightarrow> u32 \<Rightarrow> u8 list \<Rightarrow> 'm"
  assumes load_store_same: "length bs \<le> 2 ^ 32 \<Longrightarrow> load (store m a bs) a (length bs) = bs"
    and load_store_apart: "length bs \<le> 2 ^ 32 \<Longrightarrow> apart a n b (length bs) \<Longrightarrow> load (store m b bs) a n = load m a n"
    and load_append: "load m a (n + k) = load m a n @ load m (a + word_of_nat n) k"
    and length_load: "length (load m a n) = n"
    and store_append: "store m a (bs @ cs) = store (store m a bs) (a + word_of_nat (length bs)) cs"
begin

text \<open>A middle part of a stored block reads back as it was stored.\<close>

lemma load_store_inside:
  assumes "length xs + length ys + length zs \<le> 2 ^ 32"
  shows "load (store m a (xs @ ys @ zs)) (a + word_of_nat (length xs)) (length ys) = ys"
proof -
  have "load (store m a (xs @ ys @ zs)) a (length xs + (length ys + length zs)) = xs @ ys @ zs"
    using load_store_same [of "xs @ ys @ zs" m a] assms by simp
  then have "load (store m a (xs @ ys @ zs)) (a + word_of_nat (length xs)) (length ys + length zs) = ys @ zs"
    unfolding load_append by (simp add: append_eq_append_conv length_load)
  then show ?thesis
    unfolding load_append by (simp add: append_eq_append_conv length_load)
qed

text \<open>Writing a block piece by piece at increasing addresses is writing it at once.\<close>

lemma store_pieces:
  "foldl (\<lambda>(m, a) bs. (store m a bs, a + word_of_nat (length bs))) (store m a xs, a + word_of_nat (length xs)) bss =
   (store m a (xs @ concat bss), a + word_of_nat (length (xs @ concat bss)))"
proof (induction bss arbitrary: xs)
  case (Cons bs bss)
  from Cons [of "xs @ bs"] show ?case by (simp add: store_append add.assoc)
qed simp

end

section \<open>The model's memory provides the interface\<close>

lemma length_load_bytes [simp]: "length (load_bytes m a n) = n"
  by (simp add: load_bytes_def)

lemma store_bytes_apply:
  "length bs \<le> 2 ^ 32 \<Longrightarrow>
   store_bytes m a bs x = (if unat (x - a) < length bs then bs ! unat (x - a) else m x)"
proof (induction bs arbitrary: m a)
  case (Cons b bs)
  then have IH: "store_bytes m' (a + 1) bs x =
    (if unat (x - (a + 1)) < length bs then bs ! unat (x - (a + 1)) else m' x)" for m' by simp
  show ?case
  proof (cases "x = a")
    case True
    then have "unat (x - (a + 1)) = 2 ^ 32 - 1" by (simp add: unsigned_minus_1_eq_mask mask_eq_exp_minus_1)
    with Cons.prems True IH show ?thesis by simp
  next
    case False
    define d where "d = x - a"
    from False have d: "d \<noteq> 0" "x - (a + 1) = d - 1" by (simp_all add: d_def)
    have "unat d = Suc (unat (d - 1))"
      using d(1) by (simp add: unat_minus_one unat_gt_0)
    with IH [unfolded d(2)] False show ?thesis by (simp add: d(2) d_def [symmetric])
  qed
qed simp

interpretation ram: byte_memory load_bytes store_bytes
proof
  fix bs :: "u8 list" and m a
  assume l: "length bs \<le> 2 ^ 32"
  show "load_bytes (store_bytes m a bs) a (length bs) = bs"
  proof (rule nth_equalityI)
    fix i assume "i < length (load_bytes (store_bytes m a bs) a (length bs))"
    then have i: "i < length bs" by simp
    then have "unat (word_of_nat i :: u32) = i" using l by (simp add: unat_of_nat)
    with i show "load_bytes (store_bytes m a bs) a (length bs) ! i = bs ! i"
      by (simp add: load_bytes_def store_bytes_apply [OF l])
  qed simp
next
  fix bs :: "u8 list" and a n b m
  assume "length bs \<le> 2 ^ 32" and "apart a n b (length bs)"
  then show "load_bytes (store_bytes m b bs) a n = load_bytes m a n"
    by (auto simp: load_bytes_def store_bytes_apply apart_def)
next
  fix m a n k
  have "[0..<n + k] = [0..<n] @ map (\<lambda>i. i + n) [0..<k]"
    unfolding map_add_upt add.commute [of k n] by (rule upt_add_eq_append) simp
  then show "load_bytes m a (n + k) = load_bytes m a n @ load_bytes m (a + word_of_nat n) k"
    by (simp add: load_bytes_def add.assoc add.commute [of "word_of_nat n"])
next
  fix m :: mem and a and bs cs :: "u8 list"
  show "store_bytes m a (bs @ cs) = store_bytes (store_bytes m a bs) (a + word_of_nat (length bs)) cs"
    by (induction bs arbitrary: m a) (simp_all add: add.assoc)
qed (rule length_load_bytes)

lemma read16_write16 [simp]: "read16 (write16 m a v) a = v"
  using ram.load_store_same [of "le16 v" m a] by (simp add: read16_def write16_def)

lemma read32_write32 [simp]: "read32_unchecked (write32_unchecked m a v) a = v"
  using ram.load_store_same [of "le32 v" m a] by (simp add: read32_unchecked_def write32_unchecked_def)

lemma le16_read16: "le16 (read16 m a) = load_bytes m a 2"
  by (simp add: read16_def le16_of_le16)

text \<open>Blocks that are apart as ranges of natural numbers.\<close>

lemma unat_add_small:
  "unat a + i < 2 ^ 32 \<Longrightarrow> unat (a + word_of_nat i :: u32) = unat a + i"
  by (subst unat_u32_add_nowrap) (simp_all add: unat_of_nat)

lemma unat_sub_u32:
  "unat (x - y :: u32) = (if unat y \<le> unat x then unat x - unat y else unat x + 2 ^ 32 - unat y)"
  by (simp add: unat_sub_if_size word_size)

lemma apart_below:
  assumes "unat a + n \<le> unat b" and "unat b + k \<le> 2 ^ 32"
  shows "apart a n b k"
  unfolding apart_def
proof (intro allI impI)
  fix i assume i: "i < n"
  then have "unat a + i < unat b" using assms(1) by simp
  then have "unat (a + word_of_nat i) = unat a + i"
    by (intro unat_add_small) (auto dest: le_unat_u32_lt less_imp_le)
  with assms i show "k \<le> unat (a + word_of_nat i - b)"
    by (simp add: unat_sub_u32)
qed

lemma apart_above:
  assumes "unat b + k \<le> unat a" and "unat a + n \<le> 2 ^ 32"
  shows "apart a n b k"
  unfolding apart_def
proof (intro allI impI)
  fix i assume "i < n"
  then have "unat (a + word_of_nat i) = unat a + i"
    using assms(2) by (intro unat_add_small) simp
  with assms show "k \<le> unat (a + word_of_nat i - b)"
    by (simp add: unat_sub_u32)
qed

text \<open>Parts of blocks that are apart.\<close>

lemma apart_part: "apart a n b k \<Longrightarrow> i + j \<le> n \<Longrightarrow> k' \<le> k \<Longrightarrow> apart (a + word_of_nat i) j b k'"
  unfolding apart_def by (metis (no_types, lifting) add.assoc add_less_cancel_left le_trans less_le_trans of_nat_add)

end
