(* ===== verification/Wire.thy ===== *)
theory Wire
  imports Memory
begin

text \<open>
  The protocol between host and device, \<open>crates/da-protocol/src/lib.rs\<close>: messages, responses and
  their framing (length as a big-endian word, then the serialized value). The serializer
  (\<open>postcard\<close>) and the byte transport (\<open>simpleport\<close>) are arguments; what the code relies on is
  \<open>codec_ok\<close> and the locale \<open>fifo_port\<close>. The transport of the device, \<open>USB\<close> of
  \<open>payloads/rpc/src/usb.rs\<close>, is modelled over its two function pointers and provides the locale.
\<close>

section \<open>Messages\<close>

datatype HookId = MtPartGenericRead

record PreloaderRunnerParams =
  ptr_bldr_jump :: u32

record LKRunnerParams =
  ptr_mt_part_generic_read :: u32
  ptr_mt_part_get_partition :: u32
  bootimg_scratch_addr :: u32

definition preloader_params_default :: PreloaderRunnerParams where
  "preloader_params_default = \<lparr>ptr_bldr_jump = 0\<rparr>"

definition preloader_params_valid :: "PreloaderRunnerParams \<Rightarrow> bool" where
  "preloader_params_valid p \<longleftrightarrow> ptr_bldr_jump p \<noteq> 0"

definition lk_params_default :: LKRunnerParams where
  "lk_params_default =
     \<lparr>ptr_mt_part_generic_read = 0, ptr_mt_part_get_partition = 0, bootimg_scratch_addr = 0\<rparr>"

definition lk_params_new :: "u32 \<Rightarrow> u32 \<Rightarrow> u32 \<Rightarrow> LKRunnerParams" where
  "lk_params_new r g b =
     \<lparr>ptr_mt_part_generic_read = r, ptr_mt_part_get_partition = g, bootimg_scratch_addr = b\<rparr>"

definition lk_params_valid :: "LKRunnerParams \<Rightarrow> bool" where
  "lk_params_valid p \<longleftrightarrow>
     ptr_mt_part_generic_read p \<noteq> 0 \<and> ptr_mt_part_get_partition p \<noteq> 0 \<and> bootimg_scratch_addr p \<noteq> 0"

datatype ParamsType = ParamsPreloader PreloaderRunnerParams | ParamsLK LKRunnerParams

text \<open>Constructors carry the initial of their type, since \<open>Ack\<close> is a message and a response.\<close>

datatype Message =
    MAck
  | MRead u32 u32
  | MWrite u32 u32
  | MFlushCache u32 u32
  | MJump u32 "u32 option" "u32 option"
  | MReset
  | MHook HookId
  | MGetFreeRange u32
  | MBlacklistRange "u32 \<times> u32"
  | MSetParams ParamsType

datatype ProtocolError = NotSupported | Unreachable | DownloadForbidden | InvalidParams

datatype Response = RAck | RNack ProtocolError | RRange "u32 option"

definition message_is_ack :: "Message \<Rightarrow> bool" where "message_is_ack m \<longleftrightarrow> m = MAck"
definition response_is_ack :: "Response \<Rightarrow> bool" where "response_is_ack r \<longleftrightarrow> r = RAck"

section \<open>Transport and serializer\<close>

text \<open>
  \<open>SimpleRead\<close> and \<open>SimpleWrite\<close> for a port of type \<open>'p\<close>. \<open>None\<close> and \<open>False\<close> are transport errors.
\<close>

record 'p port_ops =
  op_read :: "'p \<Rightarrow> nat \<Rightarrow> u8 list option \<times> 'p"
  op_write :: "'p \<Rightarrow> u8 list \<Rightarrow> bool \<times> 'p"
  op_read_u32_be :: "'p \<Rightarrow> u32 option \<times> 'p"
  op_write_u32_be :: "'p \<Rightarrow> u32 \<Rightarrow> bool \<times> 'p"

text \<open>
  \<open>postcard\<close> for one type: the bytes of a value and the decoder. \<open>to_slice\<close> fails when the buffer
  is too small, \<open>from_bytes\<close> ignores bytes behind the value; the latter is part of \<open>codec_ok\<close>.
\<close>

record 'm codec =
  cd_bytes :: "'m \<Rightarrow> u8 list"
  cd_from_bytes :: "u8 list \<Rightarrow> 'm option"

definition to_slice :: "'m codec \<Rightarrow> 'm \<Rightarrow> nat \<Rightarrow> u8 list option" where
  "to_slice c m n = (if length (cd_bytes c m) \<le> n then Some (cd_bytes c m) else None)"

definition codec_ok :: "'m codec \<Rightarrow> nat \<Rightarrow> bool" where
  "codec_ok c n \<longleftrightarrow> (\<forall>m. length (cd_bytes c m) \<le> n \<and>
     (\<forall>rest. cd_from_bytes c (cd_bytes c m @ rest) = Some m))"

section \<open>Protocol\<close>

text \<open>\<open>BUF_SIZE\<close> is the larger of two compiler-chosen sizes: the length of the buffer is free.\<close>

record 'p protocol =
  pr_io :: 'p
  pr_buf :: "u8 list"

datatype wire_err = Postcard | Transport | Panic

definition protocol_new :: "nat \<Rightarrow> 'p \<Rightarrow> 'p protocol" where
  "protocol_new BUF_SIZE p = \<lparr>pr_io = p, pr_buf = replicate BUF_SIZE 0\<rparr>"

text \<open>A length beyond the buffer makes the slice expression panic.\<close>

definition read_data :: "'p port_ops \<Rightarrow> 'm codec \<Rightarrow> 'p protocol \<Rightarrow> (wire_err + 'm) \<times> 'p protocol" where
  "read_data ops c p =
     (case op_read_u32_be ops (pr_io p) of
        (None, q) \<Rightarrow> (Inl Transport, p\<lparr>pr_io := q\<rparr>)
      | (Some sz, q) \<Rightarrow>
          if length (pr_buf p) < unat sz then (Inl Panic, p\<lparr>pr_io := q\<rparr>)
          else (case op_read ops q (unat sz) of
                  (None, q') \<Rightarrow> (Inl Transport, p\<lparr>pr_io := q'\<rparr>)
                | (Some bs, q') \<Rightarrow>
                    let buf = bs @ drop (length bs) (pr_buf p); p' = \<lparr>pr_io = q', pr_buf = buf\<rparr>
                    in (case cd_from_bytes c buf of
                          None \<Rightarrow> (Inl Postcard, p')
                        | Some m \<Rightarrow> (Inr m, p'))))"

definition write_data :: "'p port_ops \<Rightarrow> 'm codec \<Rightarrow> 'p protocol \<Rightarrow> 'm \<Rightarrow> (wire_err + unit) \<times> 'p protocol" where
  "write_data ops c p m =
     (case to_slice c m (length (pr_buf p)) of
        None \<Rightarrow> (Inl Postcard, p)
      | Some bs \<Rightarrow>
          let buf = bs @ drop (length bs) (pr_buf p)
          in (case op_write_u32_be ops (pr_io p) (word_of_nat (length bs)) of
                (False, q) \<Rightarrow> (Inl Transport, \<lparr>pr_io = q, pr_buf = buf\<rparr>)
              | (True, q) \<Rightarrow>
                  (case op_write ops q bs of
                     (False, q') \<Rightarrow> (Inl Transport, \<lparr>pr_io = q', pr_buf = buf\<rparr>)
                   | (True, q') \<Rightarrow> (Inr (), \<lparr>pr_io = q', pr_buf = buf\<rparr>))))"

text \<open>The four typed operations, with the codecs of the two types.\<close>

record codecs =
  message_codec :: "Message codec"
  response_codec :: "Response codec"

definition read_message :: "'p port_ops \<Rightarrow> codecs \<Rightarrow> 'p protocol \<Rightarrow> (wire_err + Message) \<times> 'p protocol" where
  "read_message ops cs p = read_data ops (message_codec cs) p"

definition send_message :: "'p port_ops \<Rightarrow> codecs \<Rightarrow> 'p protocol \<Rightarrow> Message \<Rightarrow> (wire_err + unit) \<times> 'p protocol" where
  "send_message ops cs p m = write_data ops (message_codec cs) p m"

definition read_response :: "'p port_ops \<Rightarrow> codecs \<Rightarrow> 'p protocol \<Rightarrow> (wire_err + Response) \<times> 'p protocol" where
  "read_response ops cs p = read_data ops (response_codec cs) p"

definition send_response :: "'p port_ops \<Rightarrow> codecs \<Rightarrow> 'p protocol \<Rightarrow> Response \<Rightarrow> (wire_err + unit) \<times> 'p protocol" where
  "send_response ops cs p r = write_data ops (response_codec cs) p r"

definition codecs_ok :: "codecs \<Rightarrow> nat \<Rightarrow> bool" where
  "codecs_ok cs n \<longleftrightarrow> codec_ok (message_codec cs) n \<and> codec_ok (response_codec cs) n"

section \<open>The frame of a value\<close>

definition be32 :: "u32 \<Rightarrow> u8 list" where
  "be32 v = rev (le32 v)"

definition of_be32 :: "u8 list \<Rightarrow> u32" where
  "of_be32 bs = of_le32 (rev bs)"

definition frame :: "'m codec \<Rightarrow> 'm \<Rightarrow> u8 list" where
  "frame c m = be32 (word_of_nat (length (cd_bytes c m))) @ cd_bytes c m"

abbreviation mframe :: "codecs \<Rightarrow> Message \<Rightarrow> u8 list" where
  "mframe cs \<equiv> frame (message_codec cs)"

abbreviation rframe :: "codecs \<Rightarrow> Response \<Rightarrow> u8 list" where
  "rframe cs \<equiv> frame (response_codec cs)"

lemma length_be32 [simp]: "length (be32 v) = 4"
  by (simp add: be32_def)

lemma of_be32_be32 [simp]: "of_be32 (be32 v) = v"
  by (simp add: be32_def of_be32_def)

text \<open>
  A port that is a pair of byte queues: reading takes from \<open>inbox\<close>, writing appends to \<open>outbox\<close>,
  and the word operations are big-endian.
\<close>

locale fifo_port =
  fixes ops :: "'p port_ops"
    and inbox :: "'p \<Rightarrow> u8 list"
    and outbox :: "'p \<Rightarrow> u8 list"
  assumes read_law: "n \<le> length (inbox q) \<Longrightarrow>
      \<exists>q'. op_read ops q n = (Some (take n (inbox q)), q') \<and> inbox q' = drop n (inbox q) \<and> outbox q' = outbox q"
    and read_u32_law: "4 \<le> length (inbox q) \<Longrightarrow>
      \<exists>q'. op_read_u32_be ops q = (Some (of_be32 (take 4 (inbox q))), q') \<and>
        inbox q' = drop 4 (inbox q) \<and> outbox q' = outbox q"
    and write_law: "\<exists>q'. op_write ops q bs = (True, q') \<and> inbox q' = inbox q \<and> outbox q' = outbox q @ bs"
    and write_u32_law: "\<exists>q'. op_write_u32_be ops q v = (True, q') \<and> inbox q' = inbox q \<and> outbox q' = outbox q @ be32 v"
begin

lemma write_data_frame:
  assumes "codec_ok c (length (pr_buf p))"
  shows "\<exists>p'. write_data ops c p m = (Inr (), p') \<and> inbox (pr_io p') = inbox (pr_io p) \<and>
    outbox (pr_io p') = outbox (pr_io p) @ frame c m \<and> length (pr_buf p') = length (pr_buf p)"
proof -
  let ?bs = "cd_bytes c m"
  from assms have l: "length ?bs \<le> length (pr_buf p)" by (simp add: codec_ok_def)
  obtain q where q: "op_write_u32_be ops (pr_io p) (word_of_nat (length ?bs)) = (True, q)"
    "inbox q = inbox (pr_io p)" "outbox q = outbox (pr_io p) @ be32 (word_of_nat (length ?bs))"
    using write_u32_law by blast
  obtain q' where q': "op_write ops q ?bs = (True, q')" "inbox q' = inbox q" "outbox q' = outbox q @ ?bs"
    using write_law by blast
  from l q q' show ?thesis by (simp add: write_data_def to_slice_def frame_def)
qed

lemma read_data_frame:
  assumes "codec_ok c n" and "n \<le> length (pr_buf p)" and "n < 2 ^ 32" and "inbox (pr_io p) = frame c m @ rest"
  shows "\<exists>p'. read_data ops c p = (Inr m, p') \<and> inbox (pr_io p') = rest \<and>
    outbox (pr_io p') = outbox (pr_io p) \<and> length (pr_buf p') = length (pr_buf p)"
proof -
  let ?bs = "cd_bytes c m"
  from assms(1) have l: "length ?bs \<le> n" and dec: "\<And>rest. cd_from_bytes c (?bs @ rest) = Some m"
    by (simp_all add: codec_ok_def)
  have un: "unat (word_of_nat (length ?bs) :: u32) = length ?bs"
    using l assms(3) by (simp add: unat_of_nat)
  obtain q where q: "op_read_u32_be ops (pr_io p) = (Some (word_of_nat (length ?bs)), q)"
    "inbox q = ?bs @ rest" "outbox q = outbox (pr_io p)"
    using read_u32_law [of "pr_io p"] assms(4) by (auto simp: frame_def)
  obtain q' where q': "op_read ops q (length ?bs) = (Some ?bs, q')" "inbox q' = rest" "outbox q' = outbox q"
    using read_law [of "length ?bs" q] q(2) by auto
  from q q' un l assms(2) dec show ?thesis by (simp add: read_data_def)
qed

end

text \<open>Frames of a type, one after the other.\<close>

definition frames :: "'m codec \<Rightarrow> 'm list \<Rightarrow> u8 list" where
  "frames c ms = concat (map (frame c) ms)"

fun send_all :: "'p port_ops \<Rightarrow> 'm codec \<Rightarrow> 'p protocol \<Rightarrow> 'm list \<Rightarrow> (wire_err + unit) \<times> 'p protocol" where
  "send_all ops c p [] = (Inr (), p)"
| "send_all ops c p (m # ms) =
     (case write_data ops c p m of
        (Inl e, p') \<Rightarrow> (Inl e, p')
      | (Inr _, p') \<Rightarrow> send_all ops c p' ms)"

fun receive_all :: "'p port_ops \<Rightarrow> 'm codec \<Rightarrow> 'p protocol \<Rightarrow> nat \<Rightarrow> (wire_err + 'm list) \<times> 'p protocol" where
  "receive_all ops c p 0 = (Inr [], p)"
| "receive_all ops c p (Suc n) =
     (case read_data ops c p of
        (Inl e, p') \<Rightarrow> (Inl e, p')
      | (Inr m, p') \<Rightarrow>
          (case receive_all ops c p' n of
             (Inl e, p'') \<Rightarrow> (Inl e, p'')
           | (Inr ms, p'') \<Rightarrow> (Inr (m # ms), p'')))"

context fifo_port
begin

lemma send_all_frames:
  "codec_ok c (length (pr_buf p)) \<Longrightarrow>
   \<exists>p'. send_all ops c p ms = (Inr (), p') \<and> inbox (pr_io p') = inbox (pr_io p) \<and>
     outbox (pr_io p') = outbox (pr_io p) @ frames c ms"
proof (induction ms arbitrary: p)
  case (Cons m ms)
  from write_data_frame [OF Cons.prems, of m] obtain p1 where
    p1: "write_data ops c p m = (Inr (), p1)" "inbox (pr_io p1) = inbox (pr_io p)"
    "outbox (pr_io p1) = outbox (pr_io p) @ frame c m" "length (pr_buf p1) = length (pr_buf p)" by blast
  from Cons.IH [of p1] Cons.prems p1 show ?case by (auto simp: frames_def)
qed (simp add: frames_def)

lemma receive_all_frames:
  "codec_ok c n \<Longrightarrow> n \<le> length (pr_buf p) \<Longrightarrow> n < 2 ^ 32 \<Longrightarrow> inbox (pr_io p) = frames c ms @ rest \<Longrightarrow>
   \<exists>p'. receive_all ops c p (length ms) = (Inr ms, p') \<and> inbox (pr_io p') = rest"
proof (induction ms arbitrary: p)
  case (Cons m ms)
  from read_data_frame [OF Cons.prems(1-3), of m "frames c ms @ rest"] Cons.prems(4) obtain p1 where
    p1: "read_data ops c p = (Inr m, p1)" "inbox (pr_io p1) = frames c ms @ rest"
    "length (pr_buf p1) = length (pr_buf p)" by (auto simp: frames_def)
  from Cons.IH [of p1] Cons.prems p1 show ?case by auto
qed (simp add: frames_def)

end

section \<open>The USB transport of the device\<close>

text \<open>
  \<open>USB\<close> holds the download and upload functions of the boot ROM or preloader, which are not under
  \<open>src\<close>: \<open>recv\<close> leaves the bytes of the buffer, \<open>send\<close> transmits. The word operations are the
  provided methods of the \<open>simpleport\<close> traits.
\<close>

definition usb_read :: "('p \<Rightarrow> nat \<Rightarrow> u8 list \<times> 'p) \<Rightarrow> 'p \<Rightarrow> nat \<Rightarrow> u8 list option \<times> 'p" where
  "usb_read recv p n = (let (bs, p') = recv p n in (Some bs, p'))"

definition usb_write :: "('p \<Rightarrow> u8 list \<Rightarrow> 'p) \<Rightarrow> 'p \<Rightarrow> u8 list \<Rightarrow> bool \<times> 'p" where
  "usb_write send p bs = (True, send p bs)"

definition usb_ops :: "('p \<Rightarrow> nat \<Rightarrow> u8 list \<times> 'p) \<Rightarrow> ('p \<Rightarrow> u8 list \<Rightarrow> 'p) \<Rightarrow> 'p port_ops" where
  "usb_ops recv send =
     \<lparr>op_read = usb_read recv, op_write = usb_write send,
      op_read_u32_be = (\<lambda>p. case usb_read recv p 4 of (bs, p') \<Rightarrow> (map_option of_be32 bs, p')),
      op_write_u32_be = (\<lambda>p v. usb_write send p (be32 v))\<rparr>"

text \<open>Transmission as two queues: what has arrived and what has been sent.\<close>

record queues =
  q_in :: "u8 list"
  q_out :: "u8 list"

definition queue_recv :: "queues \<Rightarrow> nat \<Rightarrow> u8 list \<times> queues" where
  "queue_recv q n = (take n (q_in q), q\<lparr>q_in := drop n (q_in q)\<rparr>)"

definition queue_send :: "queues \<Rightarrow> u8 list \<Rightarrow> queues" where
  "queue_send q bs = q\<lparr>q_out := q_out q @ bs\<rparr>"

interpretation usb: fifo_port "usb_ops queue_recv queue_send" q_in q_out
  by unfold_locales
    (auto simp: usb_ops_def usb_read_def usb_write_def queue_recv_def queue_send_def)

section \<open>An instance of the serializer\<close>

text \<open>
  The hypotheses on the serializer can be met: one tag byte, then every field in four bytes. This is not
  the format of \<open>postcard\<close>, only a function with its documented properties.
\<close>

definition opt32 :: "u32 option \<Rightarrow> u8 list" where
  "opt32 v = (case v of None \<Rightarrow> 0 # le32 0 | Some x \<Rightarrow> 1 # le32 x)"

definition of_opt32 :: "u8 list \<Rightarrow> u32 option" where
  "of_opt32 bs = (if bs ! 0 = 0 then None else Some (of_le32 (drop 1 bs)))"

fun message_bytes :: "Message \<Rightarrow> u8 list" where
  "message_bytes MAck = [0]"
| "message_bytes (MRead a n) = 1 # le32 a @ le32 n"
| "message_bytes (MWrite a n) = 2 # le32 a @ le32 n"
| "message_bytes (MFlushCache a n) = 3 # le32 a @ le32 n"
| "message_bytes (MJump a r0 r1) = 4 # le32 a @ opt32 r0 @ opt32 r1"
| "message_bytes MReset = [5]"
| "message_bytes (MHook MtPartGenericRead) = [6]"
| "message_bytes (MGetFreeRange n) = 7 # le32 n"
| "message_bytes (MBlacklistRange r) = 8 # le32 (fst r) @ le32 (snd r)"
| "message_bytes (MSetParams (ParamsPreloader p)) = 9 # le32 (ptr_bldr_jump p)"
| "message_bytes (MSetParams (ParamsLK p)) =
     10 # le32 (ptr_mt_part_generic_read p) @ le32 (ptr_mt_part_get_partition p) @ le32 (bootimg_scratch_addr p)"

definition bytes_message :: "u8 list \<Rightarrow> Message option" where
  "bytes_message bs =
     (if bs = [] then None
      else let t = hd bs; f = (\<lambda>i. of_le32 (take 4 (drop (1 + 4 * i) bs)))
      in if t = 0 then Some MAck
         else if t = 1 then Some (MRead (f 0) (f 1))
         else if t = 2 then Some (MWrite (f 0) (f 1))
         else if t = 3 then Some (MFlushCache (f 0) (f 1))
         else if t = 4 then Some (MJump (f 0) (of_opt32 (take 5 (drop 5 bs))) (of_opt32 (take 5 (drop 10 bs))))
         else if t = 5 then Some MReset
         else if t = 6 then Some (MHook MtPartGenericRead)
         else if t = 7 then Some (MGetFreeRange (f 0))
         else if t = 8 then Some (MBlacklistRange (f 0, f 1))
         else if t = 9 then Some (MSetParams (ParamsPreloader \<lparr>ptr_bldr_jump = f 0\<rparr>))
         else if t = 10 then Some (MSetParams (ParamsLK \<lparr>ptr_mt_part_generic_read = f 0,
                ptr_mt_part_get_partition = f 1, bootimg_scratch_addr = f 2\<rparr>))
         else None)"

fun response_bytes :: "Response \<Rightarrow> u8 list" where
  "response_bytes RAck = [0]"
| "response_bytes (RNack NotSupported) = [1, 0]"
| "response_bytes (RNack Unreachable) = [1, 1]"
| "response_bytes (RNack DownloadForbidden) = [1, 2]"
| "response_bytes (RNack InvalidParams) = [1, 3]"
| "response_bytes (RRange v) = 2 # opt32 v"

definition bytes_response :: "u8 list \<Rightarrow> Response option" where
  "bytes_response bs =
     (if bs = [] then None
      else if bs ! 0 = 0 then Some RAck
      else if bs ! 0 = 1 then
        (if bs ! 1 = 0 then Some (RNack NotSupported)
         else if bs ! 1 = 1 then Some (RNack Unreachable)
         else if bs ! 1 = 2 then Some (RNack DownloadForbidden)
         else Some (RNack InvalidParams))
      else Some (RRange (of_opt32 (take 5 (drop 1 bs)))))"

definition sample_codecs :: codecs where
  "sample_codecs =
     \<lparr>message_codec = \<lparr>cd_bytes = message_bytes, cd_from_bytes = bytes_message\<rparr>,
      response_codec = \<lparr>cd_bytes = response_bytes, cd_from_bytes = bytes_response\<rparr>\<rparr>"

lemma length_opt32 [simp]: "length (opt32 v) = 5"
  by (simp add: opt32_def split: option.split)

lemma of_opt32_opt32 [simp]: "of_opt32 (opt32 v) = v"
  by (simp add: of_opt32_def opt32_def split: option.split)

lemma message_bytes_ok: "length (message_bytes m) \<le> 15 \<and> bytes_message (message_bytes m @ rest) = Some m"
proof (cases m)
  case (MSetParams p)
  then show ?thesis by (cases p) (simp_all add: bytes_message_def)
next
  case (MHook h)
  then show ?thesis by (cases h) (simp add: bytes_message_def)
qed (simp_all add: bytes_message_def)

lemma response_bytes_ok: "length (response_bytes r) \<le> 15 \<and> bytes_response (response_bytes r @ rest) = Some r"
proof (cases r)
  case (RNack e)
  then show ?thesis by (cases e) (simp_all add: bytes_response_def)
qed (simp_all add: bytes_response_def)

lemma sample_codecs_ok: "15 \<le> n \<Longrightarrow> codecs_ok sample_codecs n"
  unfolding codecs_ok_def codec_ok_def sample_codecs_def
  using message_bytes_ok response_bytes_ok by (auto intro: le_trans [where j = 15])

section \<open>Properties\<close>

text \<open>C10: Values of one type sent one after the other arrive in order and nothing else is
  consumed: if the receiver's transport delivers the bytes the sender's transport put out, every
  value is decoded as it was sent, whatever was left in the two buffers. It needs the documented
  behaviour of the serializer and buffers that hold every value.\<close>

theorem sent_values_arrive_in_order:
  assumes "fifo_port sops sin sout" and "fifo_port rops rin rout"
    and "codec_ok c (length (pr_buf s))" and "length (pr_buf s) \<le> length (pr_buf r)" and "length (pr_buf s) < 2 ^ 32"
    and "send_all sops c s ms = (res, s')"
    and "sout (pr_io s) @ rin (pr_io r) = sout (pr_io s') @ rest"
  shows "res = Inr () \<and> (\<exists>r'. receive_all rops c r (length ms) = (Inr ms, r') \<and> rin (pr_io r') = rest)"
proof -
  from fifo_port.send_all_frames [OF assms(1,3), of ms] assms(6)
  have s: "res = Inr ()" "sout (pr_io s') = sout (pr_io s) @ frames c ms" by auto
  with assms(7) have "rin (pr_io r) = frames c ms @ rest" by simp
  from fifo_port.receive_all_frames [OF assms(2,3,4,5) this] s show ?thesis by simp
qed

lemma sent_values_arrive_in_order_witness:
  "\<exists>s' r'. send_all (usb_ops queue_recv queue_send) (message_codec sample_codecs)
      (protocol_new 24 \<lparr>q_in = [], q_out = []\<rparr>) [MWrite 0x80000000 2, MJump 0x81000000 (Some 7) None] = (Inr (), s') \<and>
    receive_all (usb_ops queue_recv queue_send) (message_codec sample_codecs)
      \<lparr>pr_io = \<lparr>q_in = q_out (pr_io s'), q_out = []\<rparr>, pr_buf = replicate 24 0xFF\<rparr> 2 =
      (Inr [MWrite 0x80000000 2, MJump 0x81000000 (Some 7) None], r')"
proof -
  let ?s = "protocol_new 24 \<lparr>q_in = [], q_out = []\<rparr>" and ?c = "message_codec sample_codecs"
    and ?ms = "[MWrite 0x80000000 2, MJump 0x81000000 (Some 7) None]"
  obtain res s' where s: "send_all (usb_ops queue_recv queue_send) ?c ?s ?ms = (res, s')" by (rule prod.exhaust)
  have c: "codec_ok ?c (length (pr_buf ?s))"
    using sample_codecs_ok [of 24] by (simp add: codecs_ok_def protocol_new_def)
  let ?r = "\<lparr>pr_io = \<lparr>q_in = q_out (pr_io s'), q_out = []\<rparr>, pr_buf = replicate 24 0xFF\<rparr>"
  have l: "length (pr_buf ?s) \<le> length (pr_buf ?r)" "length (pr_buf ?s) < 2 ^ 32" by (simp_all add: protocol_new_def)
  have "q_out (pr_io ?s) @ q_in (pr_io ?r) = q_out (pr_io s') @ []" by (simp add: protocol_new_def)
  from sent_values_arrive_in_order [OF usb.fifo_port_axioms usb.fifo_port_axioms c l s this] s
  have "send_all (usb_ops queue_recv queue_send) ?c ?s ?ms = (Inr (), s') \<and>
    (\<exists>r'. receive_all (usb_ops queue_recv queue_send) ?c ?r (length ?ms) = (Inr ?ms, r'))" by blast
  moreover have "length ?ms = 2" by simp
  ultimately show ?thesis by metis
qed

text \<open>C36: A frame whose length word exceeds the receiver's buffer is not rejected: the slice of
  the buffer panics after four bytes, on the host and on the device alike.\<close>

theorem oversized_frame_panics:
  assumes "fifo_port ops inbox outbox" and "4 \<le> length (inbox (pr_io p))"
    and "length (pr_buf p) < unat (of_be32 (take 4 (inbox (pr_io p))))"
  shows "\<exists>p'. read_data ops c p = (Inl Panic, p') \<and> inbox (pr_io p') = drop 4 (inbox (pr_io p)) \<and>
    outbox (pr_io p') = outbox (pr_io p)"
  using fifo_port.read_u32_law [OF assms(1,2)] assms(3) by (auto simp: read_data_def)

lemma oversized_frame_panics_witness:
  "\<exists>p'. read_message (usb_ops queue_recv queue_send) sample_codecs
     (protocol_new 24 \<lparr>q_in = [0, 0, 1, 0], q_out = []\<rparr>) = (Inl Panic, p')"
  using oversized_frame_panics [OF usb.fifo_port_axioms,
      of "protocol_new 24 \<lparr>q_in = [0, 0, 1, 0], q_out = []\<rparr>" "message_codec sample_codecs"]
  by (auto simp: read_message_def protocol_new_def of_be32_def of_le32_def)

end
