(* ===== verification/Reservation.thy ===== *)
theory Reservation
  imports Prelude
begin

text \<open>
  The interface between the code that hands out memory ranges and its clients: a search for an
  unused range and a reservation of one. The payload calls the two in sequence for its stack
  and its heap (\<open>payloads/rpc/src/setup.rs\<close>, \<open>pl.rs\<close>) and the host does so over the protocol for
  the boot argument and the boot image. The locale states what the provider promises, and proves
  for the clients that successive claims never overlap.
\<close>

definition bytes_of :: "u32 \<times> u32 \<Rightarrow> nat set" where
  "bytes_of r = {unat (fst r)..<unat (snd r)}"

text \<open>Find a range and reserve it, as \<open>setup.rs\<close> does for the stack and \<open>pl.rs\<close> for the heap.\<close>

definition claim :: "('s \<Rightarrow> u32 \<Rightarrow> (u32 \<times> u32) option) \<Rightarrow> ('s \<Rightarrow> u32 \<times> u32 \<Rightarrow> 'e + 's) \<Rightarrow>
    's \<Rightarrow> u32 \<Rightarrow> ((u32 \<times> u32) \<times> 's) option" where
  "claim search reserve s n =
     (case search s n of
        None \<Rightarrow> None
      | Some r \<Rightarrow> (case reserve s r of Inl e \<Rightarrow> None | Inr s' \<Rightarrow> Some (r, s')))"

fun claims :: "('s \<Rightarrow> u32 \<Rightarrow> (u32 \<times> u32) option) \<Rightarrow> ('s \<Rightarrow> u32 \<times> u32 \<Rightarrow> 'e + 's) \<Rightarrow>
    's \<Rightarrow> u32 list \<Rightarrow> ((u32 \<times> u32) list \<times> 's) option" where
  "claims search reserve s [] = Some ([], s)"
| "claims search reserve s (n # ns) =
     (case claim search reserve s n of
        None \<Rightarrow> None
      | Some (r, s') \<Rightarrow> map_option (\<lambda>(rs, t). (r # rs, t)) (claims search reserve s' ns))"

fun pairwise_disjoint :: "(u32 \<times> u32) list \<Rightarrow> bool" where
  "pairwise_disjoint [] \<longleftrightarrow> True"
| "pairwise_disjoint (r # rs) \<longleftrightarrow>
     (\<forall>q \<in> set rs. bytes_of r \<inter> bytes_of q = {}) \<and> pairwise_disjoint rs"

locale range_reservation =
  fixes search :: "'s \<Rightarrow> u32 \<Rightarrow> (u32 \<times> u32) option"
    and reserve :: "'s \<Rightarrow> u32 \<times> u32 \<Rightarrow> 'e + 's"
    and taken :: "'s \<Rightarrow> nat set"
    and invar :: "'s \<Rightarrow> bool"
  assumes search_fresh: "invar s \<Longrightarrow> search s n = Some r \<Longrightarrow> bytes_of r \<inter> taken s = {}"
    and search_size: "invar s \<Longrightarrow> search s n = Some r \<Longrightarrow> unat (fst r) + unat n \<le> unat (snd r)"
    and taken_reserve: "reserve s r = Inr s' \<Longrightarrow> taken s' = bytes_of r \<union> taken s"
    and invar_reserve: "invar s \<Longrightarrow> reserve s r = Inr s' \<Longrightarrow> invar s'"
begin

lemma claim_cases:
  assumes "claim search reserve s n = Some (r, s')"
  obtains "search s n = Some r" and "reserve s r = Inr s'"
  using assms by (auto simp: claim_def split: option.splits sum.splits)

lemma claim_fresh:
  assumes "invar s" and "claim search reserve s n = Some (r, s')"
  shows "bytes_of r \<inter> taken s = {}" and "taken s' = bytes_of r \<union> taken s" and "invar s'"
    and "unat (fst r) + unat n \<le> unat (snd r)"
proof -
  from assms(2) have f: "search s n = Some r" and r: "reserve s r = Inr s'"
    by (auto elim: claim_cases)
  show "bytes_of r \<inter> taken s = {}" by (rule search_fresh [OF assms(1) f])
  show "taken s' = bytes_of r \<union> taken s" by (rule taken_reserve [OF r])
  show "invar s'" by (rule invar_reserve [OF assms(1) r])
  show "unat (fst r) + unat n \<le> unat (snd r)" by (rule search_size [OF assms(1) f])
qed

text \<open>Ranges claimed one after the other avoid what was taken before, and each other.\<close>

lemma claims_disjoint:
  "invar s \<Longrightarrow> claims search reserve s ns = Some (rs, t) \<Longrightarrow>
   pairwise_disjoint rs \<and> (\<forall>r \<in> set rs. bytes_of r \<inter> taken s = {}) \<and> invar t \<and>
   taken t = \<Union>(bytes_of ` set rs) \<union> taken s \<and>
   list_all2 (\<lambda>r n. unat (fst r) + unat n \<le> unat (snd r)) rs ns"
proof (induction ns arbitrary: s rs)
  case (Cons n ns)
  from Cons.prems(2) obtain r s' qs where c: "claim search reserve s n = Some (r, s')"
    and q: "claims search reserve s' ns = Some (qs, t)" and rs: "rs = r # qs"
    by (auto split: option.splits)
  note f = claim_fresh [OF Cons.prems(1) c]
  from Cons.IH [OF f(3) q] f show ?case by (auto simp: rs)
qed simp

end

end
