(* ===== verification/Params.thy ===== *)
theory Params
  imports Reservation
begin

text \<open>
  The parameter block of the payload, \<open>crates/da-params/src/lib.rs\<close>: memory ranges, the
  blacklist of twelve slots, the two operations that fill a slot and the search for an unused
  range. Arithmetic is that of the release and \<open>nostd\<close> profiles: an unchecked \<open>+\<close> wraps.
  The lemmas show that a found range avoids every blacklisted one, that the search takes the
  first range that fits, and that blacklisting only ever adds reservations.
\<close>

section \<open>Data\<close>

record MemoryRange =
  mr_start :: u32
  mr_end :: u32

datatype BlacklistMode = ModeNone | ForbiddenReloc | ForbiddenDL

record BlacklistRange =
  bl_range :: MemoryRange
  bl_mode :: BlacklistMode

text \<open>\<open>acon::SoC\<close> as the sources use it: the three chips they name, and the remaining ones,
  which the sources only reach through a wildcard.\<close>

datatype SoC = MT6572 | MT6582 | MT6595 | OtherSoC nat

record PayloadParams =
  pp_magic :: u32
  pp_version :: u32
  pp_memory :: MemoryRange
  pp_blacklist :: "BlacklistRange list"
  pp_ptr_dl :: u32
  pp_ptr_ul :: u32
  pp_soc :: SoC

datatype ParamsErr = BlacklistExhausted

definition MAGIC :: u32 where "MAGIC = 0xDAB001"

definition CURRENT_VERSION :: u32 where "CURRENT_VERSION = 1"

definition memory_range_new :: "u32 \<Rightarrow> u32 \<Rightarrow> MemoryRange" where
  "memory_range_new s e = \<lparr>mr_start = s, mr_end = e\<rparr>"

definition memory_range_default :: MemoryRange where
  "memory_range_default = memory_range_new 0 0"

definition blacklist_range_default :: BlacklistRange where
  "blacklist_range_default = \<lparr>bl_range = memory_range_default, bl_mode = ModeNone\<rparr>"

text \<open>\<open>PayloadParams::new\<close>; a \<open>Range<u32>\<close> is the pair of its bounds.\<close>

definition params_new :: "u32 \<times> u32 \<Rightarrow> u32 \<Rightarrow> u32 \<Rightarrow> SoC \<Rightarrow> PayloadParams" where
  "params_new memory ptr_dl ptr_ul soc =
     \<lparr>pp_magic = MAGIC, pp_version = CURRENT_VERSION,
      pp_memory = memory_range_new (fst memory) (snd memory),
      pp_blacklist = replicate 12 blacklist_range_default,
      pp_ptr_dl = ptr_dl, pp_ptr_ul = ptr_ul, pp_soc = soc\<rparr>"

definition params_default :: PayloadParams where
  "params_default =
     \<lparr>pp_magic = MAGIC, pp_version = CURRENT_VERSION, pp_memory = memory_range_default,
      pp_blacklist = replicate 12 blacklist_range_default,
      pp_ptr_dl = 0, pp_ptr_ul = 0, pp_soc = MT6572\<rparr>"

section \<open>Blacklisting\<close>

text \<open>\<open>find_free_range\<close> hands out a mutable slot; the model returns its index.\<close>

fun first_free :: "BlacklistRange list \<Rightarrow> nat option" where
  "first_free [] = None"
| "first_free (b # bs) = (if bl_mode b = ModeNone then Some 0 else map_option Suc (first_free bs))"

definition find_free_range :: "PayloadParams \<Rightarrow> nat option" where
  "find_free_range p = first_free (pp_blacklist p)"

definition blacklist_with :: "BlacklistMode \<Rightarrow> PayloadParams \<Rightarrow> u32 \<times> u32 \<Rightarrow> ParamsErr + PayloadParams" where
  "blacklist_with mode p r =
     (case find_free_range p of
        None \<Rightarrow> Inl BlacklistExhausted
      | Some i \<Rightarrow> Inr (p\<lparr>pp_blacklist := (pp_blacklist p)
            [i := \<lparr>bl_range = memory_range_new (fst r) (snd r), bl_mode = mode\<rparr>]\<rparr>))"

definition blacklist_dl :: "PayloadParams \<Rightarrow> u32 \<times> u32 \<Rightarrow> ParamsErr + PayloadParams" where
  "blacklist_dl = blacklist_with ForbiddenDL"

definition blacklist_reloc :: "PayloadParams \<Rightarrow> u32 \<times> u32 \<Rightarrow> ParamsErr + PayloadParams" where
  "blacklist_reloc = blacklist_with ForbiddenReloc"

section \<open>The search for an unused range\<close>

text \<open>
  The inner \<open>for\<close> loop either finds no block in the way (\<open>Clear\<close>), moves the candidate behind
  the first block in the way (\<open>Moved\<close>), or leaves the function because the block ends too close
  to the top of the address space (\<open>Overflow\<close>, the \<open>?\<close> on \<open>checked_add\<close>).
\<close>

definition in_the_way :: "u32 \<Rightarrow> u32 \<Rightarrow> BlacklistRange \<Rightarrow> bool" where
  "in_the_way addr sz b \<longleftrightarrow>
     bl_mode b \<noteq> ModeNone \<and> addr < mr_end (bl_range b) \<and> addr + sz > mr_start (bl_range b)"

datatype scan = Clear | Moved u32 | Overflow

fun scan_blacklist :: "u32 \<Rightarrow> u32 \<Rightarrow> BlacklistRange list \<Rightarrow> scan" where
  "scan_blacklist addr sz [] = Clear"
| "scan_blacklist addr sz (b # bs) =
     (if in_the_way addr sz b
      then (case checked_add (mr_end (bl_range b)) 7 of
              None \<Rightarrow> Overflow
            | Some e \<Rightarrow> Moved (e AND NOT 7))
      else scan_blacklist addr sz bs)"

lemma unat_align_up_8:
  assumes "checked_add e 7 = Some e'"
  shows "unat (e' AND NOT 7) = (unat e + 7) div 8 * 8"
  using checked_add_Some [OF assms] by (simp add: word_nat)

lemma scan_blacklist_Moved_less:
  "scan_blacklist addr sz bs = Moved a \<Longrightarrow> unat addr < unat a"
proof (induction bs)
  case (Cons b bs)
  show ?case
  proof (cases "in_the_way addr sz b")
    case True
    with Cons.prems obtain e where e: "checked_add (mr_end (bl_range b)) 7 = Some e"
      and a: "a = e AND NOT 7" by (auto split: option.splits)
    from unat_align_up_8 [OF e] a have "unat (mr_end (bl_range b)) \<le> unat a" by simp
    with True show ?thesis by (simp add: in_the_way_def word_less_nat_alt)
  next
    case False
    with Cons show ?thesis by auto
  qed
qed simp

text \<open>The outer \<open>while\<close> loop. It ends because every retry starts at a higher address.\<close>

function find_loop :: "u32 \<Rightarrow> u32 \<Rightarrow> BlacklistRange list \<Rightarrow> u32 \<Rightarrow> (u32 \<times> u32) option" where
  "find_loop mend sz bs addr =
     (if saturating_add addr sz \<le> mend
      then (case scan_blacklist addr sz bs of
              Clear \<Rightarrow> Some (addr, addr + sz)
            | Overflow \<Rightarrow> None
            | Moved a \<Rightarrow> find_loop mend sz bs a)
      else None)"
  by pat_completeness auto
termination
  by (relation "measure (\<lambda>(mend, sz, bs, addr). 2 ^ 32 - unat addr)")
     (auto dest!: scan_blacklist_Moved_less intro!: diff_less_mono2)

declare find_loop.simps [simp del]

definition find_unused_range :: "PayloadParams \<Rightarrow> u32 \<Rightarrow> (u32 \<times> u32) option" where
  "find_unused_range p sz =
     (case checked_add sz 7 of
        None \<Rightarrow> None
      | Some s \<Rightarrow> find_loop (mr_end (pp_memory p)) (s AND NOT 7) (pp_blacklist p)
                    (mr_start (pp_memory p)))"

section \<open>Abstract view: the set of taken bytes\<close>

definition reserved :: "PayloadParams \<Rightarrow> (u32 \<times> u32) set" where
  "reserved p = set (map (\<lambda>b. (mr_start (bl_range b), mr_end (bl_range b)))
     (filter (\<lambda>b. bl_mode b \<noteq> ModeNone) (pp_blacklist p)))"

definition taken :: "PayloadParams \<Rightarrow> nat set" where
  "taken p = (\<Union>r \<in> reserved p. bytes_of r)"

definition aligned_size :: "u32 \<Rightarrow> nat" where
  "aligned_size sz = (unat sz + 7) div 8 * 8"

lemma reservedI:
  "b \<in> set (pp_blacklist p) \<Longrightarrow> bl_mode b \<noteq> ModeNone \<Longrightarrow>
   (mr_start (bl_range b), mr_end (bl_range b)) \<in> reserved p"
  by (auto simp: reserved_def)

lemma bytes_of_taken: "r \<in> reserved p \<Longrightarrow> bytes_of r \<subseteq> taken p"
  by (auto simp: taken_def)

lemma aligned_size_ge: "unat sz \<le> aligned_size sz"
  by (simp add: aligned_size_def)

text \<open>The range below the last address keeps every sum of the search in 32 bits.\<close>

definition bounded_memory :: "PayloadParams \<Rightarrow> bool" where
  "bounded_memory p \<longleftrightarrow> mr_end (pp_memory p) \<noteq> 0xFFFFFFFF"

lemma saturating_add_le_bound:
  assumes "saturating_add a s \<le> e" and "e \<noteq> 0xFFFFFFFF"
  shows "unat a + unat s \<le> unat e"
proof -
  have "unat e \<noteq> 4294967295" using assms(2) unat_u32_eq_max [of e] by simp
  then have "unat e < 4294967295" using unat_u32_lt [of e] by linarith
  then show ?thesis
    using assms(1) by (simp add: word_le_nat_alt word_nat min_def split: if_splits)
qed

lemma scan_blacklist_Clear:
  "scan_blacklist addr sz bs = Clear \<longleftrightarrow> (\<forall>b \<in> set bs. \<not> in_the_way addr sz b)"
  by (induction bs) (auto split: option.splits)

lemma find_loop_cases:
  assumes "find_loop mend sz bs addr = Some r"
  obtains "saturating_add addr sz \<le> mend" and "scan_blacklist addr sz bs = Clear" and "r = (addr, addr + sz)"
  | a where "saturating_add addr sz \<le> mend" and "scan_blacklist addr sz bs = Moved a"
    and "find_loop mend sz bs a = Some r"
  using assms by (subst (asm) find_loop.simps) (auto split: if_splits scan.splits)

lemma find_loop_sound:
  "find_loop mend sz bs addr = Some (a, b) \<Longrightarrow> mend \<noteq> 0xFFFFFFFF \<Longrightarrow>
   unat addr \<le> unat a \<and> unat b = unat a + unat sz \<and> unat b \<le> unat mend \<and>
   (\<forall>blk \<in> set bs. \<not> in_the_way a sz blk)"
proof (induction mend sz bs addr rule: find_loop.induct)
  case (1 mend sz bs addr)
  from "1.prems"(1) show ?case
  proof (cases rule: find_loop_cases)
    case 1
    from saturating_add_le_bound [OF 1(1) "1.prems"(2)] have "unat addr + unat sz \<le> unat mend" .
    moreover from this have "unat (addr + sz) = unat addr + unat sz"
      using unat_u32_lt [of mend] by (intro unat_u32_add_nowrap) linarith
    ultimately show ?thesis
      using 1 by (auto simp: scan_blacklist_Clear)
  next
    case (2 a')
    with "1.IH" [OF 2(1,2,3) "1.prems"(2)] show ?thesis
      using scan_blacklist_Moved_less [OF 2(2)] by auto
  qed
qed


lemma in_the_way_overlap:
  assumes "bl_mode b \<noteq> ModeNone" and "unat a + unat sz < 2 ^ 32"
    and "x \<in> bytes_of (a, a + sz)" and "x \<in> bytes_of (mr_start (bl_range b), mr_end (bl_range b))"
  shows "in_the_way a sz b"
  using assms by (auto simp: in_the_way_def bytes_of_def word_less_nat_alt unat_u32_add_nowrap)

text \<open>The size the search uses is the requested one rounded up to a multiple of eight.\<close>

lemma find_unused_range_cases:
  assumes "find_unused_range p sz = Some r"
  obtains s where "unat s = aligned_size sz"
    and "find_loop (mr_end (pp_memory p)) s (pp_blacklist p) (mr_start (pp_memory p)) = Some r"
proof -
  from assms obtain e where e: "checked_add sz 7 = Some e"
    and r: "find_loop (mr_end (pp_memory p)) (e AND NOT 7) (pp_blacklist p) (mr_start (pp_memory p)) = Some r"
    by (auto simp: find_unused_range_def split: option.splits)
  from unat_align_up_8 [OF e] have "unat (e AND NOT 7) = aligned_size sz"
    by (simp only: aligned_size_def)
  then show thesis using r by (rule that)
qed

lemma find_unused_range_sound:
  assumes "bounded_memory p" and "find_unused_range p sz = Some (a, b)"
  shows "unat b = unat a + aligned_size sz"
    and "unat (mr_start (pp_memory p)) \<le> unat a" and "unat b \<le> unat (mr_end (pp_memory p))"
    and "bytes_of (a, b) \<inter> taken p = {}"
proof -
  from assms(2) obtain s where s: "unat s = aligned_size sz"
    and f: "find_loop (mr_end (pp_memory p)) s (pp_blacklist p) (mr_start (pp_memory p)) = Some (a, b)"
    by (rule find_unused_range_cases)
  note sound = find_loop_sound [OF f assms(1) [unfolded bounded_memory_def]]
  from sound s show ub: "unat b = unat a + aligned_size sz"
    and "unat (mr_start (pp_memory p)) \<le> unat a" and "unat b \<le> unat (mr_end (pp_memory p))"
    by auto
  have nowrap: "unat a + unat s < 2 ^ 32" using ub s unat_u32_lt [of b] by simp
  then have "b = a + s" using ub s by (simp add: word_unat_eq_iff unat_u32_add_nowrap)
  then show "bytes_of (a, b) \<inter> taken p = {}"
    using sound in_the_way_overlap [OF _ nowrap] by (fastforce simp: taken_def reserved_def)
qed


subsection \<open>The search takes the first range that fits\<close>

definition fits :: "u32 \<Rightarrow> u32 \<Rightarrow> BlacklistRange list \<Rightarrow> u32 \<Rightarrow> bool" where
  "fits mend sz bs c \<longleftrightarrow>
     unat c + unat sz \<le> unat mend \<and> (\<forall>b \<in> set bs. \<not> in_the_way c sz b)"

text \<open>A block in the way of an address also bars every later candidate up to its own end.\<close>

lemma fits_behind_block:
  assumes c: "fits mend sz bs c" and b: "b \<in> set bs" and w: "in_the_way addr sz b"
    and le: "unat addr \<le> unat c"
  shows "unat (mr_end (bl_range b)) \<le> unat c" and "addr \<noteq> c"
proof -
  have "unat c + unat sz < 4294967296" and "\<not> in_the_way c sz b"
    using c b by (auto simp: fits_def dest: le_unat_u32_lt)
  moreover from this le have "unat addr + unat sz < 4294967296" by linarith
  ultimately show "unat (mr_end (bl_range b)) \<le> unat c"
    using w le by (auto simp: in_the_way_def word_less_nat_alt unat_u32_add_nowrap)
  show "addr \<noteq> c" using w \<open>\<not> in_the_way c sz b\<close> by blast
qed

lemma scan_blacklist_in_the_way:
  assumes "scan_blacklist addr sz bs \<noteq> Clear"
  obtains b where "b \<in> set bs" and "in_the_way addr sz b"
    and "scan_blacklist addr sz bs =
          (case checked_add (mr_end (bl_range b)) 7 of None \<Rightarrow> Overflow | Some e \<Rightarrow> Moved (e AND NOT 7))"
  using assms by (induction bs) (auto split: if_splits)

lemma multiple_of_8_round_up:
  fixes c e :: nat
  assumes "8 dvd c" and "e \<le> c"
  shows "(e + 7) div 8 * 8 \<le> c"
  using assms by (auto elim!: dvdE)

lemma find_loop_first_fit:
  "fits mend sz bs c \<Longrightarrow> unat addr \<le> unat c \<Longrightarrow> c = addr \<or> 8 dvd unat c \<Longrightarrow>
   \<exists>a b. find_loop mend sz bs addr = Some (a, b) \<and> unat a \<le> unat c"
proof (induction mend sz bs addr rule: find_loop.induct)
  case (1 mend sz bs addr)
  have guard: "saturating_add addr sz \<le> mend"
    using "1.prems"(1,2) by (auto simp: fits_def word_le_nat_alt word_nat min_def)
  show ?case
  proof (cases "scan_blacklist addr sz bs = Clear")
    case True
    with guard "1.prems"(2) show ?thesis by (simp add: find_loop.simps)
  next
    case False
    then obtain b where b: "b \<in> set bs" "in_the_way addr sz b"
      and s: "scan_blacklist addr sz bs =
          (case checked_add (mr_end (bl_range b)) 7 of None \<Rightarrow> Overflow | Some e \<Rightarrow> Moved (e AND NOT 7))"
      by (rule scan_blacklist_in_the_way)
    note behind = fits_behind_block [OF "1.prems"(1) b "1.prems"(2)]
    from behind(2) "1.prems"(3) have dvd: "8 dvd unat c" by auto
    note up = multiple_of_8_round_up [OF dvd behind(1)]
    from dvd obtain k where k: "unat c = 8 * k" by (rule dvdE)
    have "8 * k < 4294967296" unfolding k [symmetric] by simp
    with behind(1) k have "unat (mr_end (bl_range b)) + 7 < 2 ^ 32" by simp
    then obtain e where e: "checked_add (mr_end (bl_range b)) 7 = Some e"
      by (auto simp: checked_add_def)
    with s have m: "scan_blacklist addr sz bs = Moved (e AND NOT 7)" by simp
    have "unat (e AND NOT 7) \<le> unat c" using up unat_align_up_8 [OF e] by simp
    from "1.IH" [OF guard m "1.prems"(1) this] dvd guard m show ?thesis
      by (simp add: find_loop.simps [of mend sz bs addr])
  qed
qed


text \<open>
  The same on the abstract view: blocks with at least one byte, a request of at least one byte,
  and a candidate that overlaps no taken byte.
\<close>

lemma not_in_the_way_disjoint:
  assumes "mr_start (bl_range b) < mr_end (bl_range b)" and "0 < unat sz"
    and "unat a + unat sz < 2 ^ 32"
    and "bytes_of (mr_start (bl_range b), mr_end (bl_range b)) \<inter> {unat a..<unat a + unat sz} = {}"
  shows "\<not> in_the_way a sz b"
proof
  assume "in_the_way a sz b"
  then have o: "unat a < unat (mr_end (bl_range b))" "unat (mr_start (bl_range b)) < unat a + unat sz"
    using assms(3) by (auto simp: in_the_way_def word_less_nat_alt unat_u32_add_nowrap)
  define x where "x = max (unat a) (unat (mr_start (bl_range b)))"
  have "x \<in> bytes_of (mr_start (bl_range b), mr_end (bl_range b)) \<inter> {unat a..<unat a + unat sz}"
    using o assms(1,2) by (auto simp: x_def bytes_of_def word_less_nat_alt)
  with assms(4) show False by blast
qed

lemma find_unused_range_first_fit:
  assumes "\<And>r. r \<in> reserved p \<Longrightarrow> fst r < snd r" and "0 < unat sz" and "unat sz + 7 < 2 ^ 32"
    and "c = mr_start (pp_memory p) \<or> 8 dvd unat c" and "unat (mr_start (pp_memory p)) \<le> unat c"
    and "unat c + aligned_size sz \<le> unat (mr_end (pp_memory p))"
    and "{unat c..<unat c + aligned_size sz} \<inter> taken p = {}"
  shows "\<exists>a b. find_unused_range p sz = Some (a, b) \<and> unat a \<le> unat c"
proof -
  from assms(3) obtain e where e: "checked_add sz 7 = Some e" by (auto simp: checked_add_def)
  define s where "s = e AND NOT 7"
  have s: "unat s = aligned_size sz"
    using unat_align_up_8 [OF e] by (simp only: s_def aligned_size_def)
  have "unat c + unat s < 2 ^ 32" using assms(6) s by (auto dest: le_unat_u32_lt)
  moreover have "0 < unat s" using assms(2) s aligned_size_ge [of sz] by simp
  ultimately have "\<not> in_the_way c s b" if "b \<in> set (pp_blacklist p)" for b
  proof (cases "bl_mode b = ModeNone")
    case False
    with that have r: "(mr_start (bl_range b), mr_end (bl_range b)) \<in> reserved p" by (rule reservedI)
    from bytes_of_taken [OF this] assms(7)
    have "bytes_of (mr_start (bl_range b), mr_end (bl_range b)) \<inter> {unat c..<unat c + unat s} = {}"
      unfolding s by blast
    with assms(1) [OF r] \<open>unat c + unat s < 2 ^ 32\<close> \<open>0 < unat s\<close> show ?thesis
      by (intro not_in_the_way_disjoint) simp_all
  qed (simp add: in_the_way_def)
  then have "fits (mr_end (pp_memory p)) s (pp_blacklist p) c"
    using assms(6) s by (auto simp: fits_def)
  from find_loop_first_fit [OF this assms(5,4)] e show ?thesis
    by (simp add: find_unused_range_def s_def)
qed


section \<open>What blacklisting does\<close>

lemma first_free_Some:
  "first_free bs = Some i \<Longrightarrow>
   i < length bs \<and> bl_mode (bs ! i) = ModeNone \<and> (\<forall>j < i. bl_mode (bs ! j) \<noteq> ModeNone)"
proof (induction bs arbitrary: i)
  case (Cons b bs)
  then show ?case by (cases i) (auto split: if_splits simp: less_Suc_eq_0_disj)
qed simp

lemma first_free_None: "first_free bs = None \<longleftrightarrow> (\<forall>b \<in> set bs. bl_mode b \<noteq> ModeNone)"
  by (induction bs) auto

lemma blacklist_with_cases:
  assumes "blacklist_with mode p r = Inr q"
  obtains i where "i < length (pp_blacklist p)" and "bl_mode (pp_blacklist p ! i) = ModeNone"
    and "q = p\<lparr>pp_blacklist := (pp_blacklist p)
            [i := \<lparr>bl_range = memory_range_new (fst r) (snd r), bl_mode = mode\<rparr>]\<rparr>"
  using assms first_free_Some
  by (auto simp: blacklist_with_def find_free_range_def split: option.splits)

lemma blacklist_with_frame:
  assumes "blacklist_with mode p r = Inr q"
  shows "pp_memory q = pp_memory p" and "length (pp_blacklist q) = length (pp_blacklist p)"
    and "pp_magic q = pp_magic p" and "pp_version q = pp_version p"
    and "pp_ptr_dl q = pp_ptr_dl p" and "pp_ptr_ul q = pp_ptr_ul p" and "pp_soc q = pp_soc p"
  using assms by (auto elim!: blacklist_with_cases)

lemma set_update_free_slot:
  "i < length bs \<Longrightarrow> \<not> P (bs ! i) \<Longrightarrow> P x \<Longrightarrow>
   {b \<in> set (bs[i := x]). P b} = insert x {b \<in> set bs. P b}"
  by (auto simp: in_set_conv_nth nth_list_update split: if_splits)

lemma reserved_blacklist_with:
  assumes "blacklist_with mode p r = Inr q" and "mode \<noteq> ModeNone"
  shows "reserved q = insert r (reserved p)"
  using assms(1)
proof (rule blacklist_with_cases)
  fix i
  let ?x = "\<lparr>bl_range = memory_range_new (fst r) (snd r), bl_mode = mode\<rparr>"
  assume i: "i < length (pp_blacklist p)" "bl_mode (pp_blacklist p ! i) = ModeNone"
    and q: "q = p\<lparr>pp_blacklist := (pp_blacklist p)[i := ?x]\<rparr>"
  have "{b \<in> set ((pp_blacklist p)[i := ?x]). bl_mode b \<noteq> ModeNone} =
        insert ?x {b \<in> set (pp_blacklist p). bl_mode b \<noteq> ModeNone}"
    using i assms(2) by (intro set_update_free_slot) auto
  with q show ?thesis by (simp add: reserved_def memory_range_new_def)
qed

lemma taken_blacklist_with:
  assumes "blacklist_with mode p r = Inr q" and "mode \<noteq> ModeNone"
  shows "taken q = bytes_of r \<union> taken p"
  by (simp add: taken_def reserved_blacklist_with [OF assms])

text \<open>A slot is used up by every success, and failure means that none was left.\<close>

definition free_slots :: "PayloadParams \<Rightarrow> nat" where
  "free_slots p = length (filter (\<lambda>b. bl_mode b = ModeNone) (pp_blacklist p))"

lemma filter_update_dropped:
  "i < length bs \<Longrightarrow> P (bs ! i) \<Longrightarrow> \<not> P x \<Longrightarrow>
   length (filter P bs) = Suc (length (filter P (bs[i := x])))"
proof (induction bs arbitrary: i)
  case (Cons b bs)
  then show ?case by (cases i) auto
qed simp

lemma free_slots_blacklist_with:
  assumes "mode \<noteq> ModeNone"
  shows "case blacklist_with mode p r of
           Inl e \<Rightarrow> e = BlacklistExhausted \<and> free_slots p = 0
         | Inr q \<Rightarrow> free_slots p = Suc (free_slots q)"
proof (cases "blacklist_with mode p r")
  case (Inl e)
  then show ?thesis
    by (auto simp: blacklist_with_def find_free_range_def first_free_None free_slots_def
             split: option.splits)
next
  case (Inr q)
  then show ?thesis using assms
    by (auto elim!: blacklist_with_cases intro!: filter_update_dropped simp: free_slots_def)
qed


section \<open>The block provides the reservation interface\<close>

lemma bounded_memory_blacklist_with:
  "bounded_memory p \<Longrightarrow> blacklist_with mode p r = Inr q \<Longrightarrow> bounded_memory q"
  by (simp add: bounded_memory_def blacklist_with_frame)

interpretation dl: range_reservation find_unused_range blacklist_dl taken bounded_memory
proof
  fix p n r
  assume inv: "bounded_memory p" and f: "find_unused_range p n = Some r"
  then have f': "find_unused_range p n = Some (fst r, snd r)" by simp
  from find_unused_range_sound(4) [OF inv f'] show "bytes_of r \<inter> taken p = {}" by simp
  from find_unused_range_sound(1) [OF inv f'] show "unat (fst r) + unat n \<le> unat (snd r)"
    using aligned_size_ge [of n] by simp
qed (auto simp: blacklist_dl_def taken_blacklist_with bounded_memory_blacklist_with)


lemmas params_eval = params_new_def find_unused_range_def find_loop.simps checked_add_def
  saturating_add_def memory_range_new_def memory_range_default_def blacklist_range_default_def
  in_the_way_def replicate_numeral_unfold blacklist_dl_def blacklist_reloc_def blacklist_with_def
  find_free_range_def

section \<open>Properties\<close>

text \<open>A block with half a gigabyte of memory whose first page is taken, for the witnesses.\<close>

definition sample_params :: PayloadParams where
  "sample_params =
     (params_new (0x80000000, 0xA0000000) 0x40B9C5 0x40BA4B MT6572)\<lparr>pp_blacklist :=
        (replicate 12 blacklist_range_default)
          [0 := \<lparr>bl_range = memory_range_new 0x80000000 0x80001001, bl_mode = ForbiddenDL\<rparr>]\<rparr>"

lemma find_sample: "find_unused_range sample_params 0x1000 = Some (0x80001008, 0x80002008)"
  by (simp add: sample_params_def params_eval)

lemma bounded_sample: "bounded_memory sample_params"
  by (simp add: sample_params_def bounded_memory_def params_eval)

lemma reserved_sample: "reserved sample_params = {(0x80000000, 0x80001001)}"
  by (auto simp: reserved_def sample_params_def params_eval)

text \<open>C6: A range that \<open>find_unused_range\<close> returns lies in the device memory, holds the requested
  size rounded up to eight bytes, and shares no byte with any blacklisted range, as long as the
  memory does not end at the very last address.\<close>

theorem found_range_is_unused:
  assumes "mr_end (pp_memory p) \<noteq> 0xFFFFFFFF" and "find_unused_range p sz = Some (a, b)"
  shows "unat (mr_start (pp_memory p)) \<le> unat a \<and> unat b \<le> unat (mr_end (pp_memory p)) \<and>
         unat b = unat a + (unat sz + 7) div 8 * 8 \<and>
         (\<forall>r \<in> reserved p. bytes_of (a, b) \<inter> bytes_of r = {})"
  using find_unused_range_sound [OF assms(1) [folded bounded_memory_def] assms(2)] bytes_of_taken
  by (fastforce simp: aligned_size_def)

theorem found_range_is_unused_witness:
  "find_unused_range sample_params 0x1000 = Some (0x80001008, 0x80002008) \<and>
   bytes_of (0x80001008, 0x80002008) \<inter> bytes_of (0x80000000, 0x80001001) = {}"
  using found_range_is_unused [OF bounded_sample [unfolded bounded_memory_def] find_sample] find_sample
  by (simp add: reserved_sample)

text \<open>C9: The search misses nothing. If some address that is the start of memory or a multiple of
  eight heads a large enough run of bytes no blacklisted range touches, then
  \<open>find_unused_range\<close> succeeds, and at or below that address.\<close>

theorem first_unused_range_is_found:
  assumes "\<forall>r \<in> reserved p. fst r < snd r" and "0 < unat sz" and "unat sz + 7 < 2 ^ 32"
    and "c = mr_start (pp_memory p) \<or> 8 dvd unat c" and "unat (mr_start (pp_memory p)) \<le> unat c"
    and "unat c + (unat sz + 7) div 8 * 8 \<le> unat (mr_end (pp_memory p))"
    and "\<forall>r \<in> reserved p. {unat c..<unat c + (unat sz + 7) div 8 * 8} \<inter> bytes_of r = {}"
  shows "\<exists>a b. find_unused_range p sz = Some (a, b) \<and> unat a \<le> unat c"
proof (rule find_unused_range_first_fit)
  show "{unat c..<unat c + aligned_size sz} \<inter> taken p = {}"
    using assms(7) by (auto simp: taken_def aligned_size_def)
qed (use assms in \<open>auto simp: aligned_size_def\<close>)

theorem first_unused_range_is_found_witness:
  "\<exists>a b. find_unused_range sample_params 0x1000 = Some (a, b) \<and> unat a \<le> unat (0x90000000 :: u32)"
proof (rule first_unused_range_is_found)
  show "\<forall>r \<in> reserved sample_params. fst r < snd r"
    and "\<forall>r \<in> reserved sample_params.
      {unat (0x90000000 :: u32)..<unat (0x90000000 :: u32) + (unat (0x1000 :: u32) + 7) div 8 * 8} \<inter> bytes_of r = {}"
    by (simp_all add: reserved_sample bytes_of_def)
qed (simp_all add: sample_params_def params_eval)

text \<open>Blacklisting a download range either fails, and then all slots were in use, or adds
  exactly that range, uses up one slot and changes nothing else of the block.\<close>

theorem blacklist_dl_behaviour:
  "case blacklist_dl p r of
     Inl e \<Rightarrow> e = BlacklistExhausted \<and> free_slots p = 0
   | Inr q \<Rightarrow> reserved q = insert r (reserved p) \<and> free_slots p = Suc (free_slots q) \<and>
       q = p\<lparr>pp_blacklist := pp_blacklist q\<rparr> \<and> length (pp_blacklist q) = length (pp_blacklist p)"
proof (cases "blacklist_dl p r")
  case (Inl e)
  then show ?thesis
    using free_slots_blacklist_with [of ForbiddenDL p r] by (simp add: blacklist_dl_def)
next
  case (Inr q)
  then have b: "blacklist_with ForbiddenDL p r = Inr q" by (simp add: blacklist_dl_def)
  from b have "q = p\<lparr>pp_blacklist := pp_blacklist q\<rparr>" by (auto elim!: blacklist_with_cases)
  with Inr b free_slots_blacklist_with [of ForbiddenDL p r] show ?thesis
    by (simp add: reserved_blacklist_with blacklist_with_frame)
qed

text \<open>Ranges found and blacklisted one after the other (the payload's stack and heap, any number
  of them) are large enough, avoid every range blacklisted before, and never overlap each other.\<close>

theorem successive_claims_disjoint:
  assumes "mr_end (pp_memory p) \<noteq> 0xFFFFFFFF"
    and "claims find_unused_range blacklist_dl p ns = Some (rs, q)"
  shows "pairwise_disjoint rs \<and> (\<forall>r \<in> set rs. \<forall>b \<in> reserved p. bytes_of r \<inter> bytes_of b = {}) \<and>
         list_all2 (\<lambda>r n. unat (fst r) + unat n \<le> unat (snd r)) rs ns"
  using dl.claims_disjoint [OF assms(1) [folded bounded_memory_def] assms(2)] bytes_of_taken
  by blast

theorem successive_claims_disjoint_witness:
  "\<exists>q. claims find_unused_range blacklist_dl sample_params [0x1000, 0x100000] =
         Some ([(0x80001008, 0x80002008), (0x80002008, 0x80102008)], q) \<and>
       pairwise_disjoint [(0x80001008, 0x80002008), (0x80002008, 0x80102008)]"
proof -
  obtain q where q: "claims find_unused_range blacklist_dl sample_params [0x1000, 0x100000] =
         Some ([(0x80001008, 0x80002008), (0x80002008, 0x80102008)], q)"
    by (simp add: sample_params_def claim_def params_eval)
  then show ?thesis
    using successive_claims_disjoint [OF bounded_sample [unfolded bounded_memory_def] q] by blast
qed

text \<open>C34: With a memory that ends at the last address, the saturated bound admits ranges that run over
  the top. When the start of memory plus the rounded size passes \<open>2 ^ 32\<close>, and no blacklisted block begins below the
  wrapped end (or it ends before the memory), the search returns that wrapped range at once: its end lies
  below its start, and it covers every blacklisted block between the start of memory and the top.\<close>

theorem wrapped_range_at_top:
  assumes "mr_end (pp_memory ps) = 0xFFFFFFFF" and "unat sz + 7 < 2 ^ 32"
  defines "start \<equiv> mr_start (pp_memory ps)" and "n \<equiv> (sz + 7) AND NOT 7"
  assumes "2 ^ 32 \<le> unat start + unat n"
    and "\<forall>b \<in> set (pp_blacklist ps). bl_mode b \<noteq> ModeNone \<longrightarrow>
      mr_end (bl_range b) \<le> start \<or> unat start + unat n - 2 ^ 32 \<le> unat (mr_start (bl_range b))"
  shows "find_unused_range ps sz = Some (start, start + n) \<and> start + n < start \<and>
    (\<forall>b \<in> set (pp_blacklist ps). start \<le> mr_start (bl_range b) \<longrightarrow>
      bytes_of (mr_start (bl_range b), mr_end (bl_range b)) \<subseteq> {unat start..<unat start + unat n})"
proof -
  have "unat start + unat n < 8589934592" using unat_u32_lt [of start] unat_u32_lt [of n] by linarith
  then have wrap: "unat (start + n) = unat start + unat n - 2 ^ 32"
    using assms(5) by (simp add: unat_word_ariths le_mod_geq)
  then have "unat (start + n) = unat start + unat n - 4294967296" and "4294967296 \<le> unat start + unat n"
    using assms(5) by simp_all
  then have "unat (start + n) < unat start" using unat_u32_lt [of n] by arith
  then have below: "start + n < start" by (simp add: word_less_nat_alt)
  have "checked_add sz 7 = Some (sz + 7)" using assms(2) by (simp add: checked_add_def)
  moreover have "scan_blacklist start n (pp_blacklist ps) = Clear"
    unfolding scan_blacklist_Clear in_the_way_def using assms(6) wrap
    by (metis not_less word_less_nat_alt)
  moreover have "saturating_add start n \<le> 0xFFFFFFFF"
    using unat_u32_lt [of "saturating_add start n"] by (simp add: word_le_nat_alt del: unat_u32_lt)
  ultimately have "find_loop 0xFFFFFFFF n (pp_blacklist ps) start = Some (start, start + n)"
    and c: "checked_add sz 7 = Some (sz + 7)"
    by (simp_all add: find_loop.simps [of _ n])
  then have "find_unused_range ps sz = Some (start, start + n)"
    unfolding start_def n_def by (simp add: find_unused_range_def assms(1))
  moreover have "bytes_of (mr_start r, mr_end r) \<subseteq> {unat start..<unat start + unat n}" if "start \<le> mr_start r" for r
  proof -
    have "unat (mr_end r) \<le> unat start + unat n"
      using assms(5) less_le_trans [OF unat_u32_lt [of "mr_end r"], of "unat start + unat n"] by simp
    with that show ?thesis by (auto simp: bytes_of_def word_le_nat_alt)
  qed
  ultimately show ?thesis using below by blast
qed

text \<open>A reserved block of 64 bytes in the last page is handed out again.\<close>

lemma wrapped_range_at_top_witness:
  "\<exists>ps. blacklist_dl (params_new (0xFFFFF000, 0xFFFFFFFF) 1 1 MT6572) (0xFFFFFF80, 0xFFFFFFC0) = Inr ps \<and>
     find_unused_range ps 0x2000 = Some (0xFFFFF000, 0x1000)"
proof -
  obtain ps where ps: "blacklist_dl (params_new (0xFFFFF000, 0xFFFFFFFF) 1 1 MT6572) (0xFFFFFF80, 0xFFFFFFC0) = Inr ps"
    "pp_memory ps = memory_range_new 0xFFFFF000 0xFFFFFFFF"
    "set (pp_blacklist ps) = {\<lparr>bl_range = memory_range_new 0xFFFFFF80 0xFFFFFFC0, bl_mode = ForbiddenDL\<rparr>, blacklist_range_default}"
    by (simp add: params_eval memory_range_new_def)
  have "find_unused_range ps 0x2000 = Some (0xFFFFF000, 0x1000)"
    using wrapped_range_at_top [of ps "0x2000"] by (simp add: ps memory_range_new_def blacklist_range_default_def)
  with ps(1) show ?thesis by blast
qed

end
