(* ===== verification/Thumb2.thy ===== *)
theory Thumb2
  imports Memory
begin

text \<open>
  The Thumb-2 reader and writer of the interceptor, \<open>payloads/interceptor/src/thumb2reader.rs\<close>
  and \<open>thumb2writer.rs\<close>. The reader is a pointer into memory, the writer a pointer and the memory
  it writes. The lemmas relate every writer operation to appending halfwords to a list, and show
  that the two moves the writer emits for a literal load that literal.
\<close>

section \<open>Reader\<close>

type_synonym reader = u32

definition poke16 :: "mem \<Rightarrow> reader \<Rightarrow> u16" where
  "poke16 m ptr = read16 m ptr"

definition skip :: "reader \<Rightarrow> u32 \<Rightarrow> reader" where
  "skip ptr v = ptr + 2 * v"

definition reader_read16 :: "mem \<Rightarrow> reader \<Rightarrow> u16 \<times> reader" where
  "reader_read16 m ptr = (poke16 m ptr, skip ptr 1)"

definition is_32bit :: "mem \<Rightarrow> reader \<Rightarrow> bool" where
  "is_32bit m ptr = (let v = drop_bit 11 (read16 m ptr) in v = 0x1D \<or> v = 0x1E \<or> v = 0x1F)"

definition is_ldr :: "mem \<Rightarrow> reader \<Rightarrow> bool" where
  "is_ldr m ptr \<longleftrightarrow> poke16 m ptr AND 0xF800 = 0x4800"

record RegAndImm =
  ri_r :: u8
  ri_imm :: u32

definition read_ldr :: "mem \<Rightarrow> reader \<Rightarrow> RegAndImm \<times> reader" where
  "read_ldr m ptr =
     (let (v, ptr) = reader_read16 m ptr
      in (\<lparr>ri_r = ucast (drop_bit 8 v AND 7), ri_imm = push_bit 2 (ucast (v AND 0xFF))\<rparr>, ptr))"

definition is_ldr_w :: "mem \<Rightarrow> reader \<Rightarrow> bool" where
  "is_ldr_w m ptr \<longleftrightarrow> poke16 m ptr AND 0xFF7F = 0xF85F"

record LdrW =
  lw_r :: u8
  lw_imm :: u32
  lw_add :: bool

definition read_ldr_w :: "mem \<Rightarrow> reader \<Rightarrow> LdrW \<times> reader" where
  "read_ldr_w m ptr =
     (let (hw1, ptr) = reader_read16 m ptr; (hw2, ptr) = reader_read16 m ptr
      in (\<lparr>lw_r = ucast (drop_bit 12 hw2 AND 0xF), lw_imm = ucast (hw2 AND 0xFFF),
           lw_add = (hw1 AND 0x80 \<noteq> 0)\<rparr>, ptr))"

section \<open>Writer\<close>

type_synonym writer = "mem \<times> u32"

definition is_aligned32 :: "writer \<Rightarrow> bool" where
  "is_aligned32 w \<longleftrightarrow> snd w mod 4 = 0"

definition writer_write16 :: "u16 \<Rightarrow> writer \<Rightarrow> writer" where
  "writer_write16 v w = (write16 (fst w) (snd w) v, snd w + 2)"

definition writer_copy :: "u32 \<Rightarrow> nat \<Rightarrow> writer \<Rightarrow> writer" where
  "writer_copy src n w = (copy_nonoverlapping (fst w) src (snd w) n, snd w + 2 * word_of_nat (n div 2))"

definition nop :: "writer \<Rightarrow> writer" where
  "nop w = writer_write16 0xbf00 w"

definition write32 :: "u32 \<Rightarrow> writer \<Rightarrow> writer" where
  "write32 v w =
     (let w = (if is_aligned32 w then w else nop w)
      in (write32_unchecked (fst w) (snd w) v, snd w + 4))"

definition movtw :: "bool \<Rightarrow> u8 \<Rightarrow> u16 \<Rightarrow> u32" where
  "movtw is_movt r imm =
     (let r = ucast r :: u32; imm = ucast imm :: u32;
          imm4 = drop_bit 12 imm AND 0xF;
          i = drop_bit 11 imm AND 1;
          imm3 = drop_bit 8 imm AND 0x7;
          imm8 = imm AND 0xFF;
          hw1 = (if is_movt then 0xF2C0 else 0xF240) OR push_bit 10 i OR imm4;
          hw2 = push_bit 12 imm3 OR push_bit 8 r OR imm8
      in push_bit 16 hw2 OR hw1)"

definition jumpout :: "u32 \<Rightarrow> writer \<Rightarrow> writer" where
  "jumpout addr w = write32 addr (write32 0xf000f8df w)"

definition movt :: "u8 \<Rightarrow> u16 \<Rightarrow> writer \<Rightarrow> writer" where
  "movt r imm w = write32 (movtw True r imm) w"

definition movw :: "u8 \<Rightarrow> u16 \<Rightarrow> writer \<Rightarrow> writer" where
  "movw r imm w = write32 (movtw False r imm) w"

section \<open>The emitted moves load the literal\<close>

text \<open>
  The two encodings of the ARM architecture the writer emits, MOVW (immediate, T3) and MOVT (T1):
  halfwords \<open>11110 i 10 x100 imm4\<close> and \<open>0 imm3 Rd imm8\<close>.
\<close>

datatype move = MOVW u8 u16 | MOVT u8 u16

definition decode_move :: "u16 \<Rightarrow> u16 \<Rightarrow> move option" where
  "decode_move hw1 hw2 =
     (let rd = ucast (drop_bit 8 hw2 AND 0xF);
          imm16 = push_bit 12 (hw1 AND 0xF) OR push_bit 11 (drop_bit 10 hw1 AND 1) OR
                  push_bit 8 (drop_bit 12 hw2 AND 7) OR (hw2 AND 0xFF)
      in if bit hw2 15 then None
         else if hw1 AND 0xFBF0 = 0xF240 then Some (MOVW rd imm16)
         else if hw1 AND 0xFBF0 = 0xF2C0 then Some (MOVT rd imm16)
         else None)"

fun exec_move :: "move \<Rightarrow> (u8 \<Rightarrow> u32) \<Rightarrow> (u8 \<Rightarrow> u32)" where
  "exec_move (MOVW r imm) regs = regs(r := ucast imm)"
| "exec_move (MOVT r imm) regs = regs(r := (regs r AND 0xFFFF) OR push_bit 16 (ucast imm))"

definition lo16 :: "u32 \<Rightarrow> u16" where "lo16 v = ucast v"
definition hi16 :: "u32 \<Rightarrow> u16" where "hi16 v = ucast (drop_bit 16 v)"

lemma mask_literals:
  "(0xF :: 'a::len word) = mask 4" "(7 :: 'a::len word) = mask 3" "(0xFF :: 'a::len word) = mask 8"
  "(1 :: 'a::len word) = mask 1" "(0xFFFF :: 'a::len word) = mask 16"
  by (simp_all add: mask_eq_exp_minus_1)

lemma movtw_lo: "lo16 (movtw b r imm) = (if b then 0xF2C0 else 0xF240) OR
   push_bit 10 (drop_bit 11 imm AND 1) OR (drop_bit 12 imm AND 0xF)"
  unfolding mask_literals movtw_def lo16_def Let_def
  by (rule bit_word_eqI) (auto simp: bit_simps)

lemma hi16_halves:
  assumes "drop_bit 16 y = 0"
  shows "hi16 (push_bit 16 x OR y) = lo16 x"
proof -
  have "drop_bit 16 (push_bit 16 x OR y) = drop_bit 16 (push_bit 16 x)"
    using assms by (simp add: drop_bit_or)
  moreover have "ucast (drop_bit 16 (push_bit 16 x)) = (ucast x :: u16)"
    by (rule bit_word_eqI) (auto simp: bit_simps)
  ultimately show ?thesis by (simp add: hi16_def lo16_def)
qed

lemma movtw_hi: "hi16 (movtw b r imm) =
   push_bit 12 (drop_bit 8 imm AND 7) OR push_bit 8 (ucast r) OR (imm AND 0xFF)"
proof -
  have "drop_bit 16 (push_bit 10 (drop_bit 11 (ucast imm :: u32) AND mask 1)) = 0"
    by (rule bit_word_eqI) (auto simp: bit_simps)
  moreover have "drop_bit 16 (drop_bit 12 (ucast imm :: u32) AND mask 4) = 0"
    by (rule bit_word_eqI) (auto simp: bit_simps)
  ultimately have "drop_bit 16 ((if b then 0xF2C0 else 0xF240) OR
      push_bit 10 (drop_bit 11 (ucast imm :: u32) AND 1) OR (drop_bit 12 (ucast imm) AND 0xF)) = 0"
    unfolding mask_literals drop_bit_or by simp
  note hi16_halves [OF this]
  moreover have "lo16 (push_bit 12 (drop_bit 8 (ucast imm) AND 7) OR push_bit 8 (ucast r) OR (ucast imm AND 0xFF)) =
     push_bit 12 (drop_bit 8 imm AND 7) OR push_bit 8 (ucast r) OR (imm AND 0xFF)"
    unfolding mask_literals lo16_def by (rule bit_word_eqI) (auto simp: bit_simps)
  ultimately show ?thesis unfolding movtw_def Let_def by (rule trans)
qed

lemma move_opcode:
  fixes c x y :: u16
  shows "(c OR push_bit 10 (x AND 1) OR (y AND 0xF)) AND 0xFBF0 = c AND 0xFBF0"
proof -
  have m: "(0xFBF0 :: u16) = NOT (push_bit 10 (mask 1) OR mask 4)" by (simp add: mask_eq_exp_minus_1)
  show ?thesis unfolding m mask_literals
    by (rule bit_word_eqI) (auto simp: bit_simps)
qed

lemma not_bit_of_and_mask: "x AND mask k = (0 :: 'a::len word) \<Longrightarrow> n < k \<Longrightarrow> \<not> bit x n"
  by (drule arg_cong [where f = "\<lambda>y. bit y n"]) (auto simp: bit_simps dest: bit_imp_le_length)

lemma move_immediate:
  fixes imm c :: u16 and r :: u8
  assumes "c AND mask 4 = 0" and "\<not> bit c 10" and "r AND mask 4 = r"
  defines "hw1 \<equiv> c OR push_bit 10 (drop_bit 11 imm AND 1) OR (drop_bit 12 imm AND 0xF)"
    and "hw2 \<equiv> push_bit 12 (drop_bit 8 imm AND 7) OR push_bit 8 (ucast r) OR (imm AND 0xFF)"
  shows "push_bit 12 (hw1 AND 0xF) OR push_bit 11 (drop_bit 10 hw1 AND 1) OR
    push_bit 8 (drop_bit 12 hw2 AND 7) OR (hw2 AND 0xFF) = imm"
    and "ucast (drop_bit 8 hw2 AND 0xF) = r" and "\<not> bit hw2 15"
proof -
  note c = not_bit_of_and_mask [OF assms(1)]
  from assms(3) have r: "bit r n \<Longrightarrow> n < 4" for n
    by (metis bit_and_iff bit_mask_iff)
  show "push_bit 12 (hw1 AND 0xF) OR push_bit 11 (drop_bit 10 hw1 AND 1) OR
    push_bit 8 (drop_bit 12 hw2 AND 7) OR (hw2 AND 0xFF) = imm"
  proof (rule bit_word_eqI)
    fix n assume "n < LENGTH(16)"
    then consider "n < 8" | "8 \<le> n" "n < 11" | "n = 11" | "n = 12" | "n = 13" | "n = 14" | "n = 15" by fastforce
    then show "bit (push_bit 12 (hw1 AND 0xF) OR push_bit 11 (drop_bit 10 hw1 AND 1) OR
      push_bit 8 (drop_bit 12 hw2 AND 7) OR (hw2 AND 0xFF)) n = bit imm n"
      unfolding hw1_def hw2_def mask_literals
      by cases (auto simp: bit_simps c assms(2) dest: r)
  qed
  show "ucast (drop_bit 8 hw2 AND 0xF) = r"
    unfolding hw2_def mask_literals
    by (rule bit_word_eqI) (auto simp: bit_simps dest: r)
  show "\<not> bit hw2 15"
    unfolding hw2_def mask_literals by (auto simp: bit_simps dest: r)
qed

lemma decode_movtw:
  assumes "r < 16"
  shows "decode_move (lo16 (movtw b r imm)) (hi16 (movtw b r imm)) = Some (if b then MOVT r imm else MOVW r imm)"
proof -
  have r: "r AND mask 4 = r"
    using assms by (simp add: word_unat_eq_iff unsigned_take_bit_eq take_bit_eq_mod word_less_nat_alt
      unat_mod flip: take_bit_eq_mask)
  define c :: u16 where "c = (if b then 0xF2C0 else 0xF240)"
  have c: "c AND mask 4 = 0" "\<not> bit c 10" by (simp_all add: c_def mask_eq_exp_minus_1)
  show ?thesis
    unfolding movtw_lo movtw_hi c_def [symmetric] decode_move_def Let_def move_opcode
    using move_immediate [OF c r, of imm] by (simp add: c_def)
qed

section \<open>The writer appends halfwords\<close>

definition code_bytes :: "u16 list \<Rightarrow> u8 list" where
  "code_bytes hs = concat (map le16 hs)"

text \<open>\<open>w\<close> is a writer that started at \<open>code\<close> in memory \<open>m\<close> and has emitted the halfwords \<open>hs\<close>.\<close>

definition written :: "mem \<Rightarrow> u32 \<Rightarrow> u16 list \<Rightarrow> writer \<Rightarrow> bool" where
  "written m code hs w \<longleftrightarrow>
     w = (store_bytes m code (code_bytes hs), code + word_of_nat (2 * length hs))"

definition pad :: "u32 \<Rightarrow> u16 list \<Rightarrow> u16 list" where
  "pad code hs = (if (code + word_of_nat (2 * length hs)) mod 4 = 0 then [] else [0xbf00])"

definition word_halves :: "u32 \<Rightarrow> u16 list" where
  "word_halves v = [lo16 v, hi16 v]"

definition literal_moves :: "u8 \<Rightarrow> u32 \<Rightarrow> u16 list" where
  "literal_moves r v = word_halves (movtw False r (lo16 v)) @ word_halves (movtw True r (hi16 v))"

lemma code_bytes_simps [simp]:
  "code_bytes [] = []" "code_bytes (h # hs) = le16 h @ code_bytes hs"
  "code_bytes (hs @ ks) = code_bytes hs @ code_bytes ks"
  "length (code_bytes hs) = 2 * length hs"
  by (induction hs) (simp_all add: code_bytes_def)

lemma le32_halves: "le32 v = code_bytes (word_halves v)"
proof -
  have "ucast (drop_bit 8 (ucast v :: u16)) = (ucast (drop_bit 8 v) :: u8)"
    "ucast (ucast v :: u16) = (ucast v :: u8)"
    "ucast (ucast (drop_bit 16 v) :: u16) = (ucast (drop_bit 16 v) :: u8)"
    "ucast (drop_bit 8 (ucast (drop_bit 16 v) :: u16)) = (ucast (drop_bit 24 v) :: u8)"
    by (rule bit_word_eqI, auto simp: bit_simps)+
  then show ?thesis by (simp add: word_halves_def le32_def le16_def lo16_def hi16_def)
qed

lemma written_nil: "written m code [] (m, code)"
  by (simp add: written_def)

lemma written_write16: "written m code hs w \<Longrightarrow> written m code (hs @ [v]) (writer_write16 v w)"
  by (simp add: written_def writer_write16_def write16_def ram.store_append algebra_simps)

lemma written_nop: "written m code hs w \<Longrightarrow> written m code (hs @ [0xbf00]) (nop w)"
  unfolding nop_def by (rule written_write16)

lemma written_aligned: "written m code hs w \<Longrightarrow> is_aligned32 w \<longleftrightarrow> pad code hs = []"
  by (simp add: written_def is_aligned32_def pad_def)

lemma written_pad: "written m code hs w \<Longrightarrow>
   written m code (hs @ pad code hs) (if is_aligned32 w then w else nop w)"
  using written_nop [of m code hs w] by (simp add: written_aligned) (simp add: pad_def split: if_splits)

lemma written_write32: 
  assumes "written m code hs w"
  shows "written m code (hs @ pad code hs @ word_halves v) (write32 v w)"
proof -
  let ?w = "if is_aligned32 w then w else nop w"
  have "written m code (hs @ pad code hs) ?w" by (rule written_pad [OF assms])
  then show ?thesis
    unfolding write32_def Let_def written_def write32_unchecked_def le32_halves
    by (simp add: ram.store_append algebra_simps word_halves_def)
qed

text \<open>A pad from an even address leaves the writer on a multiple of four.\<close>

lemma word_mod_4_eq_0: "(a :: u32) mod 4 = 0 \<longleftrightarrow> unat a mod 4 = 0"
  by (simp add: word_unat_eq_iff unat_mod)

lemma unat_add_mod_4: "unat (a + word_of_nat n :: u32) mod 4 = (unat a + n) mod 4"
  by (simp add: unat_word_ariths unat_of_nat mod_mod_cancel mod_add_right_eq)

lemma pad_iff: "pad code hs = (if (unat code + 2 * length hs) mod 4 = 0 then [] else [0xbf00])"
  unfolding pad_def word_mod_4_eq_0 unat_add_mod_4 by simp

lemma pad_after_pad:
  assumes "even (unat code)"
  shows "pad code (hs @ pad code hs @ word_halves v) = []"
    and "pad code (hs @ pad code hs) = []"
  using assms by (auto simp: pad_iff word_halves_def) presburger+

lemma pad_even: "unat code mod 4 = 0 \<Longrightarrow> pad code hs = (if even (length hs) then [] else [0xbf00])"
  unfolding pad_iff by (auto; presburger)

lemma written_literal:
  assumes "written m code hs w" and "even (unat code)"
  shows "written m code (hs @ pad code hs @ literal_moves r v) (movt r (hi16 v) (movw r (lo16 v) w))"
  using written_write32 [OF written_write32 [OF assms(1)], of "movtw False r (lo16 v)" "movtw True r (hi16 v)"]
  by (simp add: movt_def movw_def literal_moves_def pad_after_pad [OF assms(2), simplified])

lemma written_jumpout:
  assumes "written m code hs w" and "even (unat code)"
  shows "written m code (hs @ pad code hs @ word_halves 0xf000f8df @ word_halves a) (jumpout a w)"
  using written_write32 [OF written_write32 [OF assms(1)], of "0xf000f8df" a]
  by (simp add: jumpout_def pad_after_pad [OF assms(2), simplified])

lemmas written_ops = written_write16 written_nop written_write32 written_literal written_jumpout

section \<open>Reading back emitted halfwords\<close>

lemma read16_written:
  assumes "written m code hs w" and "i < length hs" and "2 * length hs \<le> 2 ^ 32"
  shows "read16 (fst w) (code + word_of_nat (2 * i)) = hs ! i"
proof -
  from id_take_nth_drop [OF assms(2)]
  have hs: "hs = take i hs @ [hs ! i] @ drop (Suc i) hs" by simp
  have "length (take i hs @ [hs ! i] @ drop (Suc i) hs) = length hs" using hs by simp
  then have l: "length (code_bytes (take i hs)) + length (le16 (hs ! i)) + length (code_bytes (drop (Suc i) hs)) \<le> 2 ^ 32"
    using assms(3) by simp
  have "code_bytes hs = code_bytes (take i hs) @ le16 (hs ! i) @ code_bytes (drop (Suc i) hs)"
    by (subst hs) simp
  with ram.load_store_inside [OF l, of m code] assms(1,2) show ?thesis
    by (simp add: written_def read16_def min_def)
qed

text \<open>Straight-line execution of moves and no-operations, \<open>n\<close> instructions from \<open>p\<close>.\<close>

definition step_move :: "mem \<Rightarrow> u32 \<times> (u8 \<Rightarrow> u32) \<Rightarrow> (u32 \<times> (u8 \<Rightarrow> u32)) option" where
  "step_move m s =
     (let (p, regs) = s
      in if read16 m p = 0xbf00 then Some (p + 2, regs)
         else map_option (\<lambda>i. (p + 4, exec_move i regs)) (decode_move (read16 m p) (read16 m (p + 2))))"

fun run_moves :: "mem \<Rightarrow> nat \<Rightarrow> u32 \<times> (u8 \<Rightarrow> u32) \<Rightarrow> (u32 \<times> (u8 \<Rightarrow> u32)) option" where
  "run_moves m 0 s = Some s"
| "run_moves m (Suc n) s = Option.bind (step_move m s) (run_moves m n)"

lemma lo16_hi16: "(ucast (lo16 v) AND 0xFFFF) OR push_bit 16 (ucast (hi16 v)) = v"
  unfolding mask_literals lo16_def hi16_def
  by (rule bit_word_eqI) (auto simp: bit_simps)

lemma not_nop: "lo16 (movtw b r imm) \<noteq> 0xbf00"
proof
  assume "lo16 (movtw b r imm) = 0xbf00"
  then have "lo16 (movtw b r imm) AND 0xFBF0 = 0xbf00 AND 0xFBF0" by simp
  then show False unfolding movtw_lo move_opcode by (auto split: if_splits)
qed

lemma step_move_movtw:
  assumes "r < 16" and "read16 m p = lo16 (movtw b r imm)" and "read16 m (p + 2) = hi16 (movtw b r imm)"
  shows "step_move m (p, regs) = Some (p + 4, exec_move (if b then MOVT r imm else MOVW r imm) regs)"
  using assms(2,3) not_nop [of b r imm] by (simp add: step_move_def decode_movtw [OF assms(1)])

lemma run_literal_moves:
  assumes r: "r < 16" and "\<And>i. i < 4 \<Longrightarrow> read16 m (p + word_of_nat (2 * i)) = literal_moves r v ! i"
  shows "run_moves m 2 (p, regs) = Some (p + 8, regs(r := v))"
proof -
  have "read16 m p = lo16 (movtw False r (lo16 v))" "read16 m (p + 2) = hi16 (movtw False r (lo16 v))"
    "read16 m (p + 4) = lo16 (movtw True r (hi16 v))" "read16 m (p + 4 + 2) = hi16 (movtw True r (hi16 v))"
    using assms(2) [of 0] assms(2) [of 1] assms(2) [of 2] assms(2) [of 3]
    by (simp_all add: literal_moves_def word_halves_def add.commute [of 6 p])
  note step_move_movtw [OF r this(1,2)] step_move_movtw [OF r this(3,4)]
  then show ?thesis by (simp add: numeral_2_eq_2 lo16_hi16)
qed

text \<open>C13: Loading a literal through the emitted code. The interceptor replaces a PC-relative load of
  a literal \<open>v\<close> into register \<open>r\<close> by \<open>movw\<close> and \<open>movt\<close>; executing what the two writer calls
  emitted, from where the writer stood (with a no-operation first if it stood off a multiple of
  four), runs exactly up to the new position of the writer, sets \<open>r\<close> to \<open>v\<close> and changes no other
  register.\<close>

theorem literal_moves_load_value:
  assumes "r < 16" and "even (unat p)"
  shows "let w = movt r (hi16 v) (movw r (lo16 v) (m, p));
             n = (if is_aligned32 (m, p) then 2 else 3)
         in run_moves (fst w) n (p, regs) = Some (snd w, regs(r := v))"
proof -
  let ?w = "movt r (hi16 v) (movw r (lo16 v) (m, p))"
  let ?hs = "pad p [] @ literal_moves r v"
  have w: "written m p ?hs ?w"
    using written_literal [OF written_nil assms(2), of m r v] by simp
  have len: "length (literal_moves r v) = 4" by (simp add: literal_moves_def word_halves_def)
  have rd: "read16 (fst ?w) (p + word_of_nat (2 * i)) = ?hs ! i" if "i < length ?hs" for i
    by (rule read16_written [OF w that]) (simp add: len pad_def)
  show ?thesis
  proof (cases "is_aligned32 (m, p)")
    case True
    then have [simp]: "pad p [] = []" by (simp add: written_aligned [OF written_nil])
    have "run_moves (fst ?w) 2 (p, regs) = Some (p + 8, regs(r := v))"
      using rd len by (intro run_literal_moves [OF assms(1)]) simp
    moreover from w len have "snd ?w = p + 8" by (simp add: written_def)
    ultimately show ?thesis using True by simp
  next
    case False
    then have [simp]: "pad p [] = [0xbf00]"
      by (simp add: written_aligned [OF written_nil]) (simp add: pad_def split: if_splits)
    have "run_moves (fst ?w) 2 (p + 2, regs) = Some (p + 2 + 8, regs(r := v))"
      using rd [of "Suc i" for i] len by (intro run_literal_moves [OF assms(1)]) (simp add: algebra_simps)
    moreover have "step_move (fst ?w) (p, regs) = Some (p + 2, regs)"
      using rd [of 0] by (simp add: step_move_def)
    moreover from w len have "snd ?w = p + 10" by (simp add: written_def)
    ultimately show ?thesis using False by (simp add: numeral_3_eq_3 numeral_2_eq_2)
  qed
qed

lemma literal_moves_load_value_witness:
  "let w = movt 3 (hi16 0xDEADBEEF) (movw 3 (lo16 0xDEADBEEF) (\<lambda>_. 0, 0x1002));
       n = (if is_aligned32 (\<lambda>_. 0, 0x1002) then 2 else 3)
   in run_moves (fst w) n (0x1002, \<lambda>_. 7) = Some (snd w, (\<lambda>_. 7)(3 := 0xDEADBEEF))"
  by (rule literal_moves_load_value) simp_all

end
