(* ===== verification/Shared.thy ===== *)
theory Shared
  imports Memory
begin

text \<open>
  The bare-metal helpers of \<open>payloads/shared/src/lib.rs\<close>: cache maintenance, as the list of cache
  operations the inline assembly issues, and the search for a Thumb-2 pattern. A loop that would
  not end is \<open>None\<close>. The lemmas show that both loops end, which cache lines are cleaned and which
  bytes they cover, and which occurrence of a pattern is found.
\<close>

section \<open>Cache maintenance\<close>

definition CACHE_LINE :: u32 where "CACHE_LINE = 64"

datatype cache_op = CleanInvalidateLine u32 | InvalidateICache | InvalidateBranchPredictor | Dsb | Isb

partial_function (option) flush_loop :: "u32 \<Rightarrow> u32 \<Rightarrow> cache_op list option" where
  "flush_loop addr end_addr =
     (if addr < end_addr
      then Option.bind (flush_loop (addr + CACHE_LINE) end_addr)
             (\<lambda>ops. Some (CleanInvalidateLine addr # ops))
      else Some [])"

definition flush_dcache :: "u32 \<Rightarrow> u32 \<Rightarrow> cache_op list option" where
  "flush_dcache start_addr sz =
     (let end_addr = (start_addr + sz + CACHE_LINE - 1) AND NOT (CACHE_LINE - 1)
      in map_option (\<lambda>ops. ops @ [Dsb]) (flush_loop start_addr end_addr))"

definition flush_icache :: "cache_op list" where
  "flush_icache = [InvalidateICache, InvalidateBranchPredictor, Dsb, Isb]"

definition flush_cache :: "u32 \<Rightarrow> u32 \<Rightarrow> cache_op list option" where
  "flush_cache start_addr sz =
     (let start_addr = start_addr AND NOT (CACHE_LINE - 1)
      in map_option (\<lambda>ops. ops @ flush_icache) (flush_dcache start_addr sz))"

text \<open>The bytes whose lines are cleaned.\<close>

definition cleaned :: "cache_op list \<Rightarrow> nat set" where
  "cleaned ops = (\<Union>a \<in> {a. CleanInvalidateLine a \<in> set ops}. {unat a..<unat a + 64})"

lemma flush_loop_lines:
  "unat addr + 64 * n < 2 ^ 32 \<Longrightarrow> unat e = unat addr + 64 * n \<Longrightarrow>
   \<exists>ops. flush_loop addr e = Some ops \<and>
     (\<Union>a \<in> {a. CleanInvalidateLine a \<in> set ops}. {unat a..<unat a + 64}) = {unat addr..<unat addr + 64 * n}"
proof (induction n arbitrary: addr)
  case 0
  then have "\<not> addr < e" by (simp add: word_less_nat_alt)
  then show ?case by (subst flush_loop.simps) simp
next
  case (Suc n)
  then have lt: "addr < e" by (simp add: word_less_nat_alt)
  have next': "unat (addr + 64) = unat addr + 64"
    using Suc.prems(1) by (simp add: unat_u32_add_nowrap)
  have "\<exists>ops. flush_loop (addr + 64) e = Some ops \<and>
     (\<Union>a \<in> {a. CleanInvalidateLine a \<in> set ops}. {unat a..<unat a + 64}) =
     {unat (addr + 64)..<unat (addr + 64) + 64 * n}"
    using Suc.prems by (intro Suc.IH) (simp_all add: next')
  then obtain ops where ops: "flush_loop (addr + 64) e = Some ops"
    and cov: "(\<Union>a \<in> {a. CleanInvalidateLine a \<in> set ops}. {unat a..<unat a + 64}) =
      {unat addr + 64..<unat addr + 64 + 64 * n}" by (auto simp: next')
  have eq: "{a. CleanInvalidateLine a \<in> set (CleanInvalidateLine addr # ops)} =
    insert addr {a. CleanInvalidateLine a \<in> set ops}" by auto
  have "flush_loop addr e = Some (CleanInvalidateLine addr # ops)"
    using lt ops by (subst flush_loop.simps) (simp add: CACHE_LINE_def)
  moreover have "(\<Union>a \<in> {a. CleanInvalidateLine a \<in> set (CleanInvalidateLine addr # ops)}. {unat a..<unat a + 64}) =
    {unat addr..<unat addr + 64 * Suc n}"
    unfolding eq by (simp add: cov ivl_disj_un_two add.assoc)
  ultimately show ?case by blast
qed

text \<open>The line that holds an address, and the number of lines the code cleans.\<close>

definition line_of :: "u32 \<Rightarrow> nat" where
  "line_of a = unat a div 64 * 64"

lemma flush_cache_lines:
  assumes "line_of start + unat sz + 63 < 2 ^ 32"
  shows "\<exists>ops. flush_cache start sz = Some ops \<and>
    cleaned ops = {line_of start..<line_of start + (unat sz + 63) div 64 * 64}"
proof -
  define s e where "s = start AND NOT 63" and "e = (s + sz + 64 - 1) AND NOT 63"
  define n where "n = (unat sz + 63) div 64"
  have s: "unat s = line_of start" by (simp add: s_def word_nat line_of_def)
  have "s + sz + 64 - 1 = s + (sz + 63)" by simp
  moreover have "unat (s + (sz + 63)) = unat s + (unat sz + 63)"
    using assms by (simp add: unat_u32_add_nowrap s)
  ultimately have "unat e = (unat s + (unat sz + 63)) div 64 * 64"
    by (simp add: e_def word_nat)
  also have "\<dots> = unat s + 64 * n"
  proof -
    obtain m where "unat s = 64 * m" by (metis s line_of_def mult.commute)
    then show ?thesis by (simp add: n_def)
  qed
  finally have e: "unat e = unat s + 64 * n" .
  have "64 * n \<le> unat sz + 63" by (simp add: n_def)
  with assms s have "unat s + 64 * n < 2 ^ 32" by simp
  from flush_loop_lines [OF this e] obtain ops where ops: "flush_loop s e = Some ops"
    and cov: "(\<Union>a \<in> {a. CleanInvalidateLine a \<in> set ops}. {unat a..<unat a + 64}) =
      {unat s..<unat s + 64 * n}" by blast
  have "flush_cache start sz = Some ((ops @ [Dsb]) @ flush_icache)"
    using ops by (simp add: flush_cache_def flush_dcache_def CACHE_LINE_def Let_def s_def e_def)
  moreover have "cleaned ((ops @ [Dsb]) @ flush_icache) = {line_of start..<line_of start + n * 64}"
    using cov s by (simp add: cleaned_def flush_icache_def mult.commute)
  ultimately show ?thesis by (auto simp: n_def)
qed

text \<open>The loop ends for every input: both bounds are multiples of the line size, so the address
  meets the bound and never steps over it.\<close>

lemma flush_cache_returns: "\<exists>ops. flush_cache start sz = Some ops"
proof -
  define s e where "s = start AND NOT 63" and "e = (s + sz + 64 - 1) AND NOT 63"
  have s: "unat s = unat start div 64 * 64" by (simp add: s_def word_nat)
  have e: "unat e = unat (s + sz + 64 - 1) div 64 * 64" by (simp add: e_def word_nat)
  have "\<exists>ops. flush_loop s e = Some ops"
  proof (cases "s < e")
    case True
    then have lt: "unat s < unat e" by (simp add: word_less_nat_alt)
    define n where "n = unat e div 64 - unat s div 64"
    have "unat e = unat s + 64 * n" using lt s e by (simp add: n_def)
    moreover from this have "unat s + 64 * n < 2 ^ 32" using unat_u32_lt [of e] by simp
    ultimately show ?thesis using flush_loop_lines by blast
  next
    case False
    then show ?thesis by (subst flush_loop.simps) simp
  qed
  then show ?thesis
    by (auto simp: flush_cache_def flush_dcache_def CACHE_LINE_def Let_def s_def e_def)
qed

section \<open>Searching a Thumb-2 pattern\<close>

text \<open>The inner loop compares the halfwords after the first one and stops at the first mismatch.\<close>

definition rest_matches :: "mem \<Rightarrow> u32 \<Rightarrow> u16 list \<Rightarrow> bool" where
  "rest_matches m offset code =
     list_all (\<lambda>i. read16 m (offset + word_of_nat (i * 2)) = code ! i) [1..<length code]"

partial_function (option) search_loop :: "mem \<Rightarrow> u16 list \<Rightarrow> u32 \<Rightarrow> u32 \<Rightarrow> u32 option option" where
  "search_loop m code offset end_addr =
     (if offset < end_addr
      then (if read16 m offset \<noteq> code ! 0
            then search_loop m code (offset + 2) end_addr
            else if rest_matches m offset code
            then Some (Some offset)
            else search_loop m code (offset + 2) end_addr)
      else Some None)"

definition search_pattern :: "mem \<Rightarrow> u32 \<Rightarrow> u32 \<Rightarrow> u16 list \<Rightarrow> u32 option option" where
  "search_pattern m start end_addr code =
     (let n = length code in
      if n = 0 \<or> end_addr \<le> start then Some None
      else search_loop m code start (saturating_sub end_addr (word_of_nat (n * 2))))"

definition occurs_at :: "mem \<Rightarrow> u16 list \<Rightarrow> u32 \<Rightarrow> bool" where
  "occurs_at m code a \<longleftrightarrow> (\<forall>i < length code. read16 m (a + word_of_nat (i * 2)) = code ! i)"

lemma occurs_at_code:
  "code \<noteq> [] \<Longrightarrow> occurs_at m code a \<longleftrightarrow> read16 m a = code ! 0 \<and> rest_matches m a code"
proof -
  assume "code \<noteq> []"
  then have "{..<length code} = insert 0 {1..<length code}" by auto
  then have "(\<forall>i \<in> {..<length code}. read16 m (a + word_of_nat (i * 2)) = code ! i) \<longleftrightarrow>
    read16 m a = code ! 0 \<and> (\<forall>i \<in> {1..<length code}. read16 m (a + word_of_nat (i * 2)) = code ! i)"
    by simp
  then show ?thesis by (simp add: occurs_at_def rest_matches_def list_all_iff Ball_def)
qed

text \<open>The loop steps over the addresses \<open>offset + 2 * k\<close> below its bound and returns the first at
  which the pattern occurs.\<close>

lemma search_loop_first:
  assumes "code \<noteq> []" and "unat e \<le> 4294967294"
  shows "\<exists>r. search_loop m code offset e = Some r \<and>
    (case r of
       None \<Rightarrow> \<forall>k. unat offset + 2 * k < unat e \<longrightarrow> \<not> occurs_at m code (offset + word_of_nat (2 * k))
     | Some a \<Rightarrow> \<exists>k. unat a = unat offset + 2 * k \<and> unat a < unat e \<and> occurs_at m code a \<and>
         (\<forall>j < k. \<not> occurs_at m code (offset + word_of_nat (2 * j))))"
proof (induction "unat e - unat offset" arbitrary: offset rule: less_induct)
  case less
  show ?case
  proof (cases "offset < e")
    case False
    then have "\<not> unat offset + 2 * k < unat e" for k by (simp add: word_less_nat_alt)
    with False show ?thesis by (subst search_loop.simps) simp
  next
    case True
    then have lt: "unat offset < unat e" by (simp add: word_less_nat_alt)
    with assms(2) have o2: "unat (offset + 2) = unat offset + 2"
      by (simp add: unat_u32_add_nowrap)
    show ?thesis
    proof (cases "occurs_at m code offset")
      case here: True
      then have "search_loop m code offset e = Some (Some offset)"
        using True assms(1) by (subst search_loop.simps) (simp add: occurs_at_code)
      with here lt show ?thesis by (intro exI [of _ "Some offset"]) (auto intro!: exI [of _ 0])
    next
      case no: False
      then have step: "search_loop m code offset e = search_loop m code (offset + 2) e"
        using True assms(1) by (subst search_loop.simps) (auto simp: occurs_at_code)
      have shift: "offset + 2 + word_of_nat (2 * k) = offset + word_of_nat (2 * Suc k)" for k
        by (simp add: add.assoc)
      have "unat e - unat (offset + 2) < unat e - unat offset" using lt o2 by simp
      from less [OF this] obtain r where r: "search_loop m code (offset + 2) e = Some r"
        and c: "case r of
           None \<Rightarrow> \<forall>k. unat (offset + 2) + 2 * k < unat e \<longrightarrow> \<not> occurs_at m code (offset + 2 + word_of_nat (2 * k))
         | Some a \<Rightarrow> \<exists>k. unat a = unat (offset + 2) + 2 * k \<and> unat a < unat e \<and> occurs_at m code a \<and>
             (\<forall>j < k. \<not> occurs_at m code (offset + 2 + word_of_nat (2 * j)))"
        by blast
      show ?thesis
      proof (cases r)
        case None
        have "\<not> occurs_at m code (offset + word_of_nat (2 * k))" if "unat offset + 2 * k < unat e" for k
        proof (cases k)
          case (Suc j)
          with that c None o2 show ?thesis by (simp only: shift) simp
        qed (use no in simp)
        with r None step show ?thesis by simp
      next
        case (Some a)
        with c obtain k where k: "unat a = unat (offset + 2) + 2 * k" "unat a < unat e" "occurs_at m code a"
          and before: "\<forall>j < k. \<not> occurs_at m code (offset + word_of_nat (2 * Suc j))"
          by (auto simp only: shift option.case)
        have "\<not> occurs_at m code (offset + word_of_nat (2 * j))" if "j < Suc k" for j
          using that no before by (cases j) simp_all
        with k o2 have "\<exists>k. unat a = unat offset + 2 * k \<and> unat a < unat e \<and> occurs_at m code a \<and>
            (\<forall>j < k. \<not> occurs_at m code (offset + word_of_nat (2 * j)))"
          by (intro exI [of _ "Suc k"]) simp
        with r Some step show ?thesis by simp
      qed
    qed
  qed
qed

text \<open>The candidate addresses: every second one from \<open>start\<close>, with the pattern ending before \<open>e\<close>.\<close>

definition candidate :: "u32 \<Rightarrow> u32 \<Rightarrow> u16 list \<Rightarrow> u32 \<Rightarrow> bool" where
  "candidate start e code a \<longleftrightarrow>
     unat start \<le> unat a \<and> even (unat a - unat start) \<and> unat a + 2 * length code < unat e"

lemma candidate_offset:
  assumes "candidate start e code a"
  obtains k where "a = start + word_of_nat (2 * k)" and "unat a = unat start + 2 * k"
proof -
  from assms have "even (unat a - unat start)" by (simp only: candidate_def)
  then obtain k where k: "unat a - unat start = 2 * k" by (rule evenE)
  with assms have u: "unat a = unat start + 2 * k" unfolding candidate_def by linarith
  have "unat start + 2 * k < 2 ^ 32" unfolding u [symmetric] by simp
  then have "unat (start + word_of_nat (2 * k)) = unat a" by (simp only: unat_add_small u)
  then show thesis using u that [of k] by (simp add: word_unat_eq_iff)
qed

lemma search_pattern_first:
  assumes "code \<noteq> []" and "2 * length code < 2 ^ 32" and "start < e"
  shows "\<exists>r. search_pattern m start e code = Some r \<and>
    (case r of
       None \<Rightarrow> \<forall>a. candidate start e code a \<longrightarrow> \<not> occurs_at m code a
     | Some a \<Rightarrow> candidate start e code a \<and> occurs_at m code a \<and>
         (\<forall>b. candidate start e code b \<and> b < a \<longrightarrow> \<not> occurs_at m code b))"
proof -
  define bound where "bound = saturating_sub e (word_of_nat (length code * 2))"
  have "unat (word_of_nat (length code * 2) :: u32) = 2 * length code"
    using assms(2) by (subst unat_of_nat) (simp add: mult.commute)
  then have b: "unat bound = unat e - 2 * length code"
    by (simp only: bound_def unat_saturating_sub)
  have "0 < length code" using assms(1) by simp
  then have "unat bound \<le> 4294967294" using b unat_u32_lt [of e] by linarith
  from search_loop_first [OF assms(1) this, of m start] obtain r
    where r: "search_loop m code start bound = Some r"
    and c: "case r of
       None \<Rightarrow> \<forall>k. unat start + 2 * k < unat bound \<longrightarrow> \<not> occurs_at m code (start + word_of_nat (2 * k))
     | Some a \<Rightarrow> \<exists>k. unat a = unat start + 2 * k \<and> unat a < unat bound \<and> occurs_at m code a \<and>
         (\<forall>j < k. \<not> occurs_at m code (start + word_of_nat (2 * j)))" by blast
  have s: "search_pattern m start e code = Some r"
    using r assms(1) assms(3) [folded not_le] by (auto simp: search_pattern_def bound_def)
  show ?thesis
  proof (cases r)
    case None
    have "\<not> occurs_at m code a" if "candidate start e code a" for a
      using that
    proof (rule candidate_offset)
      fix k assume "a = start + word_of_nat (2 * k)" and "unat a = unat start + 2 * k"
      moreover from that this b have "unat start + 2 * k < unat bound" by (simp add: candidate_def)
      ultimately show ?thesis using c None by simp
    qed
    with s None show ?thesis by simp
  next
    case (Some a)
    with c obtain k where k: "unat a = unat start + 2 * k" "unat a < unat bound" "occurs_at m code a"
      and before: "\<forall>j < k. \<not> occurs_at m code (start + word_of_nat (2 * j))" by auto
    have "\<not> occurs_at m code x" if x: "candidate start e code x" "x < a" for x
      using x(1)
    proof (rule candidate_offset)
      fix j assume "x = start + word_of_nat (2 * j)" and "unat x = unat start + 2 * j"
      moreover from this x(2) k(1) have "j < k" by (simp add: word_less_nat_alt)
      ultimately show ?thesis using before by simp
    qed
    with s Some k b show ?thesis by (auto simp: candidate_def)
  qed
qed

section \<open>Properties\<close>

text \<open>C31: The loop of \<open>flush_cache\<close> ends, and cleans exactly the whole lines from the line of
  \<open>start\<close> that the rounded-up size spans. Every byte of the requested range is covered if and
  only if the offset of \<open>start\<close> in its line does not push the end past the last of these lines.\<close>

theorem flush_cache_coverage:
  assumes "unat start div 64 * 64 + unat sz + 63 < 2 ^ 32" and "sz \<noteq> 0"
  shows "\<exists>ops. flush_cache start sz = Some ops \<and>
    cleaned ops = {unat start div 64 * 64..<unat start div 64 * 64 + (unat sz + 63) div 64 * 64} \<and>
    ({unat start..<unat start + unat sz} \<subseteq> cleaned ops \<longleftrightarrow>
     unat start mod 64 + unat sz \<le> (unat sz + 63) div 64 * 64)"
proof -
  from flush_cache_lines [of start sz] assms(1) obtain ops where ops: "flush_cache start sz = Some ops"
    and c: "cleaned ops = {line_of start..<line_of start + (unat sz + 63) div 64 * 64}"
    by (auto simp: line_of_def)
  have "0 < unat sz" using assms(2) by (simp add: unat_gt_0)
  then have "{unat start..<unat start + unat sz} \<subseteq> cleaned ops \<longleftrightarrow>
    line_of start \<le> unat start \<and> unat start + unat sz \<le> line_of start + (unat sz + 63) div 64 * 64"
    by (simp add: c ivl_subset)
  moreover have "unat start = line_of start + unat start mod 64"
    by (simp add: line_of_def)
  ultimately have "{unat start..<unat start + unat sz} \<subseteq> cleaned ops \<longleftrightarrow>
     unat start mod 64 + unat sz \<le> (unat sz + 63) div 64 * 64" by linarith
  with ops c show ?thesis by (auto simp: line_of_def)
qed

theorem flush_cache_coverage_witness:
  "\<exists>ops. flush_cache 0x8000003C 8 = Some ops \<and> cleaned ops = {0x80000000..<0x80000040} \<and>
     \<not> {0x8000003C..<0x80000044} \<subseteq> cleaned ops"
proof -
  have "unat (0x8000003C :: u32) div 64 * 64 + unat (8 :: u32) + 63 < 2 ^ 32" and "(8 :: u32) \<noteq> 0"
    by simp_all
  from flush_cache_coverage [OF this] show ?thesis by auto
qed

text \<open>C30: \<open>search_pattern\<close> always returns, and its result is the first address, counting in steps
  of two from \<open>start\<close>, at which the whole pattern occurs before \<open>end\<close>; it is none exactly when
  the pattern occurs at no such address.\<close>

theorem search_pattern_finds_first:
  assumes "code \<noteq> []" and "2 * length code < 2 ^ 32" and "start < e"
  shows "\<exists>r. search_pattern m start e code = Some r \<and>
    (case r of
       None \<Rightarrow> \<forall>a. candidate start e code a \<longrightarrow> \<not> occurs_at m code a
     | Some a \<Rightarrow> candidate start e code a \<and> occurs_at m code a \<and>
         (\<forall>b. candidate start e code b \<and> b < a \<longrightarrow> \<not> occurs_at m code b))"
  by (rule search_pattern_first [OF assms])

theorem search_pattern_finds_first_witness:
  "\<exists>r. search_pattern (store_bytes (\<lambda>_. 0) 0x1002 [0x10, 0xB5]) 0x1000 0x1010 [0xB510] = Some r \<and> r = Some 0x1002"
proof -
  let ?m = "store_bytes (\<lambda>_. 0) 0x1002 [0x10, 0xB5]"
  have "search_pattern ?m 0x1000 0x1010 [0xB510] = Some (Some 0x1002)"
    by (simp add: search_pattern_def search_loop.simps saturating_sub_def read16_def load_bytes_def
        of_le16_def rest_matches_def upt_rec)
  moreover have "[0xB510 :: u16] \<noteq> []" and "2 * length [0xB510 :: u16] < 2 ^ 32" and "(0x1000 :: u32) < 0x1010"
    by simp_all
  note search_pattern_finds_first [OF this, of ?m]
  ultimately show ?thesis by simp
qed

text \<open>A pattern that fills the searched range exactly is never found, whatever the memory holds,
  because the last position that fits is excluded by the bound of the loop.\<close>

theorem search_pattern_misses_last:
  assumes "unat start + 2 * length code < 2 ^ 32"
  shows "search_pattern m start (start + word_of_nat (2 * length code)) code = Some None"
proof (cases "code = []")
  case False
  define e where "e = start + word_of_nat (2 * length code)"
  have e: "unat e = unat start + 2 * length code"
    using assms by (simp only: e_def unat_add_small)
  then have "start < e" using False by (simp add: word_less_nat_alt)
  then obtain r where r: "search_pattern m start e code = Some r"
    and c: "case r of Some a \<Rightarrow> candidate start e code a | None \<Rightarrow> True"
    using search_pattern_first [OF False, of start e m] assms by (fastforce split: option.splits)
  have "\<not> candidate start e code a" for a by (simp add: candidate_def e)
  with r c show ?thesis by (cases r) (simp_all add: e_def)
qed (simp add: search_pattern_def)

theorem search_pattern_misses_last_witness:
  "occurs_at (store_bytes (\<lambda>_. 0) 0x1000 [0x10, 0xB5]) [0xB510] 0x1000 \<and>
   search_pattern (store_bytes (\<lambda>_. 0) 0x1000 [0x10, 0xB5]) 0x1000 0x1002 [0xB510] = Some None"
proof
  show "occurs_at (store_bytes (\<lambda>_. 0) 0x1000 [0x10, 0xB5]) [0xB510] 0x1000"
    by (simp add: occurs_at_def read16_def load_bytes_def of_le16_def upt_rec)
  show "search_pattern (store_bytes (\<lambda>_. 0) 0x1000 [0x10, 0xB5]) 0x1000 0x1002 [0xB510] = Some None"
    using search_pattern_misses_last [where start = "0x1000" and code = "[0xB510]"
        and m = "store_bytes (\<lambda>_. 0) 0x1000 [0x10, 0xB5]"] by simp
qed

end
