(* ===== verification/Allocation.thy ===== *)
theory Allocation
  imports Prelude
begin

text \<open>
  The interface of Rust's \<open>GlobalAlloc\<close> as the payload uses it: \<open>payloads/bump\<close> provides it and
  \<open>payloads/interceptor\<close> takes its trampolines from it. The locale states the promises of a
  provider (a block is aligned, fresh and stays used; null leaves the state alone) and proves for
  clients that all blocks handed out are disjoint.
\<close>

record Layout =
  ly_size :: u32
  ly_align :: u32

text \<open>A Rust \<open>Layout\<close> has a power of two as its alignment.\<close>

definition valid_layout :: "Layout \<Rightarrow> bool" where
  "valid_layout l \<longleftrightarrow> (\<exists>k < 32. ly_align l = 2 ^ k)"

definition block :: "u32 \<Rightarrow> Layout \<Rightarrow> nat set" where
  "block p l = {unat p..<unat p + unat (ly_size l)}"

text \<open>A run of allocations and the blocks that were not null.\<close>

fun allocs :: "('s \<Rightarrow> Layout \<Rightarrow> u32 \<times> 's) \<Rightarrow> 's \<Rightarrow> Layout list \<Rightarrow> nat set list \<times> 's" where
  "allocs allocate s [] = ([], s)"
| "allocs allocate s (l # ls) =
     (let (p, s') = allocate s l; (bs, t) = allocs allocate s' ls
      in (if p = 0 then bs else block p l # bs, t))"

fun disjoint_list :: "nat set list \<Rightarrow> bool" where
  "disjoint_list [] \<longleftrightarrow> True"
| "disjoint_list (b # bs) \<longleftrightarrow> (\<forall>c \<in> set bs. b \<inter> c = {}) \<and> disjoint_list bs"

locale global_alloc =
  fixes allocate :: "'s \<Rightarrow> Layout \<Rightarrow> u32 \<times> 's"
    and used :: "'s \<Rightarrow> nat set"
    and invar :: "'s \<Rightarrow> bool"
  assumes null_unchanged: "invar s \<Longrightarrow> valid_layout l \<Longrightarrow> allocate s l = (0, s') \<Longrightarrow> s' = s"
    and fresh: "invar s \<Longrightarrow> valid_layout l \<Longrightarrow> allocate s l = (p, s') \<Longrightarrow> p \<noteq> 0 \<Longrightarrow> block p l \<inter> used s = {}"
    and used_grows: "invar s \<Longrightarrow> valid_layout l \<Longrightarrow> allocate s l = (p, s') \<Longrightarrow> p \<noteq> 0 \<Longrightarrow>
      block p l \<union> used s \<subseteq> used s'"
    and aligned: "invar s \<Longrightarrow> valid_layout l \<Longrightarrow> allocate s l = (p, s') \<Longrightarrow> p \<noteq> 0 \<Longrightarrow>
      unat (ly_align l) dvd unat p"
    and invar_allocate: "invar s \<Longrightarrow> valid_layout l \<Longrightarrow> allocate s l = (p, s') \<Longrightarrow> invar s'"
begin

lemma used_mono:
  assumes "invar s" and "valid_layout l" and "allocate s l = (p, s')"
  shows "used s \<subseteq> used s'"
  using assms null_unchanged used_grows by (cases "p = 0") blast+

lemma allocs_disjoint:
  "invar s \<Longrightarrow> \<forall>l \<in> set ls. valid_layout l \<Longrightarrow> allocs allocate s ls = (bs, t) \<Longrightarrow>
   disjoint_list bs \<and> (\<forall>b \<in> set bs. b \<inter> used s = {} \<and> b \<subseteq> used t) \<and> used s \<subseteq> used t \<and> invar t"
proof (induction ls arbitrary: s bs)
  case (Cons l ls)
  obtain p s' where a: "allocate s l = (p, s')" by (rule prod.exhaust)
  obtain cs u where r': "allocs allocate s' ls = (cs, u)" by (rule prod.exhaust)
  with Cons.prems(3) a have r: "allocs allocate s' ls = (cs, t)"
    and bs: "bs = (if p = 0 then cs else block p l # cs)" by (auto split: if_splits)
  from Cons.prems(2) have l: "valid_layout l" and ls: "\<forall>l \<in> set ls. valid_layout l" by auto
  note IH = Cons.IH [OF invar_allocate [OF Cons.prems(1) l a] ls r]
  note mono = used_mono [OF Cons.prems(1) l a]
  from IH have t': "invar t" "disjoint_list cs" "used s' \<subseteq> used t" by simp_all
  note t = subset_trans [OF mono t'(3)] t'(1,2)
  have cs: "c \<inter> used s' = {}" "c \<inter> used s = {}" "c \<subseteq> used t" if "c \<in> set cs" for c
  proof -
    from IH that show "c \<inter> used s' = {}" "c \<subseteq> used t" by simp_all
    with mono show "c \<inter> used s = {}" by blast
  qed
  show ?case
  proof (cases "p = 0")
    case True
    with bs t cs show ?thesis by simp
  next
    case False
    from used_grows [OF Cons.prems(1) l a False] have b: "block p l \<subseteq> used s'" by simp
    moreover from IH have "used s' \<subseteq> used t" by simp
    ultimately have "block p l \<subseteq> used t" by simp
    moreover have "block p l \<inter> c = {}" if "c \<in> set cs" for c
      using cs(1) [OF that] b by blast
    ultimately show ?thesis
      using bs False t cs fresh [OF Cons.prems(1) l a False] by simp
  qed
qed simp

end

end
