(* ===== verification/Bump.thy ===== *)
theory Bump
  imports Allocation
begin

text \<open>
  The bump allocator of the payload, \<open>payloads/bump/src/lib.rs\<close>. \<open>usize\<close> has 32 bits on the
  \<open>armv7a\<close> target and the \<open>nostd\<close> profile lets \<open>+\<close> and \<open>-\<close> wrap; a null pointer is 0. The lemmas
  show that an allocation is the least aligned block that fits into what is left of the region,
  or null with the allocator unchanged, and that blocks never overlap.
\<close>

section \<open>Code\<close>

record BumpAllocator =
  ba_ptr :: "u32 option"
  ba_size :: u32

definition align_up :: "u32 \<Rightarrow> u32 \<Rightarrow> u32" where
  "align_up x align = (x + align - 1) AND NOT (align - 1)"

definition alloc :: "BumpAllocator \<Rightarrow> Layout \<Rightarrow> u32 \<times> BumpAllocator" where
  "alloc b layout =
     (let align = ly_align layout; sz = ly_size layout; available_size = ba_size b in
      case ba_ptr b of
        None \<Rightarrow> (0, b)
      | Some ptr \<Rightarrow>
          (let aligned_ptr = align_up ptr align; padding = aligned_ptr - ptr in
           case checked_add padding sz of
             None \<Rightarrow> (0, b)
           | Some tot \<Rightarrow>
               if available_size \<ge> tot
               then (aligned_ptr, b\<lparr>ba_ptr := Some (aligned_ptr + sz), ba_size := available_size - tot\<rparr>)
               else (0, b)))"

definition dealloc :: "BumpAllocator \<Rightarrow> u32 \<Rightarrow> Layout \<Rightarrow> BumpAllocator" where
  "dealloc b ptr layout = b"

definition bump_new :: "u32 \<Rightarrow> u32 \<Rightarrow> BumpAllocator" where
  "bump_new ptr sz = \<lparr>ba_ptr = Some ptr, ba_size = sz\<rparr>"

definition bump_empty :: BumpAllocator where
  "bump_empty = \<lparr>ba_ptr = None, ba_size = 0\<rparr>"

definition bump_init :: "BumpAllocator \<Rightarrow> u32 \<Rightarrow> u32 \<Rightarrow> BumpAllocator" where
  "bump_init b ptr sz = b\<lparr>ba_ptr := Some ptr, ba_size := sz\<rparr>"

section \<open>Aligning up\<close>

text \<open>The multiple of \<open>2 ^ k\<close> at or above \<open>n\<close>, as a natural number.\<close>

definition round_up :: "nat \<Rightarrow> nat \<Rightarrow> nat" where
  "round_up k n = (n + (2 ^ k - 1)) div 2 ^ k * 2 ^ k"

lemma round_up_bounds:
  shows "n \<le> round_up k n" and "round_up k n \<le> n + (2 ^ k - 1)"
proof -
  define d where "d = (2 :: nat) ^ k"
  have "0 < d" by (simp add: d_def)
  have "round_up k n + (n + (d - 1)) mod d = n + (d - 1)"
    unfolding round_up_def d_def [symmetric] by (rule div_mult_mod_eq)
  moreover from \<open>0 < d\<close> have "(n + (d - 1)) mod d < d" by simp
  ultimately show "n \<le> round_up k n" and "round_up k n \<le> n + (2 ^ k - 1)"
    using \<open>0 < d\<close> unfolding d_def by linarith+
qed

lemma round_up_least:
  assumes "2 ^ k dvd a" and "n \<le> a"
  shows "round_up k n \<le> a"
proof -
  define d where "d = (2 :: nat) ^ k"
  have "0 < d" by (simp add: d_def)
  obtain m where m: "a = d * m" using assms(1) unfolding d_def by (rule dvdE)
  with assms(2) \<open>0 < d\<close> have "n + (d - 1) < Suc m * d" by (simp add: mult.commute)
  then have "(n + (d - 1)) div d < Suc m" by (rule less_mult_imp_div_less)
  then have "(n + (d - 1)) div d \<le> m" by (rule less_Suc_eq_le [THEN iffD1])
  then have "(n + (d - 1)) div d * d \<le> m * d" by (rule mult_le_mono1)
  then show ?thesis by (simp add: round_up_def d_def [symmetric] m mult.commute)
qed

lemma round_up_dvd: "2 ^ k dvd round_up k n"
  by (simp add: round_up_def)

lemma unat_pow2:
  assumes "k < 32"
  shows "unat (2 ^ k :: u32) = 2 ^ k"
proof -
  have "(2 :: nat) ^ k < 2 ^ 32" using assms by (intro power_strict_increasing) simp_all
  then have "unat (word_of_nat (2 ^ k) :: u32) = 2 ^ k"
    by (subst unat_of_nat) simp
  then show ?thesis by simp
qed

lemma unat_mask_u32:
  assumes "k < 32"
  shows "unat (mask k :: u32) = 2 ^ k - 1"
proof -
  have "(mask k :: u32) = 2 ^ k - 1" by (simp add: mask_eq_exp_minus_1)
  moreover have "(1 :: u32) \<le> 2 ^ k" using unat_pow2 [OF assms] by (simp add: word_le_nat_alt)
  ultimately show ?thesis by (simp add: unat_sub unat_pow2 [OF assms])
qed

text \<open>Rounding up in 32 bits: past the last multiple of \<open>2 ^ k\<close> the sum wraps to 0, which is
  \<open>2 ^ 32\<close> reduced.\<close>

lemma align_up_round_up:
  assumes "k < 32"
  shows "align_up x (2 ^ k) = word_of_nat (round_up k (unat x))"
proof -
  define d n where "d = (2 :: nat) ^ k" and "n = unat x + (d - 1)"
  have d: "0 < d" "d dvd 2 ^ 32"
    unfolding d_def using assms by (simp, intro le_imp_power_dvd) simp
  have "align_up x (2 ^ k) = (x + mask k) AND NOT (mask k)"
    by (simp add: align_up_def mask_eq_exp_minus_1 add_diff_eq)
  then have "unat (align_up x (2 ^ k)) = n mod 2 ^ 32 div d * d"
    by (simp only: unat_and_not_mask unat_u32_add unat_mask_u32 [OF assms] n_def d_def)
  also have "\<dots> = n div d * d mod 2 ^ 32"
  proof -
    from d(2) obtain m where m: "2 ^ 32 = d * m" by (rule dvdE)
    have "n mod (d * m) div d = n div d mod m"
      using d(1) by (simp add: mod_mult2_eq)
    moreover have "n div d mod m * d = n div d * d mod (m * d)" by (rule mult_mod_left)
    ultimately show ?thesis unfolding m by (simp only: mult.commute)
  qed
  also have "n div d * d = round_up k (unat x)" by (simp add: round_up_def n_def d_def)
  finally have "unat (align_up x (2 ^ k)) = unat (word_of_nat (round_up k (unat x)) :: u32)"
    by (simp add: unat_of_nat)
  then show ?thesis by (simp only: word_unat_eq_iff)
qed

lemma unat_padding:
  assumes "k < 32"
  shows "unat (align_up x (2 ^ k) - x) = round_up k (unat x) - unat x"
proof -
  note r = round_up_bounds [where n = "unat x" and k = k]
  have "align_up x (2 ^ k) - x = word_of_nat (round_up k (unat x) - unat x)"
    using r(1) by (simp add: align_up_round_up [OF assms] of_nat_diff)
  moreover have "round_up k (unat x) - unat x < 2 ^ 32"
  proof -
    have "(2 :: nat) ^ k < 2 ^ 32" using assms by (intro power_strict_increasing) simp_all
    with r(2) show ?thesis by linarith
  qed
  ultimately show ?thesis by (simp add: unat_of_nat)
qed

section \<open>What an allocation does\<close>

text \<open>
  The region ends at \<open>hi\<close>: what is left of it starts at the pointer. A region inside the address
  space has \<open>hi < 2 ^ 32\<close>.
\<close>

definition bump_inv :: "nat \<Rightarrow> BumpAllocator \<Rightarrow> bool" where
  "bump_inv hi b \<longleftrightarrow> hi < 2 ^ 32 \<and>
     (case ba_ptr b of None \<Rightarrow> ba_size b = 0 | Some p \<Rightarrow> p \<noteq> 0 \<and> unat p + unat (ba_size b) = hi)"

lemma bump_inv_new: "ptr \<noteq> 0 \<Longrightarrow> unat ptr + unat sz < 2 ^ 32 \<Longrightarrow> bump_inv (unat ptr + unat sz) (bump_new ptr sz)"
  by (simp add: bump_inv_def bump_new_def)

lemma bump_inv_init: "ptr \<noteq> 0 \<Longrightarrow> unat ptr + unat sz < 2 ^ 32 \<Longrightarrow> bump_inv (unat ptr + unat sz) (bump_init b ptr sz)"
  by (simp add: bump_inv_def bump_init_def)

lemma bump_inv_empty: "hi < 2 ^ 32 \<Longrightarrow> bump_inv hi bump_empty"
  by (simp add: bump_inv_def bump_empty_def)

lemma alloc_dealloc: "dealloc b p l = b"
  by (simp add: dealloc_def)

text \<open>On natural numbers: the least aligned address, if the block ends inside the region.\<close>

lemma alloc_spec:
  assumes "bump_inv hi b" and "ly_align l = 2 ^ k" and "k < 32" and "ba_ptr b = Some ptr"
  shows "alloc b l =
    (if round_up k (unat ptr) + unat (ly_size l) \<le> hi
     then (word_of_nat (round_up k (unat ptr)),
           \<lparr>ba_ptr = Some (word_of_nat (round_up k (unat ptr) + unat (ly_size l))),
            ba_size = word_of_nat (hi - (round_up k (unat ptr) + unat (ly_size l)))\<rparr>)
     else (0, b))"
proof -
  define r pad where "r = round_up k (unat ptr)" and "pad = align_up ptr (2 ^ k) - ptr"
  have pad: "unat pad = r - unat ptr" by (simp add: pad_def r_def unat_padding assms(3))
  have r: "unat ptr \<le> r" by (simp add: r_def round_up_bounds)
  from assms(1,4) have hi: "unat ptr + unat (ba_size b) = hi" "hi < 2 ^ 32"
    by (simp_all add: bump_inv_def)
  have al: "align_up ptr (2 ^ k) = word_of_nat r" by (simp add: r_def align_up_round_up assms(3))
  have unfolded: "alloc b l =
    (case checked_add pad (ly_size l) of None \<Rightarrow> (0, b)
     | Some tot \<Rightarrow> if tot \<le> ba_size b
         then (word_of_nat r, \<lparr>ba_ptr = Some (word_of_nat r + ly_size l), ba_size = ba_size b - tot\<rparr>)
         else (0, b))"
    using assms(2,4) by (cases b) (simp add: alloc_def Let_def pad_def al split: option.split)
  show ?thesis
  proof (cases "r + unat (ly_size l) \<le> hi")
    case True
    then have c: "checked_add pad (ly_size l) = Some (pad + ly_size l)"
      and t: "unat (pad + ly_size l) = r + unat (ly_size l) - unat ptr"
      using pad r hi by (simp_all add: checked_add_def unat_u32_add_nowrap)
    have le: "pad + ly_size l \<le> ba_size b"
      using t True hi by (simp add: word_le_nat_alt)
    have "ba_size b - (pad + ly_size l) = word_of_nat (hi - (r + unat (ly_size l)))"
    proof -
      have "hi - (r + unat (ly_size l)) = unat (ba_size b - (pad + ly_size l))"
        using le t hi r by (simp add: unat_sub)
      then show ?thesis by simp
    qed
    with True show ?thesis
      by (simp add: unfolded c le r_def [symmetric] del: of_nat_diff)
  next
    case False
    have "\<not> tot \<le> ba_size b" if "checked_add pad (ly_size l) = Some tot" for tot
      using checked_add_Some [OF that] False hi pad r by (simp add: word_le_nat_alt)
    with False show ?thesis
      by (auto simp: unfolded r_def [symmetric] split: option.split)
  qed
qed


section \<open>The allocator provides the allocation interface\<close>

text \<open>Everything below the pointer counts as used.\<close>

definition bump_used :: "BumpAllocator \<Rightarrow> nat set" where
  "bump_used b = (case ba_ptr b of None \<Rightarrow> {} | Some p \<Rightarrow> {..<unat p})"

lemma alloc_None: "ba_ptr b = None \<Longrightarrow> alloc b l = (0, b)"
  by (simp add: alloc_def)

lemma word_of_nat_bounded:
  assumes "n \<le> hi" and "hi < 2 ^ 32"
  shows "unat (word_of_nat n :: u32) = n"
  using assms by (simp add: unat_of_nat)

lemma alloc_cases:
  assumes "bump_inv hi b" and "valid_layout l" and "alloc b l = (p, b')"
  obtains (null) "p = 0" and "b' = b"
  | (blk) k ptr where "k < 32" and "ly_align l = 2 ^ k" and "ba_ptr b = Some ptr" and "p \<noteq> 0"
      and "unat p = round_up k (unat ptr)" and "unat p + unat (ly_size l) \<le> hi"
      and "ba_ptr b' = Some (word_of_nat (unat p + unat (ly_size l)))"
      and "ba_size b' = word_of_nat (hi - (unat p + unat (ly_size l)))"
proof (cases "ba_ptr b")
  case None
  with assms(3) null show thesis by (simp add: alloc_None)
next
  case (Some ptr)
  from assms(2) obtain k where k: "k < 32" "ly_align l = 2 ^ k" by (auto simp: valid_layout_def)
  note spec = alloc_spec [OF assms(1) k(2,1) Some]
  show thesis
  proof (cases "round_up k (unat ptr) + unat (ly_size l) \<le> hi")
    case True
    have hi: "hi < 2 ^ 32" and nz: "0 < unat ptr"
      using assms(1) Some by (simp_all add: bump_inv_def word_neq_0_conv unat_gt_0)
    from True have "round_up k (unat ptr) \<le> hi" by simp
    note u = word_of_nat_bounded [OF this hi]
    with True spec assms(3) have p: "unat p = round_up k (unat ptr)" by auto
    have "p \<noteq> 0" using p nz round_up_bounds(1) [where n = "unat ptr" and k = k] by auto
    with True spec assms(3) p k Some show thesis by (intro blk) auto
  next
    case False
    with spec assms(3) null show thesis by simp
  qed
qed

lemma bump_inv_alloc:
  assumes "bump_inv hi b" and "valid_layout l" and "alloc b l = (p, b')"
  shows "bump_inv hi b'"
  using assms
proof (cases rule: alloc_cases)
  case null
  with assms(1) show ?thesis by simp
next
  case (blk k ptr)
  have hi: "hi < 2 ^ 32" using assms(1) by (simp add: bump_inv_def)
  note u = word_of_nat_bounded [OF blk(6) hi]
  have "unat (word_of_nat (hi - (unat p + unat (ly_size l))) :: u32) = hi - (unat p + unat (ly_size l))"
    by (rule word_of_nat_bounded [OF _ hi]) simp
  moreover have "0 < unat p" using blk(4) by (simp add: unat_gt_0)
  ultimately show ?thesis using blk hi u by (simp add: bump_inv_def flip: unat_gt_0)
qed

lemma alloc_block:
  assumes "bump_inv hi b" and "valid_layout l" and "alloc b l = (p, b')" and "p \<noteq> 0"
  shows "block p l \<inter> bump_used b = {}" and "block p l \<union> bump_used b \<subseteq> bump_used b'"
    and "unat (ly_align l) dvd unat p" and "unat p + unat (ly_size l) \<le> hi"
proof -
  from assms(1) have hi: "hi < 2 ^ 32" by (simp add: bump_inv_def)
  from assms(1-3) obtain k ptr where k: "k < 32" "ly_align l = 2 ^ k" and ptr: "ba_ptr b = Some ptr"
    and p: "unat p = round_up k (unat ptr)" and le: "unat p + unat (ly_size l) \<le> hi"
    and b': "ba_ptr b' = Some (word_of_nat (unat p + unat (ly_size l)))"
    by (rule alloc_cases) (use assms(4) in auto)
  note up = round_up_bounds(1) [where n = "unat ptr" and k = k, folded p]
  from ptr up show "block p l \<inter> bump_used b = {}" by (auto simp: block_def bump_used_def)
  from ptr b' up word_of_nat_bounded [OF le hi] show "block p l \<union> bump_used b \<subseteq> bump_used b'"
    by (auto simp: block_def bump_used_def)
  show "unat (ly_align l) dvd unat p" by (simp add: k unat_pow2 p round_up_dvd)
  show "unat p + unat (ly_size l) \<le> hi" by (rule le)
qed

lemma alloc_null:
  assumes "bump_inv hi b" and "valid_layout l" and "alloc b l = (0, b')"
  shows "b' = b"
  using assms by (auto elim: alloc_cases)

interpretation heap: global_alloc alloc bump_used "bump_inv hi" for hi
  by unfold_locales (rule alloc_null alloc_block bump_inv_alloc; assumption)+

section \<open>Properties\<close>

text \<open>C22: An allocation returns the least aligned address at or above the pointer whose block ends
  inside the region, and moves the pointer behind the block; when there is none it returns null
  and leaves the allocator as it was.\<close>

theorem alloc_is_least_fit:
  assumes "ptr \<noteq> 0" and "unat ptr + unat avail < 2 ^ 32" and "k < 32"
    and "alloc \<lparr>ba_ptr = Some ptr, ba_size = avail\<rparr> \<lparr>ly_size = sz, ly_align = 2 ^ k\<rparr> = (p, b)"
  defines "candidates \<equiv> {a. 2 ^ k dvd a \<and> unat ptr \<le> a \<and> a + unat sz \<le> unat ptr + unat avail}"
  shows "if candidates = {} then p = 0 \<and> b = \<lparr>ba_ptr = Some ptr, ba_size = avail\<rparr>
         else unat p \<in> candidates \<and> (\<forall>a \<in> candidates. unat p \<le> a) \<and>
              ba_ptr b = Some (p + sz) \<and> unat (p + sz) + unat (ba_size b) = unat ptr + unat avail"
proof -
  let ?b = "\<lparr>ba_ptr = Some ptr, ba_size = avail\<rparr>" and ?l = "\<lparr>ly_size = sz, ly_align = 2 ^ k\<rparr>"
  let ?hi = "unat ptr + unat avail" and ?r = "round_up k (unat ptr)"
  have inv: "bump_inv ?hi ?b" using assms(1,2) by (simp add: bump_inv_def)
  have spec: "(p, b) = (if ?r + unat sz \<le> ?hi
      then (word_of_nat ?r, \<lparr>ba_ptr = Some (word_of_nat (?r + unat sz)),
                             ba_size = word_of_nat (?hi - (?r + unat sz))\<rparr>)
      else (0, ?b))"
    using alloc_spec [OF inv, where l = ?l and k = k and ptr = ptr] assms(3,4) by simp
  have least: "?r \<le> a" if "a \<in> candidates" for a
    using that round_up_least by (auto simp: candidates_def)
  show ?thesis
  proof (cases "?r + unat sz \<le> ?hi")
    case True
    have "?r \<in> candidates"
      using True by (simp add: candidates_def round_up_bounds(1) round_up_dvd)
    moreover have p: "unat p = ?r" and ps: "unat (p + sz) = ?r + unat sz"
      and "ba_ptr b = Some (p + sz)" and "unat (ba_size b) = ?hi - (?r + unat sz)"
      using True spec assms(2) word_of_nat_bounded [of ?r ?hi]
        word_of_nat_bounded [OF True assms(2)]
        word_of_nat_bounded [of "?hi - (?r + unat sz)" ?hi]
      by (auto simp del: of_nat_diff)
    ultimately show ?thesis using least True by auto
  next
    case False
    then have "candidates = {}" using least by (fastforce simp: candidates_def)
    with False spec show ?thesis by simp
  qed
qed

theorem alloc_is_least_fit_witness:
  "alloc \<lparr>ba_ptr = Some 0x80000003, ba_size = 0x100000\<rparr> \<lparr>ly_size = 64, ly_align = 2 ^ 2\<rparr> =
     (0x80000004, \<lparr>ba_ptr = Some 0x80000044, ba_size = 0xFFFBF\<rparr>) \<and>
   0x80000004 \<in> {a. 2 ^ 2 dvd a \<and> 0x80000003 \<le> a \<and> a + 64 \<le> (0x80100003 :: nat)}"
proof -
  have a: "alloc \<lparr>ba_ptr = Some 0x80000003, ba_size = 0x100000\<rparr> \<lparr>ly_size = 64, ly_align = 2 ^ 2\<rparr> =
     (0x80000004, \<lparr>ba_ptr = Some 0x80000044, ba_size = 0xFFFBF\<rparr>)"
    by (simp add: alloc_def align_up_def checked_add_def)
  have "(0x80000003 :: u32) \<noteq> 0" and "unat (0x80000003 :: u32) + unat (0x100000 :: u32) < 2 ^ 32"
    and "(2 :: nat) < 32" by simp_all
  from alloc_is_least_fit [OF this a] a show ?thesis by (simp split: if_splits)
qed

text \<open>C23: Over a region inside the address space, the blocks of any sequence of allocations that
  did not fail are pairwise disjoint and avoid everything allocated before.\<close>

theorem allocations_disjoint:
  assumes "ptr \<noteq> 0" and "unat ptr + unat sz < 2 ^ 32" and "\<forall>l \<in> set ls. valid_layout l"
    and "allocs alloc (bump_new ptr sz) ls = (bs, t)"
  shows "disjoint_list bs \<and> (\<forall>b \<in> set bs. b \<inter> {..<unat ptr} = {})"
  using heap.allocs_disjoint [OF bump_inv_new [OF assms(1,2)] assms(3,4)]
  by (simp add: bump_used_def bump_new_def)

theorem allocations_disjoint_witness:
  "\<exists>t. allocs alloc (bump_new 0x80000000 0x100)
      [\<lparr>ly_size = 64, ly_align = 2 ^ 2\<rparr>, \<lparr>ly_size = 300, ly_align = 2 ^ 2\<rparr>, \<lparr>ly_size = 5, ly_align = 2 ^ 3\<rparr>] =
     ([{0x80000000..<0x80000040}, {0x80000040..<0x80000045}], t) \<and>
   disjoint_list [{0x80000000..<0x80000040}, {0x80000040..<0x80000045 :: nat}]"
proof -
  let ?ls = "[\<lparr>ly_size = 64, ly_align = 2 ^ 2\<rparr>, \<lparr>ly_size = 300, ly_align = 2 ^ 2\<rparr>, \<lparr>ly_size = 5, ly_align = 2 ^ 3\<rparr>]"
  obtain t where t: "allocs alloc (bump_new 0x80000000 0x100) ?ls =
     ([{0x80000000..<0x80000040}, {0x80000040..<0x80000045}], t)"
    by (simp add: alloc_def align_up_def checked_add_def bump_new_def block_def)
  have "valid_layout \<lparr>ly_size = n, ly_align = 2 ^ k\<rparr>" if "k < 32" for n k
    using that by (auto simp: valid_layout_def)
  then have v: "\<forall>l \<in> set ?ls. valid_layout l" by (simp del: power_numeral)
  have "(0x80000000 :: u32) \<noteq> 0" and "unat (0x80000000 :: u32) + unat (0x100 :: u32) < 2 ^ 32" by simp_all
  from allocations_disjoint [OF this v t] t show ?thesis by blast
qed

end
