(* ===== verification/Interceptor.thy ===== *)
theory Interceptor
  imports Thumb2 Shared Bump
begin

text \<open>
  Function hooking, \<open>payloads/interceptor/src/lib.rs\<close>: \<open>replace\<close> relocates the first instructions
  of a function into a trampoline and patches a jump over them, \<open>revert\<close> takes the hook out,
  \<open>original\<close> finds the trampoline, and the \<open>hook!\<close> macro wraps them with a static address. The
  allocator behind \<open>alloc::alloc\<close> is an argument; what it must promise is the locale
  \<open>global_alloc\<close>. The vectors of the pool are lists: their storage is not taken from that heap. A value \<open>None\<close> stands for a cache flush that does not return, which is shown not
  to happen.
\<close>

section \<open>State\<close>

datatype InterceptErr = UnsupportedMode | TrampolineNotFound

record Trampoline =
  tr_address :: u32
  tr_jump_address :: u32

record InterceptorPool =
  ip_address :: "u32 list"
  ip_trampoline :: "Trampoline list"

text \<open>The memory, the pool, the heap behind the global allocator and the cache operations issued.\<close>

record 'h istate =
  is_mem :: mem
  is_pool :: InterceptorPool
  is_heap :: 'h
  is_cache :: "cache_op list"

definition interceptor_init :: "'h istate \<Rightarrow> 'h istate" where
  "interceptor_init s = s\<lparr>is_pool := \<lparr>ip_address = [], ip_trampoline = []\<rparr>\<rparr>"

definition unmask_thumb2 :: "u32 \<Rightarrow> u32" where
  "unmask_thumb2 addr = addr AND NOT 1"

section \<open>Relocation\<close>

text \<open>One turn of the loop: \<open>n\<close> bytes of the target are done, the reader is behind them.\<close>

definition pc_aligned :: "u32 \<Rightarrow> nat \<Rightarrow> u32" where
  "pc_aligned t n = (t + word_of_nat n + 4) AND NOT 3"

definition relocate_step :: "u32 \<Rightarrow> nat \<times> reader \<times> writer \<Rightarrow> nat \<times> reader \<times> writer" where
  "relocate_step t = (\<lambda>(n, rd, w).
     let m = fst w in
     if is_32bit m rd then
       if is_ldr_w m rd then
         let (d, rd) = read_ldr_w m rd;
             literal_address = (if lw_add d then pc_aligned t n + lw_imm d else pc_aligned t n - lw_imm d);
             v = read32_unchecked m literal_address;
             w = movw (lw_r d) (ucast (v AND 0xFFFF)) w;
             w = movt (lw_r d) (ucast (drop_bit 16 v)) w
         in (n + 4, rd, w)
       else (n + 4, skip rd 2, writer_copy rd 4 w)
     else
       if is_ldr m rd then
         let (d, rd) = read_ldr m rd;
             literal_address = pc_aligned t n + ri_imm d;
             v = read32_unchecked m literal_address;
             w = movw (ri_r d) (ucast (v AND 0xFFFF)) w;
             w = movt (ri_r d) (ucast (drop_bit 16 v)) w
         in (n + 2, rd, w)
       else
         let (v, rd) = reader_read16 m rd in (n + 2, rd, writer_write16 v w))"

lemma relocate_step_less: "fst s < fst (relocate_step t s)"
  by (cases s) (simp add: relocate_step_def Let_def split: prod.splits)

function relocate :: "u32 \<Rightarrow> nat \<Rightarrow> nat \<times> reader \<times> writer \<Rightarrow> nat \<times> reader \<times> writer" where
  "relocate t sz s = (if fst s < sz then relocate t sz (relocate_step t s) else s)"
  by pat_completeness auto
termination
  by (relation "measure (\<lambda>(t, sz, s). sz - fst s)") (use relocate_step_less in \<open>auto intro: diff_less_mono2\<close>)

declare relocate.simps [simp del]

section \<open>Operations\<close>

definition replace :: "('h \<Rightarrow> Layout \<Rightarrow> u32 \<times> 'h) \<Rightarrow> u32 \<Rightarrow> u32 \<Rightarrow> 'h istate \<Rightarrow>
    ((InterceptErr + unit) \<times> 'h istate) option" where
  "replace allocate target replacement s =
     (if target AND 1 = 0 then Some (Inl UnsupportedMode, s)
      else
        let target_ptr = unmask_thumb2 target;
            sz = (if target mod 4 \<noteq> 0 then 10 else 8);
            (code, heap) = allocate (is_heap s) \<lparr>ly_size = 64, ly_align = 4\<rparr>;
            w = (is_mem s, code);
            w = (if is_aligned32 w then w else nop w);
            (n, rd, w) = relocate target_ptr sz (0, target_ptr, w);
            w = (if is_aligned32 w then w else nop w);
            jump_address = rd OR 1;
            w = jumpout jump_address w
        in Option.bind (flush_cache code 64) (\<lambda>ops1.
        let pool = \<lparr>ip_address = ip_address (is_pool s) @ [target_ptr],
                    ip_trampoline = ip_trampoline (is_pool s) @
                      [\<lparr>tr_address = code, tr_jump_address = jump_address\<rparr>]\<rparr>;
            w = (fst w, target_ptr);
            w = (if is_aligned32 w then w else nop w);
            w = jumpout (replacement OR 1) w
        in Option.bind (flush_cache target 64) (\<lambda>ops2.
        Some (Inr (), \<lparr>is_mem = fst w, is_pool = pool, is_heap = heap,
                       is_cache = is_cache s @ ops1 @ ops2\<rparr>))))"

text \<open>\<open>position\<close> of the standard library's iterators.\<close>

fun position :: "('a \<Rightarrow> bool) \<Rightarrow> 'a list \<Rightarrow> nat option" where
  "position P [] = None"
| "position P (x # xs) = (if P x then Some 0 else map_option Suc (position P xs))"

definition remove_at :: "nat \<Rightarrow> 'a list \<Rightarrow> 'a list" where
  "remove_at i xs = take i xs @ drop (Suc i) xs"

definition revert :: "u32 \<Rightarrow> 'h istate \<Rightarrow> ((InterceptErr + unit) \<times> 'h istate) option" where
  "revert target s =
     (if target AND 1 = 0 then Some (Inl UnsupportedMode, s)
      else
        let pool = is_pool s; target = unmask_thumb2 target
        in case position (\<lambda>addr. addr = target) (ip_address pool) of
             None \<Rightarrow> Some (Inl TrampolineNotFound, s)
           | Some i \<Rightarrow>
               let trampoline = ip_trampoline pool ! i;
                   sz = tr_jump_address trampoline - target;
                   m = copy_nonoverlapping (is_mem s) (tr_address trampoline) target (unat sz)
               in Option.bind (flush_cache target sz) (\<lambda>ops.
                  Some (Inr (), s\<lparr>is_mem := m,
                    is_pool := \<lparr>ip_address = remove_at i (ip_address pool),
                                ip_trampoline = remove_at i (ip_trampoline pool)\<rparr>,
                    is_cache := is_cache s @ ops\<rparr>)))"

definition original :: "u32 \<Rightarrow> 'h istate \<Rightarrow> u32 option" where
  "original target s =
     map_option (\<lambda>i. tr_address (ip_trampoline (is_pool s) ! i))
       (position (\<lambda>addr. addr = unmask_thumb2 target) (ip_address (is_pool s)))"

text \<open>The module the \<open>hook!\<close> macro generates: its static \<open>ADDR\<close> beside the interceptor's state.\<close>

definition hook_replace :: "('h \<Rightarrow> Layout \<Rightarrow> u32 \<times> 'h) \<Rightarrow> u32 \<Rightarrow> u32 \<Rightarrow> u32 \<times> 'h istate \<Rightarrow>
    ((InterceptErr + unit) \<times> u32 \<times> 'h istate) option" where
  "hook_replace allocate body target = (\<lambda>(ADDR, s).
     map_option (\<lambda>(r, s). case r of Inl e \<Rightarrow> (Inl e, ADDR, s) | Inr _ \<Rightarrow> (Inr (), target, s))
       (replace allocate target body s))"

definition hook_revert :: "u32 \<times> 'h istate \<Rightarrow> ((InterceptErr + unit) \<times> u32 \<times> 'h istate) option" where
  "hook_revert = (\<lambda>(ADDR, s).
     map_option (\<lambda>(r, s). case r of Inl e \<Rightarrow> (Inl e, ADDR, s) | Inr _ \<Rightarrow> (Inr (), 0, s)) (revert ADDR s))"

definition hook_original :: "u32 \<times> 'h istate \<Rightarrow> u32" where
  "hook_original = (\<lambda>(ADDR, s). case original ADDR s of None \<Rightarrow> ADDR | Some a \<Rightarrow> a)"

section \<open>What is relocated\<close>

text \<open>
  The instructions at the target as data, and the halfwords each becomes. A load of a literal
  becomes two moves, which want a multiple of four and so may cost a no-operation.
\<close>

datatype insn = Plain16 u16 | Plain32 u16 u16 | Literal16 u8 u32 | Literal32 u8 u32

fun insn_width :: "insn \<Rightarrow> nat" where
  "insn_width (Plain16 _) = 2"
| "insn_width (Literal16 _ _) = 2"
| "insn_width (Plain32 _ _) = 4"
| "insn_width (Literal32 _ _) = 4"

definition literal16_address :: "mem \<Rightarrow> u32 \<Rightarrow> nat \<Rightarrow> u32" where
  "literal16_address m t n = pc_aligned t n + ri_imm (fst (read_ldr m (t + word_of_nat n)))"

definition literal32_address :: "mem \<Rightarrow> u32 \<Rightarrow> nat \<Rightarrow> u32" where
  "literal32_address m t n =
     (let d = fst (read_ldr_w m (t + word_of_nat n))
      in if lw_add d then pc_aligned t n + lw_imm d else pc_aligned t n - lw_imm d)"

definition insn_at :: "mem \<Rightarrow> u32 \<Rightarrow> nat \<Rightarrow> insn" where
  "insn_at m t n =
     (let p = t + word_of_nat n
      in if is_32bit m p then
           if is_ldr_w m p
           then Literal32 (lw_r (fst (read_ldr_w m p))) (read32_unchecked m (literal32_address m t n))
           else Plain32 (read16 m p) (read16 m (p + 2))
         else if is_ldr m p
         then Literal16 (ri_r (fst (read_ldr m p))) (read32_unchecked m (literal16_address m t n))
         else Plain16 (read16 m p))"

lemma insn_width_pos [simp]: "0 < insn_width i"
  by (cases i) simp_all

function insns_from :: "mem \<Rightarrow> u32 \<Rightarrow> nat \<Rightarrow> nat \<Rightarrow> insn list" where
  "insns_from m t sz n =
     (if n < sz then insn_at m t n # insns_from m t sz (n + insn_width (insn_at m t n)) else [])"
  by pat_completeness auto
termination
  by (relation "measure (\<lambda>(m, t, sz, n). sz - n)") (auto intro: diff_less_mono2)

declare insns_from.simps [simp del]

definition even_pad :: "u16 list \<Rightarrow> u16 list" where
  "even_pad hs = (if even (length hs) then [] else [0xbf00])"

fun relocated :: "u16 list \<Rightarrow> insn \<Rightarrow> u16 list" where
  "relocated hs (Plain16 h) = hs @ [h]"
| "relocated hs (Plain32 h k) = hs @ [h, k]"
| "relocated hs (Literal16 r v) = hs @ even_pad hs @ literal_moves r v"
| "relocated hs (Literal32 r v) = hs @ even_pad hs @ literal_moves r v"

definition width :: "insn list \<Rightarrow> nat" where
  "width is = sum_list (map insn_width is)"

definition jump_halves :: "u32 \<Rightarrow> u16 list" where
  "jump_halves a = word_halves 0xf000f8df @ word_halves a"

definition trampoline_code :: "mem \<Rightarrow> u32 \<Rightarrow> u16 list" where
  "trampoline_code m t =
     (let is = insns_from m t 10 0; hs = foldl relocated [] is
      in hs @ even_pad hs @ jump_halves ((t + word_of_nat (width is)) OR 1))"

text \<open>The trampoline fits: at most eight bytes per two bytes of the target, pads included, and at
  most twelve bytes of the target.\<close>

lemma length_word_halves [simp]: "length (word_halves v) = 2"
  by (simp add: word_halves_def)

lemma length_literal_moves [simp]: "length (literal_moves r v) = 4"
  by (simp add: literal_moves_def)

lemma length_jump_halves [simp]: "length (jump_halves v) = 4"
  by (simp add: jump_halves_def)

definition weight :: "u16 list \<Rightarrow> nat" where
  "weight hs = length hs + (if even (length hs) then 0 else 1)"

lemma weight_relocated: "weight (relocated hs i) \<le> weight hs + 2 * insn_width i"
  by (cases i) (auto simp: weight_def even_pad_def)

lemma weight_foldl: "weight (foldl relocated hs is) \<le> weight hs + 2 * width is"
proof (induction "is" arbitrary: hs)
  case (Cons i "is")
  from Cons [of "relocated hs i"] weight_relocated [of hs i] show ?case by (simp add: width_def)
qed (simp add: width_def)

lemma width_insns: "n < sz \<Longrightarrow> sz \<le> n + width (insns_from m t sz n) \<and> n + width (insns_from m t sz n) < sz + 4"
proof (induction m t sz n rule: insns_from.induct)
  case (1 m t sz n)
  let ?n = "n + insn_width (insn_at m t n)"
  have w: "insn_width (insn_at m t n) \<le> 4" "0 < insn_width (insn_at m t n)" by (cases "insn_at m t n"; simp)+
  have "width (insns_from m t sz n) = insn_width (insn_at m t n) + width (insns_from m t sz ?n)"
    using 1(2) by (subst insns_from.simps) (simp add: width_def)
  moreover have "width (insns_from m t sz ?n) = 0" if "\<not> ?n < sz"
    using that by (subst insns_from.simps) (simp add: width_def)
  ultimately show ?case using 1 w by (cases "?n < sz") auto
qed

lemma even_width: "even (width is)"
proof (induction "is")
  case (Cons i "is")
  then show ?case by (cases i) (simp_all add: width_def)
qed (simp add: width_def)

lemma width_target: "width (insns_from m t 10 0) \<in> {10, 12}"
  using width_insns [of 0 10 m t] even_width [of "insns_from m t 10 0"] by auto

lemma length_trampoline_code: "length (trampoline_code m t) \<le> 28"
proof -
  let ?is = "insns_from m t 10 0"
  have "weight (foldl relocated [] ?is) \<le> 24"
    using weight_foldl [of "[]" ?is] width_target [of m t] by (auto simp: weight_def)
  then show ?thesis
    by (auto simp: trampoline_code_def Let_def weight_def even_pad_def split: if_splits)
qed

section \<open>The loop relocates the instructions of the target\<close>

lemma written_copy:
  assumes "written m code hs w"
  shows "written m code (hs @ [read16 (fst w) a, read16 (fst w) (a + 2)]) (writer_copy a 4 w)"
proof -
  have "load_bytes (fst w) a 4 = load_bytes (fst w) a 2 @ load_bytes (fst w) (a + 2) 2"
    using ram.load_append [of "fst w" a 2 2] by simp
  then have "load_bytes (fst w) a 4 = code_bytes [read16 (fst w) a, read16 (fst w) (a + 2)]"
    by (simp add: le16_read16)
  then show ?thesis
    using assms by (simp add: written_def writer_copy_def copy_nonoverlapping_def ram.store_append algebra_simps)
qed

lemma even_pad: "unat code mod 4 = 0 \<Longrightarrow> pad code hs = even_pad hs"
  by (simp add: pad_even even_pad_def)

lemma halves_of_value: "ucast (v AND 0xFFFF) = lo16 v" "ucast (drop_bit 16 v) = hi16 v"
  unfolding lo16_def hi16_def mask_literals
  by (rule bit_word_eqI, auto simp: bit_simps)+

lemma relocate_step_insn:
  assumes "written m code hs w" and "unat code mod 4 = 0"
    and i_def: "i = insn_at (fst w) t n"
  shows "\<exists>w'. relocate_step t (n, t + word_of_nat n, w) = (n + insn_width i, t + word_of_nat (n + insn_width i), w') \<and>
    written m code (relocated hs i) w'"
proof -
  have ev: "even (unat code)" using assms(2) by presburger
  note lit = written_literal [OF assms(1) ev, unfolded even_pad [OF assms(2)]]
  let ?p = "t + word_of_nat n"
  have add: "?p + 2 = t + word_of_nat (n + 2)" "?p + 2 + 2 = t + word_of_nat (n + 4)" "?p + 4 = t + word_of_nat (n + 4)"
    by (simp_all add: add.assoc)
  consider (l32) "is_32bit (fst w) ?p" "is_ldr_w (fst w) ?p" | (p32) "is_32bit (fst w) ?p" "\<not> is_ldr_w (fst w) ?p"
    | (l16) "\<not> is_32bit (fst w) ?p" "is_ldr (fst w) ?p" | (p16) "\<not> is_32bit (fst w) ?p" "\<not> is_ldr (fst w) ?p"
    by blast
  then show ?thesis
  proof cases
    case l32
    then show ?thesis
      using lit [of "lw_r (fst (read_ldr_w (fst w) ?p))" "read32_unchecked (fst w) (literal32_address (fst w) t n)"]
      by (simp add: i_def insn_at_def Let_def relocate_step_def halves_of_value literal32_address_def read_ldr_w_def
        reader_read16_def skip_def add split: prod.splits)
  next
    case p32
    then show ?thesis
      using written_copy [OF assms(1), of ?p]
      by (simp add: i_def insn_at_def Let_def relocate_step_def skip_def add)
  next
    case l16
    then show ?thesis
      using lit [of "ri_r (fst (read_ldr (fst w) ?p))" "read32_unchecked (fst w) (literal16_address (fst w) t n)"]
      by (simp add: i_def insn_at_def Let_def relocate_step_def halves_of_value literal16_address_def read_ldr_def
        reader_read16_def skip_def add split: prod.splits)
  next
    case p16
    then show ?thesis
      using written_write16 [OF assms(1), of "read16 (fst w) ?p"]
      by (simp add: i_def insn_at_def Let_def relocate_step_def reader_read16_def skip_def poke16_def add)
  qed
qed

text \<open>
  All the loop reads, the target and the literals within reach of it, lies in a window around the
  target. A trampoline apart from the window leaves the reads alone.
\<close>

definition window_apart :: "u32 \<Rightarrow> u32 \<Rightarrow> bool" where
  "window_apart t code \<longleftrightarrow> apart (t - 4096) 8224 code 64"

definition undisturbed :: "mem \<Rightarrow> u32 \<Rightarrow> mem \<Rightarrow> bool" where
  "undisturbed m t m' \<longleftrightarrow> (\<forall>k j. k + j \<le> 8224 \<longrightarrow>
     load_bytes m' (t - 4096 + word_of_nat k) j = load_bytes m (t - 4096 + word_of_nat k) j)"

lemma undisturbed_written:
  assumes "written m code hs w" and "window_apart t code" and "length hs \<le> 32"
  shows "undisturbed m t (fst w)"
  unfolding undisturbed_def
proof (intro allI impI)
  fix k j :: nat assume "k + j \<le> 8224"
  with assms have "apart (t - 4096 + word_of_nat k) j code (length (code_bytes hs))"
    unfolding window_apart_def by (intro apart_part [of "t - 4096" 8224 code 64]) simp_all
  with assms show "load_bytes (fst w) (t - 4096 + word_of_nat k) j = load_bytes m (t - 4096 + word_of_nat k) j"
    unfolding written_def by (simp add: ram.load_store_apart)
qed

lemma undisturbed_read16:
  assumes "undisturbed m t m'" and "n \<le> 16"
  shows "read16 m' (t + word_of_nat n) = read16 m (t + word_of_nat n)"
  using assms(1) [unfolded undisturbed_def, rule_format, of "4096 + n" 2] assms(2)
  by (simp add: read16_def algebra_simps)

lemma undisturbed_read32:
  assumes "undisturbed m t m'" and "d \<le> 4116" 
  shows "read32_unchecked m' (t + word_of_nat d) = read32_unchecked m (t + word_of_nat d)"
    and "d \<le> 4096 \<Longrightarrow> read32_unchecked m' (t - word_of_nat d) = read32_unchecked m (t - word_of_nat d)"
  using assms(1) [unfolded undisturbed_def, rule_format, of "4096 + d" 4]
    assms(1) [unfolded undisturbed_def, rule_format, of "4096 - d" 4] assms(2)
  by (simp_all add: read32_unchecked_def algebra_simps)

lemma pc_aligned_offset: "\<exists>k. 1 \<le> k \<and> k \<le> 4 \<and> pc_aligned t n = t + word_of_nat (n + k)"
proof -
  define x where "x = t + word_of_nat n + 4"
  define k where "k = 4 - unat x mod 4"
  have m: "(NOT 3 :: u32) = NOT (mask 2)" by (simp add: mask_eq_exp_minus_1)
  have "x AND NOT (mask 2) = x - take_bit 2 x"
    by (metis add_diff_cancel_right' bits_ident word_and_not_mask)
  also have "take_bit 2 x = word_of_nat (unat x mod 4)"
    by (simp add: word_unat_eq_iff unsigned_take_bit_eq unat_of_nat) (simp add: take_bit_eq_mod)
  also have "x - word_of_nat (unat x mod 4) = t + word_of_nat n + word_of_nat k"
    by (simp add: x_def k_def of_nat_diff less_imp_le)
  finally have "pc_aligned t n = t + word_of_nat (n + k)"
    unfolding pc_aligned_def x_def [symmetric] m by simp
  moreover have "1 \<le> k" "k \<le> 4" by (simp_all add: k_def Suc_le_eq)
  ultimately show ?thesis by blast
qed

lemma imm_bounds:
  "unat (ri_imm (fst (read_ldr m p))) \<le> 1020" "unat (lw_imm (fst (read_ldr_w m p))) \<le> 4095"
proof -
  have "unat (x AND 0xFF :: u16) \<le> 255" "unat (x AND 0xFFF :: u16) \<le> 4095" for x
    using word_and_le1 [of x "0xFF"] word_and_le1 [of x "0xFFF"] by (simp_all add: word_le_nat_alt)
  note b = this
  show "unat (ri_imm (fst (read_ldr m p))) \<le> 1020"
    using b(1) [of "read16 m p"]
    by (simp add: read_ldr_def reader_read16_def poke16_def push_bit_eq_mult unat_word_ariths
      unsigned_ucast_eq take_bit_eq_mod)
  show "unat (lw_imm (fst (read_ldr_w m p))) \<le> 4095"
    using b(2) [of "read16 m (skip p 1)"]
    by (simp add: read_ldr_w_def reader_read16_def poke16_def unsigned_ucast_eq take_bit_eq_mod)
qed

lemma undisturbed_literal:
  assumes u: "undisturbed m t m'" and "d \<le> 13"
  shows "unat i \<le> 4095 \<Longrightarrow> read32_unchecked m' (t + word_of_nat d + i) = read32_unchecked m (t + word_of_nat d + i)"
    and "unat i \<le> 4095 \<Longrightarrow> read32_unchecked m' (t + word_of_nat d - i) = read32_unchecked m (t + word_of_nat d - i)"
proof -
  have i: "i = word_of_nat (unat i)" by simp
  assume le: "unat i \<le> 4095"
  then show "read32_unchecked m' (t + word_of_nat d + i) = read32_unchecked m (t + word_of_nat d + i)"
    using undisturbed_read32(1) [OF u, of "d + unat i"] assms(2) by (simp add: algebra_simps)
  show "read32_unchecked m' (t + word_of_nat d - i) = read32_unchecked m (t + word_of_nat d - i)"
  proof (cases "unat i \<le> d")
    case True
    then have e: "t + word_of_nat d - i = t + word_of_nat (d - unat i)"
      by (simp add: of_nat_diff)
    show ?thesis unfolding e by (rule undisturbed_read32(1) [OF u]) (use assms(2) in simp)
  next
    case False
    then have e: "t + word_of_nat d - i = t - word_of_nat (unat i - d)"
      by (simp add: of_nat_diff algebra_simps)
    show ?thesis unfolding e by (rule undisturbed_read32(2) [OF u]) (use le in simp_all)
  qed
qed

lemma undisturbed_insn:
  assumes u: "undisturbed m t m'" and "n < 10"
  shows "insn_at m' t n = insn_at m t n"
proof -
  let ?p = "t + word_of_nat n"
  have r: "read16 m' ?p = read16 m ?p" "read16 m' (?p + 2) = read16 m (?p + 2)"
    using undisturbed_read16 [OF u, of n] undisturbed_read16 [OF u, of "n + 2"] assms(2)
    by (simp_all add: algebra_simps)
  obtain k where k: "1 \<le> k" "k \<le> 4" "pc_aligned t n = t + word_of_nat (n + k)"
    using pc_aligned_offset by blast
  have d16: "read_ldr m' ?p = read_ldr m ?p" and d32: "read_ldr_w m' ?p = read_ldr_w m ?p"
    using r by (simp_all add: read_ldr_def read_ldr_w_def reader_read16_def poke16_def skip_def)
  have a16: "literal16_address m' t n = literal16_address m t n"
    and a32: "literal32_address m' t n = literal32_address m t n"
    by (simp_all add: literal16_address_def literal32_address_def d16 d32)
  have l16: "read32_unchecked m' (literal16_address m t n) = read32_unchecked m (literal16_address m t n)"
    unfolding literal16_address_def k(3) using k(2) assms(2) imm_bounds(1) [of m ?p]
    by (intro undisturbed_literal [OF u]) simp_all
  have l32: "read32_unchecked m' (literal32_address m t n) = read32_unchecked m (literal32_address m t n)"
    unfolding literal32_address_def k(3) Let_def using k(2) assms(2) imm_bounds(2) [of m ?p]
      undisturbed_literal [OF u, of "n + k" "lw_imm (fst (read_ldr_w m ?p))"] by simp
  show ?thesis
    unfolding insn_at_def Let_def is_32bit_def is_ldr_def is_ldr_w_def poke16_def r d16 d32 a16 a32 l16 l32 ..
qed

lemma relocate_sim:
  assumes "written m code hs w" and "unat code mod 4 = 0" and "window_apart t code" and "weight hs \<le> 2 * n"
  defines "r \<equiv> insns_from m t 10 n"
  shows "\<exists>w'. relocate t 10 (n, t + word_of_nat n, w) = (n + width r, t + word_of_nat (n + width r), w') \<and>
    written m code (foldl relocated hs r) w'"
  unfolding r_def using assms(1,3,4)
proof (induction m t "10 :: nat" n arbitrary: hs w rule: insns_from.induct)
  case (1 m t n)
  show ?case
  proof (cases "n < 10")
    case False
    then have "relocate t 10 (n, t + word_of_nat n, w) = (n, t + word_of_nat n, w)" "insns_from m t 10 n = []"
      by (simp_all add: relocate.simps [of t 10 "(n, t + word_of_nat n, w)"] insns_from.simps [of m t 10 n])
    then show ?thesis using "1.prems" by (simp add: width_def)
  next
    case True
    let ?i = "insn_at m t n"
    have "length hs \<le> 32" using "1.prems"(3) True by (auto simp: weight_def split: if_splits)
    with "1.prems"(1,2) have "undisturbed m t (fst w)" by (rule undisturbed_written)
    with True have i: "insn_at (fst w) t n = ?i" by (intro undisturbed_insn)
    from relocate_step_insn [OF "1.prems"(1) assms(2) refl, of t n, unfolded i] obtain w' where
      st: "relocate_step t (n, t + word_of_nat n, w) = (n + insn_width ?i, t + word_of_nat (n + insn_width ?i), w')"
      and w': "written m code (relocated hs ?i) w'" by blast
    have "weight (relocated hs ?i) \<le> 2 * (n + insn_width ?i)"
      using weight_relocated [of hs ?i] "1.prems"(3) by simp
    note IH = "1.hyps" [OF True w' "1.prems"(2) this]
    from True st have "relocate t 10 (n, t + word_of_nat n, w) =
      relocate t 10 (n + insn_width ?i, t + word_of_nat (n + insn_width ?i), w')"
      by (subst relocate.simps) simp
    moreover from True have "insns_from m t 10 n = ?i # insns_from m t 10 (n + insn_width ?i)"
      by (subst insns_from.simps) simp
    ultimately show ?thesis using IH by (simp add: width_def add.assoc)
  qed
qed

section \<open>The operations\<close>

definition patch_code :: "u32 \<Rightarrow> u32 \<Rightarrow> u16 list" where
  "patch_code t replacement = pad t [] @ jump_halves (replacement OR 1)"

definition pool_push :: "u32 \<Rightarrow> Trampoline \<Rightarrow> InterceptorPool \<Rightarrow> InterceptorPool" where
  "pool_push t tr p = \<lparr>ip_address = ip_address p @ [t], ip_trampoline = ip_trampoline p @ [tr]\<rparr>"

definition hooked_width :: "mem \<Rightarrow> u32 \<Rightarrow> nat" where
  "hooked_width m t = width (insns_from m t 10 0)"

lemma odd_target:
  assumes "target AND 1 \<noteq> (0 :: u32)"
  shows "odd (unat target)" and "target mod 4 \<noteq> 0"
    and "unat (unmask_thumb2 target) = unat target - 1" and "even (unat (unmask_thumb2 target))"
proof -
  have m: "(1 :: u32) = mask 1" "(NOT 1 :: u32) = NOT (mask 1)" by (simp_all add: mask_eq_exp_minus_1)
  have "unat (target AND mask 1) = unat target mod 2"
    unfolding take_bit_eq_mask [symmetric] unsigned_take_bit_eq by (simp add: take_bit_eq_mod)
  moreover have "unat (target AND mask 1) \<noteq> 0" using assms m by (simp add: unat_eq_0)
  ultimately show o: "odd (unat target)" by presburger
  then show "target mod 4 \<noteq> 0" by (simp add: word_mod_4_eq_0) presburger
  have "unat (unmask_thumb2 target) = unat target div 2 * 2"
    unfolding unmask_thumb2_def m(2) unat_and_not_mask by simp
  then show "unat (unmask_thumb2 target) = unat target - 1" "even (unat (unmask_thumb2 target))"
    using o by (simp_all add: minus_mod_eq_div_mult [symmetric] odd_iff_mod_2_eq_one)
qed

lemma replace_even: "target AND 1 = 0 \<Longrightarrow> replace allocate target f s = Some (Inl UnsupportedMode, s)"
  by (simp add: replace_def)

lemma replace_odd:
  assumes target: "target AND 1 \<noteq> 0" and t: "t = unmask_thumb2 target"
    and alloc: "allocate (is_heap s) \<lparr>ly_size = 64, ly_align = 4\<rparr> = (code, h)"
    and code: "unat code mod 4 = 0" "window_apart t code"
  shows "\<exists>ops. replace allocate target f s = Some (Inr (), \<lparr>
    is_mem = store_bytes (store_bytes (is_mem s) code (code_bytes (trampoline_code (is_mem s) t)))
      t (code_bytes (patch_code t f)),
    is_pool = pool_push t \<lparr>tr_address = code, tr_jump_address = (t + word_of_nat (hooked_width (is_mem s) t)) OR 1\<rparr> (is_pool s),
    is_heap = h, is_cache = is_cache s @ ops\<rparr>)"
proof -
  let ?m = "is_mem s" and ?is = "insns_from (is_mem s) t 10 0"
  have ev: "even (unat code)" using code(1) by presburger
  have al: "is_aligned32 (?m, code)" using code(1) by (simp add: is_aligned32_def word_mod_4_eq_0)
  obtain w where rel: "relocate t 10 (0, t, (?m, code)) = (width ?is, t + word_of_nat (width ?is), w)"
    and w: "written ?m code (foldl relocated [] ?is) w"
    using relocate_sim [OF written_nil [of ?m code] code, of 0] by (auto simp: weight_def)
  define w' where "w' = (if is_aligned32 w then w else nop w)"
  define j where "j = (t + word_of_nat (width ?is)) OR 1"
  let ?hs = "foldl relocated [] ?is"
  have "written ?m code (?hs @ even_pad ?hs) w'"
    using written_pad [OF w] by (simp add: even_pad [OF code(1)] w'_def)
  from written_jumpout [OF this ev, of j]
  have "written ?m code (trampoline_code ?m t) (jumpout j w')"
    using pad_after_pad(2) [OF ev, of ?hs]
    by (simp add: trampoline_code_def Let_def even_pad [OF code(1)] jump_halves_def j_def)
  then have m1': "fst (jumpout j w') = store_bytes ?m code (code_bytes (trampoline_code ?m t))"
    by (simp add: written_def)
  define m1 where "m1 = fst (jumpout j w')"
  have m1: "m1 = store_bytes ?m code (code_bytes (trampoline_code ?m t))"
    unfolding m1_def by (rule m1')
  have evt: "even (unat t)" unfolding t by (rule odd_target(4) [OF target])
  have "written m1 t (patch_code t f) (jumpout (f OR 1) (if is_aligned32 (m1, t) then (m1, t) else nop (m1, t)))"
    using written_jumpout [OF written_pad [OF written_nil [of m1 t]] evt, of "f OR 1"]
      pad_after_pad(2) [OF evt, of "[]"] by (simp add: patch_code_def jump_halves_def)
  then have m2: "fst (jumpout (f OR 1) (if is_aligned32 (m1, t) then (m1, t) else nop (m1, t))) =
      store_bytes m1 t (code_bytes (patch_code t f))"
    by (simp add: written_def)
  obtain ops1 ops2 where ops: "flush_cache code 64 = Some ops1" "flush_cache target 64 = Some ops2"
    using flush_cache_returns by metis
  have "replace allocate target f s = Some (Inr (), \<lparr>is_mem = store_bytes m1 t (code_bytes (patch_code t f)),
      is_pool = pool_push t \<lparr>tr_address = code, tr_jump_address = j\<rparr> (is_pool s),
      is_heap = h, is_cache = is_cache s @ ops1 @ ops2\<rparr>)"
    using target odd_target(2) [OF target] al m2
    by (simp add: replace_def Let_def alloc rel ops pool_push_def j_def [symmetric] w'_def [symmetric]
      m1_def [symmetric] split: if_splits flip: t)
  then show ?thesis unfolding m1 j_def hooked_width_def by blast
qed

section \<open>The pool as a map to queues\<close>

text \<open>
  Abstractly the pool maps the even address of each function to the trampolines its hooks have left, the oldest
  first. The two vectors run in parallel; a function hooked twice is in them twice.
\<close>

definition pool_ok :: "InterceptorPool \<Rightarrow> bool" where
  "pool_ok p \<longleftrightarrow> length (ip_address p) = length (ip_trampoline p)"

definition queue_of :: "u32 list \<Rightarrow> Trampoline list \<Rightarrow> u32 \<Rightarrow> Trampoline list" where
  "queue_of xs ys t = map snd (filter (\<lambda>x. fst x = t) (zip xs ys))"

definition hooks_of :: "InterceptorPool \<Rightarrow> u32 \<Rightarrow> Trampoline list" where
  "hooks_of p = queue_of (ip_address p) (ip_trampoline p)"

lemma position_Some: "position P xs = Some i \<Longrightarrow> i < length xs \<and> P (xs ! i) \<and> (\<forall>j < i. \<not> P (xs ! j))"
proof (induction xs arbitrary: i)
  case (Cons x xs)
  then show ?case by (cases i) (auto split: if_splits simp: less_Suc_eq_0_disj)
qed simp

lemma position_None: "position P xs = None \<longleftrightarrow> (\<forall>x \<in> set xs. \<not> P x)"
  by (induction xs) auto

lemma remove_at_Suc [simp]: "remove_at (Suc i) (x # xs) = x # remove_at i xs"
  and remove_at_0 [simp]: "remove_at 0 (x # xs) = xs"
  by (simp_all add: remove_at_def)

lemma queue_of_Nil [simp]: "queue_of [] [] t = []"
  and queue_of_Cons [simp]: "queue_of (x # xs) (y # ys) t = (if x = t then [y] else []) @ queue_of xs ys t"
  by (simp_all add: queue_of_def)

lemma queue_of_push:
  "length xs = length ys \<Longrightarrow> queue_of (xs @ [t]) (ys @ [y]) = (queue_of xs ys)(t := queue_of xs ys t @ [y])"
  by (induction xs ys rule: list_induct2) (auto simp: fun_eq_iff)

lemma queue_of_empty:
  "length xs = length ys \<Longrightarrow> queue_of xs ys t = [] \<longleftrightarrow> position (\<lambda>a. a = t) xs = None"
  by (induction xs ys rule: list_induct2) auto

text \<open>The first position of an address is the front of its queue.\<close>

lemma queue_of_position:
  "length xs = length ys \<Longrightarrow> position (\<lambda>a. a = t) xs = Some i \<Longrightarrow>
   i < length ys \<and> queue_of xs ys t = ys ! i # tl (queue_of xs ys t) \<and>
   queue_of (remove_at i xs) (remove_at i ys) = (queue_of xs ys)(t := tl (queue_of xs ys t))"
proof (induction xs ys arbitrary: i rule: list_induct2)
  case (Cons x xs y ys)
  show ?case
  proof (cases "x = t")
    case True
    with Cons.prems show ?thesis by (auto simp: fun_eq_iff)
  next
    case False
    with Cons.prems obtain j where j: "i = Suc j" "position (\<lambda>a. a = t) xs = Some j" by auto
    from Cons.IH [OF j(2)] have "j < length ys" "queue_of xs ys t = ys ! j # tl (queue_of xs ys t)"
      "queue_of (remove_at j xs) (remove_at j ys) = (queue_of xs ys)(t := tl (queue_of xs ys t))" by blast+
    with False j(1) show ?thesis by (auto simp: fun_eq_iff)
  qed
qed simp

lemma original_hooks:
  "pool_ok (is_pool s) \<Longrightarrow> original target s =
     (case hooks_of (is_pool s) (unmask_thumb2 target) of [] \<Rightarrow> None | tr # _ \<Rightarrow> Some (tr_address tr))"
  using queue_of_empty [of "ip_address (is_pool s)" "ip_trampoline (is_pool s)" "unmask_thumb2 target"]
    queue_of_position [of "ip_address (is_pool s)" "ip_trampoline (is_pool s)" "unmask_thumb2 target"]
  by (auto simp: original_def pool_ok_def hooks_of_def split: option.split list.split)

lemma pool_push_ok:
  "pool_ok p \<Longrightarrow> pool_ok (pool_push t tr p) \<and> hooks_of (pool_push t tr p) = (hooks_of p)(t := hooks_of p t @ [tr])"
  by (simp add: pool_ok_def hooks_of_def pool_push_def queue_of_push)

lemma pool_remove_ok:
  assumes "pool_ok p" and "position (\<lambda>a. a = t) (ip_address p) = Some i"
  defines "q \<equiv> \<lparr>ip_address = remove_at i (ip_address p), ip_trampoline = remove_at i (ip_trampoline p)\<rparr>"
  shows "pool_ok q \<and> hooks_of q = (hooks_of p)(t := tl (hooks_of p t))"
  using assms(1) queue_of_position [OF _ assms(2)]
  by (simp add: q_def pool_ok_def hooks_of_def) (simp add: remove_at_def)

section \<open>Reverting a hook\<close>

lemma even_or_1: "even (unat (x :: u32)) \<Longrightarrow> x OR 1 = x + 1"
proof -
  assume "even (unat x)"
  then have "x AND mask 1 = 0"
    unfolding take_bit_eq_mask [symmetric] by (simp add: word_unat_eq_iff unat_mod unsigned_take_bit_eq take_bit_eq_mod)
  then have "x AND 1 = 0" by (simp add: mask_eq_exp_minus_1)
  with word_plus_and_or [of x 1] show ?thesis by simp
qed

lemma even_add_width:
  "even (unat (t :: u32)) \<Longrightarrow> even n \<Longrightarrow> (t + word_of_nat n) OR 1 = t + word_of_nat (Suc n)"
proof -
  assume ev: "even (unat t)" "even n"
  have "unat (t + word_of_nat n) mod 2 = (unat t + n) mod 2"
    by (simp add: unat_word_ariths unat_of_nat mod_mod_cancel mod_add_right_eq)
  with ev have "even (unat (t + word_of_nat n))" by presburger
  from even_or_1 [OF this] show "(t + word_of_nat n) OR 1 = t + word_of_nat (Suc n)"
    by (simp add: algebra_simps)
qed

lemma apart_sym:
  assumes "apart a n b k" and "k \<le> 2 ^ 32"
  shows "apart b k a n"
  unfolding apart_def
proof (intro allI impI)
  fix j assume j: "j < k"
  show "n \<le> unat (b + word_of_nat j - a)"
  proof (rule ccontr)
    define i where "i = unat (b + word_of_nat j - a)"
    assume "\<not> ?thesis"
    then have "i < n" by (simp add: i_def)
    with assms(1) have "k \<le> unat (a + word_of_nat i - b)" unfolding apart_def by blast
    also have "a + word_of_nat i - b = word_of_nat j" by (simp add: i_def)
    finally show False using j assms(2) by (simp add: unat_of_nat)
  qed
qed

fun plain :: "insn \<Rightarrow> bool" where
  "plain (Plain16 _) = True"
| "plain (Plain32 _ _) = True"
| "plain _ = False"

text \<open>Plain instructions are relocated as they are.\<close>

lemma plain_bytes: "plain (insn_at m t n) \<Longrightarrow>
   \<exists>ks. relocated hs (insn_at m t n) = hs @ ks \<and>
     code_bytes ks = load_bytes m (t + word_of_nat n) (insn_width (insn_at m t n))"
  using ram.load_append [of m "t + word_of_nat n" 2 2]
  by (auto simp: insn_at_def Let_def le16_read16 split: if_splits)

lemma plain_relocation:
  "\<forall>i \<in> set (insns_from m t sz n). plain i \<Longrightarrow>
   code_bytes (foldl relocated hs (insns_from m t sz n)) =
   code_bytes hs @ load_bytes m (t + word_of_nat n) (width (insns_from m t sz n))"
proof (induction m t sz n arbitrary: hs rule: insns_from.induct)
  case (1 m t sz n)
  show ?case
  proof (cases "n < sz")
    case False
    then have "insns_from m t sz n = []" by (simp add: insns_from.simps [of m t sz n])
    then show ?thesis by (simp add: width_def load_bytes_def)
  next
    case True
    let ?i = "insn_at m t n"
    let ?n = "n + insn_width ?i"
    from True have r: "insns_from m t sz n = ?i # insns_from m t sz ?n"
      by (simp add: insns_from.simps [of m t sz n])
    with 1(2) have p: "plain ?i" "\<forall>i \<in> set (insns_from m t sz ?n). plain i" by simp_all
    from plain_bytes [OF p(1), of hs] obtain ks where "relocated hs ?i = hs @ ks"
      "code_bytes ks = load_bytes m (t + word_of_nat n) (insn_width ?i)" by blast
    with 1(1) [OF True p(2), of "hs @ ks"] show ?thesis
      unfolding r by (simp add: width_def ram.load_append add.assoc)
  qed
qed

lemma revert_even: "target AND 1 = 0 \<Longrightarrow> revert target s = Some (Inl UnsupportedMode, s)"
  by (simp add: revert_def)

lemma revert_unknown: "target AND 1 \<noteq> 0 \<Longrightarrow> unmask_thumb2 target \<notin> set (ip_address (is_pool s)) \<Longrightarrow>
   revert target s = Some (Inl TrampolineNotFound, s)"
  using position_None [of "\<lambda>a. a = unmask_thumb2 target" "ip_address (is_pool s)"]
  by (auto simp: revert_def Let_def split: option.split)

lemma revert_known:
  assumes "target AND 1 \<noteq> 0" and "position (\<lambda>a. a = unmask_thumb2 target) (ip_address (is_pool s)) = Some i"
  shows "\<exists>ops. revert target s = Some (Inr (), s\<lparr>
    is_mem := copy_nonoverlapping (is_mem s) (tr_address (ip_trampoline (is_pool s) ! i)) (unmask_thumb2 target)
      (unat (tr_jump_address (ip_trampoline (is_pool s) ! i) - unmask_thumb2 target)),
    is_pool := \<lparr>ip_address = remove_at i (ip_address (is_pool s)),
                ip_trampoline = remove_at i (ip_trampoline (is_pool s))\<rparr>,
    is_cache := is_cache s @ ops\<rparr>)"
  using assms flush_cache_returns [of "unmask_thumb2 target"
    "tr_jump_address (ip_trampoline (is_pool s) ! i) - unmask_thumb2 target"]
  by (auto simp: revert_def Let_def)

lemma position_append: "position P (xs @ [x]) =
   (case position P xs of Some i \<Rightarrow> Some i | None \<Rightarrow> if P x then Some (length xs) else None)"
  by (induction xs) (auto split: option.split)

lemma replace_pool:
  assumes "replace allocate target f s = Some (r, s')"
  shows "if target AND 1 = 0 then r = Inl UnsupportedMode \<and> s' = s
    else r = Inr () \<and> (\<exists>tr. tr_address tr = fst (allocate (is_heap s) \<lparr>ly_size = 64, ly_align = 4\<rparr>) \<and>
      is_pool s' = pool_push (unmask_thumb2 target) tr (is_pool s))"
proof (cases "target AND 1 = 0")
  case False
  with assms show ?thesis
    unfolding replace_def Let_def
    by (fastforce simp: pool_push_def bind_eq_Some_conv split: prod.splits)
qed (use assms in \<open>simp add: replace_even\<close>)

lemma replace_returns: "\<exists>r s'. replace allocate target f s = Some (r, s')"
proof (cases "target AND 1 = 0")
  case False
  obtain ops where "flush_cache target 64 = Some ops" using flush_cache_returns by blast
  moreover have "\<exists>ops. flush_cache (fst (allocate (is_heap s) \<lparr>ly_size = 64, ly_align = 4\<rparr>)) 64 = Some ops"
    by (rule flush_cache_returns)
  ultimately show ?thesis using False by (auto simp: replace_def Let_def split: prod.split)
qed (simp add: replace_even)

text \<open>A concrete state for evaluation: zeroed memory (plain 16-bit instructions), an empty pool
  and a heap of one page.\<close>

definition sample_istate :: "BumpAllocator istate" where
  "sample_istate = \<lparr>is_mem = \<lambda>_. 0, is_pool = \<lparr>ip_address = [], ip_trampoline = []\<rparr>,
     is_heap = bump_new 0x80000000 0x1000, is_cache = []\<rparr>"

lemma sample_alloc: "bump_inv 0x80001000 (is_heap sample_istate)"
  "alloc (is_heap sample_istate) \<lparr>ly_size = 64, ly_align = 4\<rparr> =
     (0x80000000, \<lparr>ba_ptr = Some 0x80000040, ba_size = 0xFC0\<rparr>)"
  by (simp_all add: sample_istate_def alloc_def align_up_def checked_add_def bump_new_def bump_inv_def)

lemma sample_target: "(0x40001001 :: u32) AND 1 \<noteq> 0" "unmask_thumb2 0x40001001 = 0x40001000"
  "window_apart 0x40001000 0x80000000" "window_apart (unmask_thumb2 0x40001001) 0x80000000"
  using apart_below [of "0x40000000" 8224 "0x80000000" 64]
  by (simp_all add: unmask_thumb2_def window_apart_def)

lemma sample_insn: "insn_at (\<lambda>_. 0) t n = Plain16 0"
  by (simp add: insn_at_def is_32bit_def is_ldr_def poke16_def read16_def load_bytes_def of_le16_def upt_rec)

lemma sample_insns: "insns_from (\<lambda>_. 0) t 10 0 = replicate 5 (Plain16 0)"
  by (simp add: insns_from.simps [where m = "\<lambda>_. 0"] sample_insn replicate_numeral_unfold)

section \<open>Properties\<close>

lemma bump_block_aligned:
  assumes "bump_inv hi b" and "alloc b \<lparr>ly_size = 64, ly_align = 4\<rparr> = (code, h)"
  shows "unat code mod 4 = 0"
proof (cases "code = 0")
  case False
  have "valid_layout \<lparr>ly_size = 64, ly_align = 4\<rparr>"
    unfolding valid_layout_def by (rule exI [of _ 2]) simp
  from heap.aligned [OF assms(1) this assms(2) False] show ?thesis by (simp add: dvd_eq_mod_eq_0)
qed simp

lemma length_patch_code: "length (patch_code t f) \<le> 5"
  by (simp add: patch_code_def pad_def)

text \<open>C7: Hooking a Thumb function with the heap of the payload always returns. It places
  the relocated first instructions (ten or twelve bytes of them) and a jump back into the new block,
  a jump to the replacement over the function, records the trampoline, and writes nothing outside the first
  56 bytes of the 64-byte block and the first ten bytes of the function. A function without the Thumb bit is
  refused and nothing changes.\<close>

theorem replace_hooks_function:
  assumes "bump_inv hi (is_heap s)" and "alloc (is_heap s) \<lparr>ly_size = 64, ly_align = 4\<rparr> = (code, h)"
    and "window_apart (unmask_thumb2 target) code"
  defines "t \<equiv> unmask_thumb2 target"
  shows "if target AND 1 = 0 then replace alloc target f s = Some (Inl UnsupportedMode, s)
    else \<exists>s'. replace alloc target f s = Some (Inr (), s') \<and>
      is_mem s' = store_bytes (store_bytes (is_mem s) code (code_bytes (trampoline_code (is_mem s) t)))
        t (code_bytes (patch_code t f)) \<and>
      is_pool s' = pool_push t \<lparr>tr_address = code,
        tr_jump_address = (t + word_of_nat (hooked_width (is_mem s) t)) OR 1\<rparr> (is_pool s) \<and>
      is_heap s' = h \<and> hooked_width (is_mem s) t \<in> {10, 12} \<and>
      (\<forall>x. 56 \<le> unat (x - code) \<and> 10 \<le> unat (x - t) \<longrightarrow> is_mem s' x = is_mem s x)"
proof (cases "target AND 1 = 0")
  case False
  let ?hs = "trampoline_code (is_mem s) t"
  obtain ops where r: "replace alloc target f s = Some (Inr (), \<lparr>
    is_mem = store_bytes (store_bytes (is_mem s) code (code_bytes ?hs)) t (code_bytes (patch_code t f)),
    is_pool = pool_push t \<lparr>tr_address = code, tr_jump_address = (t + word_of_nat (hooked_width (is_mem s) t)) OR 1\<rparr> (is_pool s),
    is_heap = h, is_cache = is_cache s @ ops\<rparr>)"
    using replace_odd [where f = f and allocate = alloc and s = s, OF False refl assms(2) bump_block_aligned [OF assms(1,2)] assms(3)]
    unfolding t_def by blast
  have "store_bytes (store_bytes (is_mem s) code (code_bytes ?hs)) t (code_bytes (patch_code t f)) x = is_mem s x"
    if "56 \<le> unat (x - code)" "10 \<le> unat (x - t)" for x
    using that length_trampoline_code [of "is_mem s" t] length_patch_code [of t f]
    by (simp add: store_bytes_apply)
  with r False show ?thesis using width_target by (simp add: hooked_width_def)
qed (simp add: replace_even)

lemma replace_hooks_function_witness:
  "\<exists>s'. replace alloc 0x40001001 0x80100001 sample_istate = Some (Inr (), s') \<and>
     is_pool s' = pool_push 0x40001000 \<lparr>tr_address = 0x80000000, tr_jump_address = 0x4000100B\<rparr> (is_pool sample_istate)"
proof -
  have "hooked_width (is_mem sample_istate) 0x40001000 = 10"
    by (simp add: hooked_width_def sample_istate_def sample_insns width_def replicate_numeral_unfold)
  with replace_hooks_function [where f = "0x80100001", OF sample_alloc sample_target(4)] sample_target(1)
  show ?thesis by (auto simp: sample_target(2))
qed

text \<open>The block of a trampoline is intact after the function has been patched, and longer than what it replaces.\<close>

lemma length_relocated: "length hs + insn_width i div 2 \<le> length (relocated hs i)"
  by (cases i) (simp_all add: even_pad_def)

lemma length_relocation: "length hs + width is div 2 \<le> length (foldl relocated hs is)"
proof (induction "is" arbitrary: hs)
  case (Cons i "is")
  have "even (insn_width i)" by (cases i) simp_all
  then have "width (i # is) div 2 = insn_width i div 2 + width is div 2"
    by (simp add: width_def div_plus_div_distrib_dvd_left)
  with Cons.IH [of "relocated hs i"] length_relocated [of hs i] show ?case by simp
qed (simp add: width_def)

lemma trampoline_prefix:
  fixes m :: mem
  assumes "window_apart t code"
  defines "n \<equiv> hooked_width m t"
  shows "load_bytes (store_bytes (store_bytes m code (code_bytes (trampoline_code m t))) t (code_bytes (patch_code t f))) code (Suc n) =
    take (Suc n) (code_bytes (trampoline_code m t))" (is "?bs = _") and "n < length (code_bytes (trampoline_code m t))"
proof -
  let ?hs = "foldl relocated [] (insns_from m t 10 0)" and ?tr = "trampoline_code m t"
  have n: "n \<in> {10, 12}" unfolding n_def hooked_width_def by (rule width_target)
  have "n div 2 \<le> length ?hs" using length_relocation [of "[]" "insns_from m t 10 0"] by (simp add: n_def hooked_width_def)
  then have l: "Suc n \<le> length (code_bytes ?tr)" "length (code_bytes ?tr) \<le> 56"
    using length_trampoline_code [of m t] n by (auto simp: trampoline_code_def Let_def)
  then show "n < length (code_bytes ?tr)" by simp
  have "apart t (length (code_bytes (patch_code t f))) code 64"
    using apart_part [OF assms(1) [unfolded window_apart_def], of 4096] length_patch_code [of t f] by simp
  from apart_sym [OF this] have "apart code 64 t (length (code_bytes (patch_code t f)))" by simp
  from apart_part [OF this, of 0 "Suc n"] n
  have ap: "apart code (Suc n) t (length (code_bytes (patch_code t f)))" by auto
  have "?bs = load_bytes (store_bytes m code (code_bytes ?tr)) code (Suc n)"
    using length_patch_code [of t f] ap by (intro ram.load_store_apart) simp_all
  also have "\<dots> = take (Suc n) (code_bytes ?tr)"
    using ram.load_store_inside [of "[]" "take (Suc n) (code_bytes ?tr)" "drop (Suc n) (code_bytes ?tr)" m code] l
    by (simp add: min_absorb2)
  finally show "?bs = take (Suc n) (code_bytes ?tr)" .
qed

text \<open>A trampoline of plain instructions starts with the bytes it was made from; behind them comes the
  padding or the jump.\<close>

lemma plain_prefix:
  assumes "\<forall>i \<in> set (insns_from m t 10 0). plain i"
  defines "n \<equiv> hooked_width m t"
  shows "take (Suc n) (code_bytes (trampoline_code m t)) = load_bytes m t n @ [if n = 10 then 0x00 else 0xDF]"
proof -
  let ?hs = "foldl relocated [] (insns_from m t 10 0)" and ?tr = "trampoline_code m t"
  have n: "n \<in> {10, 12}" unfolding n_def hooked_width_def by (rule width_target)
  have hs: "code_bytes ?hs = load_bytes m t n" "2 * length ?hs = n"
  proof -
    show "code_bytes ?hs = load_bytes m t n"
      using plain_relocation [OF assms(1), of "[]"] by (simp add: n_def hooked_width_def)
    from arg_cong [OF this, of length] show "2 * length ?hs = n" by simp
  qed
  have tr: "?tr = ?hs @ even_pad ?hs @ jump_halves ((t + word_of_nat n) OR 1)"
    by (simp add: trampoline_code_def Let_def n_def hooked_width_def)
  have "take (Suc n) (code_bytes ?tr) =
      load_bytes m t n @ take 1 (code_bytes (even_pad ?hs @ jump_halves ((t + word_of_nat n) OR 1)))"
    using hs by (simp add: tr)
  also have "take 1 (code_bytes (even_pad ?hs @ jump_halves ((t + word_of_nat n) OR 1))) = [if n = 10 then 0x00 else 0xDF]"
    using n hs(2) by (auto simp: even_pad_def jump_halves_def word_halves_def le16_def lo16_def)
  finally show ?thesis .
qed

text \<open>C35: Taking a hook out again, of a function that was not hooked before. The pool is as before, but
  \<open>revert\<close> does not put the function back: over the ten or twelve relocated bytes and the one behind them it
  copies the beginning of the trampoline, one byte too many because the recorded jump address carries the
  Thumb bit. Those are the old bytes when none of the relocated instructions loads a literal, and then the byte behind
  them becomes the next byte of the trampoline; a load of a literal comes back as the two moves that replace it.
  Nothing else changes.\<close>

theorem revert_overwrites_next_byte:
  assumes odd: "target AND 1 \<noteq> 0" and t: "t = unmask_thumb2 target"
    and heap: "bump_inv hi (is_heap s)" "alloc (is_heap s) \<lparr>ly_size = 64, ly_align = 4\<rparr> = (code, h)"
    and win: "window_apart t code" and new: "t \<notin> set (ip_address (is_pool s))"
    and len: "length (ip_address (is_pool s)) = length (ip_trampoline (is_pool s))"
    and repl: "replace alloc target f s = Some (Inr (), s1)"
  defines "n \<equiv> hooked_width (is_mem s) t" and "tramp \<equiv> code_bytes (trampoline_code (is_mem s) t)"
  shows "\<exists>s2. revert target s1 = Some (Inr (), s2) \<and> is_pool s2 = is_pool s \<and> n \<in> {10, 12} \<and>
    load_bytes (is_mem s2) t (n + 1) = take (n + 1) tramp \<and> n < length tramp \<and>
    ((\<forall>i \<in> set (insns_from (is_mem s) t 10 0). plain i) \<longrightarrow>
      load_bytes (is_mem s2) t (n + 1) = load_bytes (is_mem s) t n @ [if n = 10 then 0x00 else 0xDF]) \<and>
    (\<forall>x. 56 \<le> unat (x - code) \<and> n < unat (x - t) \<longrightarrow> is_mem s2 x = is_mem s x)"
proof -
  let ?tr = "trampoline_code (is_mem s) t"
  have s1: "is_mem s1 = store_bytes (store_bytes (is_mem s) code (code_bytes ?tr)) t (code_bytes (patch_code t f))"
    "is_pool s1 = pool_push t \<lparr>tr_address = code, tr_jump_address = (t + word_of_nat n) OR 1\<rparr> (is_pool s)"
    using replace_odd [where f = f and allocate = alloc and s = s, OF odd t heap(2) bump_block_aligned [OF heap] win] repl by (auto simp: n_def)
  have n: "n \<in> {10, 12}" unfolding n_def hooked_width_def by (rule width_target)
  have ev: "even (unat t)" unfolding t by (rule odd_target(4) [OF odd])
  have sz: "unat (((t + word_of_nat n) OR 1) - t) = Suc n"
  proof -
    have "even n" using n by auto
    then show ?thesis unfolding even_add_width [OF ev \<open>even n\<close>] using n by (auto simp: unat_of_nat)
  qed
  have pos: "position (\<lambda>a. a = unmask_thumb2 target) (ip_address (is_pool s1)) = Some (length (ip_address (is_pool s)))"
    using new t position_None [of "\<lambda>a. a = t" "ip_address (is_pool s)"]
    by (auto simp: s1 pool_push_def position_append split: option.split)
  define bs where "bs = load_bytes (is_mem s1) code (Suc n)"
  obtain s2 where s2: "revert target s1 = Some (Inr (), s2)"
    "is_mem s2 = store_bytes (is_mem s1) t bs" "is_pool s2 = is_pool s"
    using revert_known [OF odd pos] len
    by (auto simp: s1(2) pool_push_def sz copy_nonoverlapping_def remove_at_def bs_def simp flip: t)
  note prefix = trampoline_prefix [where m = "is_mem s", OF win, folded n_def tramp_def]
  have bs: "bs = take (Suc n) tramp" using prefix(1) [of f] by (simp add: bs_def s1(1) tramp_def)
  have lb: "length bs = Suc n" by (simp add: bs_def)
  have "load_bytes (is_mem s2) t (length bs) = bs" unfolding s2(2) by (rule ram.load_store_same) (use lb n in auto)
  then have load: "load_bytes (is_mem s2) t (n + 1) = take (n + 1) tramp" using lb bs by simp
  have "is_mem s2 x = is_mem s x" if "56 \<le> unat (x - code)" "n < unat (x - t)" for x
    using that n length_trampoline_code [of "is_mem s" t] length_patch_code [of t f]
    by (auto simp: s2(2) s1(1) lb store_bytes_apply)
  with s2(1,3) n load prefix(2) plain_prefix [of "is_mem s" t] show ?thesis
    by (intro exI [of _ s2]) (simp add: tramp_def n_def)
qed

lemma revert_overwrites_next_byte_witness:
  "\<exists>s s1 s2. is_mem s = (\<lambda>_. 0)(0x4000100A := 0x47) \<and>
     replace alloc 0x40001001 0x80100001 s = Some (Inr (), s1) \<and>
     revert 0x40001001 s1 = Some (Inr (), s2) \<and> is_mem s2 0x4000100A = 0"
proof -
  let ?m = "(\<lambda>_. 0)(0x4000100A := 0x47) :: mem"
  let ?s = "sample_istate\<lparr>is_mem := ?m\<rparr>"
  have i: "insn_at ?m 0x40001000 n = Plain16 0" if "n \<in> {0, 2, 4, 6, 8}" for n
    using that by (auto simp: insn_at_def is_32bit_def is_ldr_def poke16_def read16_def load_bytes_def of_le16_def upt_rec)
  have insns: "insns_from (is_mem ?s) 0x40001000 10 0 = [Plain16 0, Plain16 0, Plain16 0, Plain16 0, Plain16 0]"
    using i [of 0] i [of 2] i [of 4] i [of 6] i [of 8]
    by (simp add: insns_from.simps [where m = ?m] del: add_2_eq_Suc add_2_eq_Suc')
  then have w: "hooked_width (is_mem ?s) 0x40001000 = 10"
    by (simp add: hooked_width_def width_def)
  have h: "bump_inv 0x80001000 (is_heap ?s)"
    "alloc (is_heap ?s) \<lparr>ly_size = 64, ly_align = 4\<rparr> = (0x80000000, \<lparr>ba_ptr = Some 0x80000040, ba_size = 0xFC0\<rparr>)"
    using sample_alloc by simp_all
  from replace_hooks_function [where f = "0x80100001", OF h sample_target(4)] sample_target(1)
  obtain s1 where r: "replace alloc 0x40001001 0x80100001 ?s = Some (Inr (), s1)" by auto
  from revert_overwrites_next_byte [OF sample_target(1) sample_target(2) [symmetric] h sample_target(3) _ _ r] w insns
  obtain s2 where s2: "revert 0x40001001 s1 = Some (Inr (), s2)"
    "load_bytes (is_mem s2) 0x40001000 11 = load_bytes ?m 0x40001000 10 @ [0]"
    by (auto simp: sample_istate_def)
  from arg_cong [OF s2(2), of "\<lambda>l. l ! 10"] have "is_mem s2 0x4000100A = 0" by (simp add: load_bytes_def nth_append)
  with s2(1) have "revert 0x40001001 s1 = Some (Inr (), s2)" "is_mem s2 0x4000100A = 0" by simp_all
  moreover have "is_mem ?s = ?m" by simp
  ultimately show ?thesis using r by blast
qed

text \<open>C8: The interceptor keeps for every function the queue of the trampolines its hooks have left.
  Hooking a function, whether it is hooked already or not, appends its new trampoline to its own queue;
  \<open>original\<close> is the front of the queue, the oldest trampoline; reverting takes the front out or reports that the
  queue is empty; a function without the Thumb bit is refused; no operation touches another queue or breaks the two
  parallel vectors.\<close>

theorem interceptor_refines_queues:
  fixes target :: u32
  assumes "pool_ok (is_pool s)"
  defines "hooks \<equiv> hooks_of (is_pool s)" and "t \<equiv> unmask_thumb2 target"
  shows "(\<exists>r s'. replace allocate target f s = Some (r, s') \<and> pool_ok (is_pool s') \<and>
      (if target AND 1 = 0 then r = Inl UnsupportedMode \<and> s' = s
       else r = Inr () \<and> (\<exists>tr. tr_address tr = fst (allocate (is_heap s) \<lparr>ly_size = 64, ly_align = 4\<rparr>) \<and>
         hooks_of (is_pool s') = hooks(t := hooks t @ [tr])))) \<and>
    (\<exists>r s'. revert target s = Some (r, s') \<and> pool_ok (is_pool s') \<and>
      (if target AND 1 = 0 then r = Inl UnsupportedMode \<and> s' = s
       else if hooks t = [] then r = Inl TrampolineNotFound \<and> s' = s
       else r = Inr () \<and> hooks_of (is_pool s') = hooks(t := tl (hooks t)))) \<and>
    original target s = (case hooks t of [] \<Rightarrow> None | tr # _ \<Rightarrow> Some (tr_address tr))"
proof (intro conjI)
  obtain r s' where r: "replace allocate target f s = Some (r, s')" using replace_returns by blast
  then show "\<exists>r s'. replace allocate target f s = Some (r, s') \<and> pool_ok (is_pool s') \<and>
      (if target AND 1 = 0 then r = Inl UnsupportedMode \<and> s' = s
       else r = Inr () \<and> (\<exists>tr. tr_address tr = fst (allocate (is_heap s) \<lparr>ly_size = 64, ly_align = 4\<rparr>) \<and>
         hooks_of (is_pool s') = hooks(t := hooks t @ [tr])))"
    using replace_pool [OF r] pool_push_ok [OF assms(1), of t] assms(1)
    by (cases "target AND 1 = 0") (auto simp: t_def hooks_def)
  show "original target s = (case hooks t of [] \<Rightarrow> None | tr # _ \<Rightarrow> Some (tr_address tr))"
    unfolding hooks_def t_def by (rule original_hooks [OF assms(1)])
  have empty: "hooks t = [] \<longleftrightarrow> position (\<lambda>a. a = t) (ip_address (is_pool s)) = None"
    using assms(1) by (simp add: hooks_def hooks_of_def pool_ok_def queue_of_empty)
  show "\<exists>r s'. revert target s = Some (r, s') \<and> pool_ok (is_pool s') \<and>
      (if target AND 1 = 0 then r = Inl UnsupportedMode \<and> s' = s
       else if hooks t = [] then r = Inl TrampolineNotFound \<and> s' = s
       else r = Inr () \<and> hooks_of (is_pool s') = hooks(t := tl (hooks t)))"
  proof (cases "position (\<lambda>a. a = t) (ip_address (is_pool s))")
    case None
    then have "target AND 1 \<noteq> 0 \<Longrightarrow> revert target s = Some (Inl TrampolineNotFound, s)"
      by (intro revert_unknown) (auto simp: position_None t_def)
    with None empty assms(1) revert_even [of target s] show ?thesis by (cases "target AND 1 = 0") simp_all
  next
    case (Some i)
    with empty assms(1) revert_even [of target s] revert_known [of target s i] pool_remove_ok [OF assms(1) Some]
    show ?thesis by (cases "target AND 1 = 0") (auto simp: t_def hooks_def)
  qed
qed

text \<open>A function that is hooked twice and reverted once still has the trampoline of its second hook.\<close>

lemma interceptor_refines_queues_witness:
  "\<exists>s1 s2 s3 tr1 tr2. replace alloc 0x40001001 0x80100001 sample_istate = Some (Inr (), s1) \<and>
     replace alloc 0x40001001 0x80200001 s1 = Some (Inr (), s2) \<and> revert 0x40001001 s2 = Some (Inr (), s3) \<and>
     hooks_of (is_pool s2) 0x40001000 = [tr1, tr2] \<and> original 0x40001001 s2 = Some (tr_address tr1) \<and>
     original 0x40001001 s3 = Some (tr_address tr2)"
proof -
  have ok: "pool_ok (is_pool sample_istate)" and none: "hooks_of (is_pool sample_istate) = (\<lambda>_. [])"
    by (simp_all add: pool_ok_def sample_istate_def hooks_of_def fun_eq_iff)
  note refines = interceptor_refines_queues [where target = "0x40001001", unfolded sample_target(2)]
  from refines [OF ok, of alloc "0x80100001"] obtain s1 tr1 where
    s1: "replace alloc 0x40001001 0x80100001 sample_istate = Some (Inr (), s1)" "pool_ok (is_pool s1)"
      "hooks_of (is_pool s1) 0x40001000 = [tr1]"
    using sample_target(1) none by auto
  from refines [OF s1(2), of alloc "0x80200001"] obtain s2 tr2 where
    s2: "replace alloc 0x40001001 0x80200001 s1 = Some (Inr (), s2)" "pool_ok (is_pool s2)"
      "hooks_of (is_pool s2) 0x40001000 = [tr1, tr2]"
    using sample_target(1) s1(3) by auto
  from refines [OF s2(2), of alloc 0] obtain s3 where
    s3: "revert 0x40001001 s2 = Some (Inr (), s3)" "pool_ok (is_pool s3)" "hooks_of (is_pool s3) 0x40001000 = [tr2]"
      "original 0x40001001 s2 = Some (tr_address tr1)"
    using sample_target(1) s2(3) by auto
  from refines [OF s3(2), of alloc 0] s3(3) have "original 0x40001001 s3 = Some (tr_address tr2)" by simp
  with s1 s2 s3 show ?thesis by blast
qed

text \<open>The module the \<open>hook!\<close> macro generates, installed on a function that is not
  hooked yet: afterwards \<open>original\<close> is the trampoline, and \<open>revert\<close> succeeds, takes the entry out
  and leaves \<open>original\<close> null.\<close>

theorem hook_module_roundtrip:
  assumes "pool_ok (is_pool s)" and "unmask_thumb2 target \<notin> set (ip_address (is_pool s))"
    and "0 \<notin> set (ip_address (is_pool s))"
    and "hook_replace allocate body target (a, s) = Some (Inr (), a1, s1)"
  shows "a1 = target \<and> hook_original (a1, s1) = fst (allocate (is_heap s) \<lparr>ly_size = 64, ly_align = 4\<rparr>) \<and>
    (\<exists>s2. hook_revert (a1, s1) = Some (Inr (), 0, s2) \<and> is_pool s2 = is_pool s \<and> hook_original (0, s2) = 0)"
proof -
  let ?t = "unmask_thumb2 target" and ?p = "is_pool s"
    and ?code = "fst (allocate (is_heap s) \<lparr>ly_size = 64, ly_align = 4\<rparr>)"
  from assms(4) have a1: "a1 = target" and r: "replace allocate target body s = Some (Inr (), s1)"
  proof -
    from assms(4) obtain r1 s' where r1: "replace allocate target body s = Some (r1, s')"
      by (auto simp: hook_replace_def)
    with assms(4) have "s' = s1" by (cases r1) (simp_all add: hook_replace_def)
    with r1 assms(4) show "a1 = target" and "replace allocate target body s = Some (Inr (), s1)"
      by (cases r1; simp add: hook_replace_def)+
  qed
  note len = assms(1) [unfolded pool_ok_def]
  from replace_pool [OF r] obtain tr where odd: "target AND 1 \<noteq> 0"
    and tr: "tr_address tr = ?code" and s1: "is_pool s1 = pool_push ?t tr ?p"
    by (auto split: if_splits)
  have none: "position (\<lambda>x. x = ?t) (ip_address ?p) = None" using assms(2) by (auto simp: position_None)
  then have pos: "position (\<lambda>x. x = ?t) (ip_address (is_pool s1)) = Some (length (ip_address ?p))"
    by (simp add: s1 pool_push_def position_append)
  have orig: "original target s1 = Some ?code"
    using pos len tr by (simp add: original_def s1 pool_push_def nth_append)
  obtain s2 where s2: "revert target s1 = Some (Inr (), s2)" "is_pool s2 = ?p"
    using revert_known [OF odd pos] len by (auto simp: s1 pool_push_def remove_at_def)
  have "unmask_thumb2 0 = 0" by (simp add: unmask_thumb2_def)
  then have "original 0 s2 = None"
    using assms(3) by (auto simp: original_def s2(2) position_None)
  with s2 orig a1 show ?thesis by (auto simp: hook_original_def hook_revert_def)
qed

lemma hook_module_roundtrip_witness:
  "\<exists>a1 s1. hook_replace alloc 0x80100001 0x40001001 (0, sample_istate) = Some (Inr (), a1, s1) \<and>
     hook_original (a1, s1) = 0x80000000"
proof -
  from replace_hooks_function [where f = "0x80100001", OF sample_alloc sample_target(4)] sample_target(1)
  obtain s1 where "replace alloc 0x40001001 0x80100001 sample_istate = Some (Inr (), s1)" by auto
  then have h: "hook_replace alloc 0x80100001 0x40001001 (0, sample_istate) = Some (Inr (), 0x40001001, s1)"
    by (simp add: hook_replace_def)
  have "pool_ok (is_pool sample_istate)" "x \<notin> set (ip_address (is_pool sample_istate))" for x
    by (simp_all add: pool_ok_def sample_istate_def)
  from hook_module_roundtrip [OF this(1) this(2) this(2) h] h show ?thesis by (auto simp: sample_alloc)
qed

end
