(* ===== verification/Device.thy ===== *)
theory Device
  imports Wire Params Interceptor
begin

text \<open>
  The request handler of the payload, \<open>payloads/rpc/src/usb.rs\<close>: the handshake, one definition for
  the \<open>match\<close> over the messages and one for a turn of the loop. Code that is not under \<open>src\<close>, the
  functions of the boot ROM, the preloader and LK the payload calls, is an argument; a call
  that does not come back is \<open>None\<close>.
\<close>

section \<open>State and environment\<close>

text \<open>
  The statics of the payload: \<open>PARAMS\<close>, the protocol with its transport, \<open>PRELOADER_PARAMS\<close>,
  \<open>LK_PARAMS\<close>, the interceptor with memory and heap, and \<open>ADDR\<close> of the one hook.
\<close>

record 'p device =
  dv_params :: PayloadParams
  dv_proto :: "'p protocol"
  dv_preloader :: "PreloaderRunnerParams option"
  dv_lk :: "LKRunnerParams option"
  dv_icept :: "BumpAllocator istate"
  dv_addr :: u32

text \<open>
  The build (\<open>ev_pl\<close> is the feature \<open>pl\<close>), transport and serializer, native calls
  (target and arguments), the watchdog base of \<open>acon\<close> and the address of the hook body.
\<close>

record 'p env =
  ev_pl :: bool
  ev_ops :: "'p port_ops"
  ev_codecs :: codecs
  ev_call :: "u32 \<Rightarrow> u32 list \<Rightarrow> 'p device \<Rightarrow> 'p device option"
  ev_toprgu :: "SoC \<Rightarrow> u32"
  ev_body :: u32

abbreviation dv_mem :: "'p device \<Rightarrow> mem" where
  "dv_mem d \<equiv> is_mem (dv_icept d)"

definition set_mem :: "mem \<Rightarrow> 'p device \<Rightarrow> 'p device" where
  "set_mem m d = d\<lparr>dv_icept := (dv_icept d)\<lparr>is_mem := m\<rparr>\<rparr>"

definition set_io :: "'p \<Rightarrow> 'p device \<Rightarrow> 'p device" where
  "set_io q d = d\<lparr>dv_proto := (dv_proto d)\<lparr>pr_io := q\<rparr>\<rparr>"

definition unwrap_or_default :: "u32 option \<Rightarrow> u32" where
  "unwrap_or_default v = (case v of None \<Rightarrow> 0 | Some x \<Rightarrow> x)"

section \<open>The messages\<close>

definition do_read :: "'p env \<Rightarrow> 'p device \<Rightarrow> u32 \<Rightarrow> u32 \<Rightarrow> Response \<times> 'p device" where
  "do_read e d addr sz =
     (RAck, set_io (snd (op_write (ev_ops e) (pr_io (dv_proto d)) (load_bytes (dv_mem d) addr (unat sz)))) d)"

definition do_write :: "'p env \<Rightarrow> 'p device \<Rightarrow> u32 \<Rightarrow> u32 \<Rightarrow> Response \<times> 'p device" where
  "do_write e d addr sz =
     (case op_read (ev_ops e) (pr_io (dv_proto d)) (unat sz) of
        (None, q) \<Rightarrow> (RAck, set_io q d)
      | (Some bs, q) \<Rightarrow> (RAck, set_io q (set_mem (store_bytes (dv_mem d) addr bs) d)))"

definition do_flush :: "'p device \<Rightarrow> u32 \<Rightarrow> u32 \<Rightarrow> (Response \<times> 'p device) option" where
  "do_flush d addr sz =
     map_option (\<lambda>ops. (RAck, d\<lparr>dv_icept := (dv_icept d)\<lparr>is_cache := is_cache (dv_icept d) @ ops\<rparr>\<rparr>))
       (flush_cache addr sz)"

definition do_jump :: "'p env \<Rightarrow> 'p device \<Rightarrow> u32 \<Rightarrow> u32 option \<Rightarrow> u32 option \<Rightarrow> (Response \<times> 'p device) option" where
  "do_jump e d addr r0 r1 =
     (if \<not> ev_pl e then
        map_option (Pair (RNack Unreachable))
          (ev_call e addr [unwrap_or_default r0, unwrap_or_default r1] d)
      else
        (case dv_preloader d of
           Some params \<Rightarrow>
             map_option (Pair (RNack Unreachable))
               (ev_call e (ptr_bldr_jump params OR 1) [addr, unwrap_or_default r0, unwrap_or_default r1] d)
         | None \<Rightarrow> Some (RNack InvalidParams, d)))"

definition do_reset :: "'p env \<Rightarrow> 'p device \<Rightarrow> Response \<times> 'p device" where
  "do_reset e d =
     (RAck, set_mem (write32_unchecked (dv_mem d) (ev_toprgu e (pp_soc (dv_params d)) + 0x14) 0x1209) d)"

text \<open>The result of \<open>replace\<close> is dropped.\<close>

definition do_hook :: "'p env \<Rightarrow> 'p device \<Rightarrow> HookId \<Rightarrow> (Response \<times> 'p device) option" where
  "do_hook e d h =
     (if ev_pl e then
        (case h of MtPartGenericRead \<Rightarrow>
          (case dv_lk d of
             Some params \<Rightarrow>
               map_option (\<lambda>(_, a, s). (RAck, d\<lparr>dv_addr := a, dv_icept := s\<rparr>))
                 (hook_replace alloc (ev_body e) (ptr_mt_part_generic_read params OR 1) (dv_addr d, dv_icept d))
           | None \<Rightarrow> Some (RNack InvalidParams, d)))
      else Some (RNack NotSupported, d))"

definition do_free_range :: "'p device \<Rightarrow> u32 \<Rightarrow> Response \<times> 'p device" where
  "do_free_range d sz = (RRange (map_option fst (find_unused_range (dv_params d) sz)), d)"

definition do_blacklist :: "'p device \<Rightarrow> u32 \<times> u32 \<Rightarrow> Response \<times> 'p device" where
  "do_blacklist d r =
     (case blacklist_dl (dv_params d) r of
        Inr params \<Rightarrow> (RAck, d\<lparr>dv_params := params\<rparr>)
      | Inl _ \<Rightarrow> (RNack NotSupported, d))"

definition do_set_params :: "'p env \<Rightarrow> 'p device \<Rightarrow> ParamsType \<Rightarrow> Response \<times> 'p device" where
  "do_set_params e d params =
     (if \<not> ev_pl e then (RNack NotSupported, d)
      else (case params of
              ParamsPreloader pl \<Rightarrow>
                if preloader_params_valid pl then (RAck, d\<lparr>dv_preloader := Some pl\<rparr>)
                else (RNack InvalidParams, d)
            | ParamsLK lk \<Rightarrow>
                if lk_params_valid lk then (RAck, d\<lparr>dv_lk := Some lk\<rparr>)
                else (RNack InvalidParams, d)))"

definition handle_message :: "'p env \<Rightarrow> 'p device \<Rightarrow> Message \<Rightarrow> (Response \<times> 'p device) option" where
  "handle_message e d message =
     (case message of
        MAck \<Rightarrow> Some (RAck, d)
      | MRead addr sz \<Rightarrow> Some (do_read e d addr sz)
      | MWrite addr sz \<Rightarrow> Some (do_write e d addr sz)
      | MFlushCache addr sz \<Rightarrow> do_flush d addr sz
      | MJump addr r0 r1 \<Rightarrow> do_jump e d addr r0 r1
      | MReset \<Rightarrow> Some (do_reset e d)
      | MHook h \<Rightarrow> do_hook e d h
      | MGetFreeRange sz \<Rightarrow> Some (do_free_range d sz)
      | MBlacklistRange r \<Rightarrow> Some (do_blacklist d r)
      | MSetParams params \<Rightarrow> Some (do_set_params e d params))"

section \<open>The loop\<close>

text \<open>
  A turn of the loop continues, halts (\<open>die\<close> or a panic, both loop for ever), or leaves the payload
  through a call that does not come back.
\<close>

datatype 'p turn = Continue "'p device" | Halted "'p device" | Left

definition handler_step :: "'p env \<Rightarrow> 'p device \<Rightarrow> 'p turn" where
  "handler_step e d =
     (let (r, p) = read_message (ev_ops e) (ev_codecs e) (dv_proto d); d = d\<lparr>dv_proto := p\<rparr>
      in case r of
           Inl Panic \<Rightarrow> Halted d
         | Inl _ \<Rightarrow>
             (case send_response (ev_ops e) (ev_codecs e) (dv_proto d) (RNack Unreachable) of
                (Inl _, p) \<Rightarrow> Halted (d\<lparr>dv_proto := p\<rparr>)
              | (Inr _, p) \<Rightarrow> Continue (d\<lparr>dv_proto := p\<rparr>))
         | Inr message \<Rightarrow>
             (case handle_message e d message of
                None \<Rightarrow> Left
              | Some (response, d) \<Rightarrow>
                  (case send_response (ev_ops e) (ev_codecs e) (dv_proto d) response of
                     (Inl _, p) \<Rightarrow> Halted (d\<lparr>dv_proto := p\<rparr>)
                   | (Inr _, p) \<Rightarrow> Continue (d\<lparr>dv_proto := p\<rparr>))))"

text \<open>\<open>n\<close> turns of the endless loop.\<close>

fun handler_turns :: "'p env \<Rightarrow> nat \<Rightarrow> 'p device \<Rightarrow> 'p turn" where
  "handler_turns e 0 d = Continue d"
| "handler_turns e (Suc n) d =
     (case handler_step e d of Continue d' \<Rightarrow> handler_turns e n d' | t \<Rightarrow> t)"

definition handshake :: "'p env \<Rightarrow> 'p device \<Rightarrow> 'p turn" where
  "handshake e d =
     (case send_message (ev_ops e) (ev_codecs e) (dv_proto d) MAck of
        (Inl _, p) \<Rightarrow> Halted (d\<lparr>dv_proto := p\<rparr>)
      | (Inr _, p) \<Rightarrow>
          (case read_response (ev_ops e) (ev_codecs e) p of
             (Inr r, p) \<Rightarrow> if response_is_ack r then Continue (d\<lparr>dv_proto := p\<rparr>) else Halted (d\<lparr>dv_proto := p\<rparr>)
           | (Inl _, p) \<Rightarrow> Halted (d\<lparr>dv_proto := p\<rparr>)))"

definition handler :: "'p env \<Rightarrow> nat \<Rightarrow> 'p device \<Rightarrow> 'p turn" where
  "handler e n d = (case handshake e d of Continue d' \<Rightarrow> handler_turns e n d' | t \<Rightarrow> t)"

section \<open>Serving one request\<close>

text \<open>What a request carries behind its frame, and what its answer carries before its frame.\<close>

fun payload_size :: "Message \<Rightarrow> nat" where
  "payload_size (MWrite addr sz) = unat sz"
| "payload_size _ = 0"

fun answer_data :: "mem \<Rightarrow> Message \<Rightarrow> u8 list" where
  "answer_data m (MRead addr sz) = load_bytes m addr (unat sz)"
| "answer_data _ _ = []"

fun moves_data :: "Message \<Rightarrow> bool" where
  "moves_data (MRead _ _) = True"
| "moves_data (MWrite _ _) = True"
| "moves_data _ = False"

text \<open>The native functions the payload calls leave its transport alone and its buffer in place.\<close>

definition calls_keep_port :: "'p env \<Rightarrow> bool" where
  "calls_keep_port e \<longleftrightarrow> (\<forall>a as d d'. ev_call e a as d = Some d' \<longrightarrow>
     pr_io (dv_proto d') = pr_io (dv_proto d) \<and> length (pr_buf (dv_proto d')) = length (pr_buf (dv_proto d)))"

text \<open>A device whose buffer holds every message and response.\<close>

definition proto_ok :: "'p env \<Rightarrow> 'p device \<Rightarrow> bool" where
  "proto_ok e d \<longleftrightarrow> codecs_ok (ev_codecs e) (length (pr_buf (dv_proto d))) \<and> length (pr_buf (dv_proto d)) < 2 ^ 32"

lemma set_mem_io [simp]: "dv_proto (set_mem m d) = dv_proto d"
  by (simp add: set_mem_def)

lemma set_io_simps [simp]:
  "pr_io (dv_proto (set_io q d)) = q" "pr_buf (dv_proto (set_io q d)) = pr_buf (dv_proto d)"
  "dv_icept (set_io q d) = dv_icept d" "dv_params (set_io q d) = dv_params d"
  "dv_preloader (set_io q d) = dv_preloader d" "dv_lk (set_io q d) = dv_lk d" "dv_addr (set_io q d) = dv_addr d"
  by (simp_all add: set_io_def)

lemma set_mem_simps [simp]:
  "dv_icept (set_mem m d) = (dv_icept d)\<lparr>is_mem := m\<rparr>" "dv_params (set_mem m d) = dv_params d"
  "dv_preloader (set_mem m d) = dv_preloader d" "dv_lk (set_mem m d) = dv_lk d" "dv_addr (set_mem m d) = dv_addr d"
  by (simp_all add: set_mem_def)

text \<open>Every message but \<open>Read\<close> and \<open>Write\<close> leaves the transport alone.\<close>

lemma handle_message_port:
  assumes "handle_message e d m = Some (r, d')" and "calls_keep_port e"
    and "\<not> moves_data m"
  shows "pr_io (dv_proto d') = pr_io (dv_proto d) \<and> length (pr_buf (dv_proto d')) = length (pr_buf (dv_proto d))"
  using assms
  by (cases m)
    (auto simp: handle_message_def do_flush_def do_jump_def do_reset_def do_hook_def do_free_range_def
      do_blacklist_def do_set_params_def calls_keep_port_def
      split: if_splits option.splits HookId.splits sum.splits ParamsType.splits)

context fifo_port
begin

lemma handle_message_fifo:
  assumes "ev_ops e = ops" and "calls_keep_port e" and "handle_message e d m = Some (r, d')"
    and "inbox (pr_io (dv_proto d)) = bs @ rest" and "length bs = payload_size m"
  shows "inbox (pr_io (dv_proto d')) = rest \<and>
    outbox (pr_io (dv_proto d')) = outbox (pr_io (dv_proto d)) @ answer_data (dv_mem d) m \<and>
    length (pr_buf (dv_proto d')) = length (pr_buf (dv_proto d))"
proof (cases m)
  case (MRead a n)
  then show ?thesis
    using assms write_law [of "pr_io (dv_proto d)" "load_bytes (dv_mem d) a (unat n)"]
    by (auto simp: handle_message_def do_read_def)
next
  case (MWrite a n)
  with assms have l: "unat n \<le> length (inbox (pr_io (dv_proto d)))" "length bs = unat n" by simp_all
  from read_law [OF l(1)] MWrite assms(1,3,4,5) show ?thesis
    by (auto simp: handle_message_def do_write_def)
qed (use assms handle_message_port [OF assms(3,2)] in auto)

text \<open>One turn of the loop consumes one request and its payload, and puts out one answer.\<close>

lemma handler_step_serves:
  assumes "ev_ops e = ops" and "calls_keep_port e" and ok: "proto_ok e d"
    and inb: "inbox (pr_io (dv_proto d)) = mframe (ev_codecs e) m @ bs @ rest" and len: "length bs = payload_size m"
  shows "(\<exists>d0 d1 r d'. read_message ops (ev_codecs e) (dv_proto d) = (Inr m, dv_proto d0) \<and>
      d0 = d\<lparr>dv_proto := dv_proto d0\<rparr> \<and> inbox (pr_io (dv_proto d0)) = bs @ rest \<and>
      handle_message e d0 m = Some (r, d1) \<and>
      handler_step e d = Continue d' \<and> d' = d1\<lparr>dv_proto := dv_proto d'\<rparr> \<and> proto_ok e d' \<and>
      inbox (pr_io (dv_proto d')) = rest \<and>
      outbox (pr_io (dv_proto d')) = outbox (pr_io (dv_proto d)) @ answer_data (dv_mem d) m @ rframe (ev_codecs e) r) \<or>
    handler_step e d = Left"
proof -
  let ?n = "length (pr_buf (dv_proto d))"
  from ok have mc: "codec_ok (message_codec (ev_codecs e)) ?n" and rc: "codec_ok (response_codec (ev_codecs e)) ?n"
    and n: "?n < 2 ^ 32" by (simp_all add: proto_ok_def codecs_ok_def)
  from read_data_frame [OF mc le_refl n inb] obtain p where
    p: "read_message ops (ev_codecs e) (dv_proto d) = (Inr m, p)" "inbox (pr_io p) = bs @ rest"
      "outbox (pr_io p) = outbox (pr_io (dv_proto d))" "length (pr_buf p) = ?n"
    by (auto simp: read_message_def)
  define d0 where "d0 = d\<lparr>dv_proto := p\<rparr>"
  show ?thesis
  proof (cases "handle_message e d0 m")
    case None
    with p assms(1) show ?thesis by (simp add: handler_step_def d0_def)
  next
    case (Some rd)
    obtain r d1 where rd: "rd = (r, d1)" by (rule prod.exhaust)
    have d0: "inbox (pr_io (dv_proto d0)) = bs @ rest" "dv_proto d0 = p" "dv_mem d0 = dv_mem d"
      using p by (simp_all add: d0_def)
    from handle_message_fifo [OF assms(1,2) Some [unfolded rd] d0(1) len] p d0
    have d1: "inbox (pr_io (dv_proto d1)) = rest"
      "outbox (pr_io (dv_proto d1)) = outbox (pr_io (dv_proto d)) @ answer_data (dv_mem d) m"
      "length (pr_buf (dv_proto d1)) = ?n" by simp_all
    have rc': "codec_ok (response_codec (ev_codecs e)) (length (pr_buf (dv_proto d1)))" using rc d1(3) by simp
    from write_data_frame [OF rc', of r] d1 obtain p2 where
      p2: "send_response ops (ev_codecs e) (dv_proto d1) r = (Inr (), p2)" "inbox (pr_io p2) = rest"
        "outbox (pr_io p2) = outbox (pr_io (dv_proto d)) @ answer_data (dv_mem d) m @ rframe (ev_codecs e) r"
        "length (pr_buf p2) = ?n"
      by (auto simp: send_response_def)
    define d' where "d' = d1\<lparr>dv_proto := p2\<rparr>"
    have "handler_step e d = Continue d'"
      using p p2 Some rd assms(1) by (simp add: handler_step_def d0_def d'_def)
    moreover have "proto_ok e d'" using ok p2 by (simp add: proto_ok_def d'_def)
    ultimately show ?thesis
      using p p2 Some rd d0 unfolding d'_def d0_def by (intro disjI1 exI [of _ d0] exI [of _ d1] exI [of _ r] exI [of _ d'])
        (simp add: d'_def d0_def)
  qed
qed

lemma serve_write:
  assumes "ev_ops e = ops" and "proto_ok e d" and "length bs < 2 ^ 32"
    and "inbox (pr_io (dv_proto d)) = mframe (ev_codecs e) (MWrite a (word_of_nat (length bs))) @ bs @ rest"
  shows "\<exists>d'. handler_step e d = Continue d' \<and> dv_mem d' = store_bytes (dv_mem d) a bs \<and> proto_ok e d' \<and>
    inbox (pr_io (dv_proto d')) = rest \<and>
    outbox (pr_io (dv_proto d')) = outbox (pr_io (dv_proto d)) @ rframe (ev_codecs e) RAck \<and>
    d' = (set_mem (store_bytes (dv_mem d) a bs) d)\<lparr>dv_proto := dv_proto d'\<rparr>"
proof -
  define n where "n = (word_of_nat (length bs) :: u32)"
  have n: "unat n = length bs" using assms(3) by (simp add: n_def unat_of_nat)
  let ?k = "length (pr_buf (dv_proto d))"
  from assms(2) have mc: "codec_ok (message_codec (ev_codecs e)) ?k" and rc: "codec_ok (response_codec (ev_codecs e)) ?k"
    and k: "?k < 2 ^ 32" by (simp_all add: proto_ok_def codecs_ok_def)
  from read_data_frame [OF mc le_refl k assms(4)] obtain p where
    p: "read_message ops (ev_codecs e) (dv_proto d) = (Inr (MWrite a n), p)" "inbox (pr_io p) = bs @ rest"
      "outbox (pr_io p) = outbox (pr_io (dv_proto d))" "length (pr_buf p) = ?k"
    by (auto simp: read_message_def n_def)
  have "unat n \<le> length (inbox (pr_io p))" using p n by simp
  from read_law [OF this] obtain q where q: "op_read ops (pr_io p) (unat n) = (Some bs, q)" "inbox q = rest"
    "outbox q = outbox (pr_io (dv_proto d))" using p n by auto
  define d1 where "d1 = set_io q (set_mem (store_bytes (dv_mem d) a bs) (d\<lparr>dv_proto := p\<rparr>))"
  have d1: "handle_message e (d\<lparr>dv_proto := p\<rparr>) (MWrite a n) = Some (RAck, d1)"
    "inbox (pr_io (dv_proto d1)) = rest" "outbox (pr_io (dv_proto d1)) = outbox (pr_io (dv_proto d))"
    "length (pr_buf (dv_proto d1)) = ?k" "dv_mem d1 = store_bytes (dv_mem d) a bs"
    "d1 = (set_mem (store_bytes (dv_mem d) a bs) d)\<lparr>dv_proto := dv_proto d1\<rparr>"
    using q p assms(1) by (simp_all add: handle_message_def do_write_def d1_def)
  from write_data_frame [of "response_codec (ev_codecs e)" "dv_proto d1" RAck] rc d1 obtain p2 where
    p2: "send_response ops (ev_codecs e) (dv_proto d1) RAck = (Inr (), p2)" "inbox (pr_io p2) = rest"
      "outbox (pr_io p2) = outbox (pr_io (dv_proto d)) @ rframe (ev_codecs e) RAck" "length (pr_buf p2) = ?k"
    by (auto simp: send_response_def)
  have "handler_step e d = Continue (d1\<lparr>dv_proto := p2\<rparr>)"
    using p p2 d1 assms(1) by (simp add: handler_step_def)
  moreover have "d1\<lparr>dv_proto := p2\<rparr> = (set_mem (store_bytes (dv_mem d) a bs) d)\<lparr>dv_proto := p2\<rparr>"
    by (subst d1(6)) simp
  ultimately show ?thesis using p2 d1(5) assms(2) by (intro exI [of _ "d1\<lparr>dv_proto := p2\<rparr>"]) (simp add: proto_ok_def)
qed

lemma serve_read:
  assumes "ev_ops e = ops" and "proto_ok e d"
    and "inbox (pr_io (dv_proto d)) = mframe (ev_codecs e) (MRead a n) @ rest"
  shows "\<exists>d'. handler_step e d = Continue d' \<and> dv_mem d' = dv_mem d \<and> proto_ok e d' \<and>
    inbox (pr_io (dv_proto d')) = rest \<and>
    outbox (pr_io (dv_proto d')) =
      outbox (pr_io (dv_proto d)) @ load_bytes (dv_mem d) a (unat n) @ rframe (ev_codecs e) RAck"
proof -
  let ?k = "length (pr_buf (dv_proto d))"
  from assms(2) have mc: "codec_ok (message_codec (ev_codecs e)) ?k" and rc: "codec_ok (response_codec (ev_codecs e)) ?k"
    and k: "?k < 2 ^ 32" by (simp_all add: proto_ok_def codecs_ok_def)
  from read_data_frame [OF mc le_refl k assms(3)] obtain p where
    p: "read_message ops (ev_codecs e) (dv_proto d) = (Inr (MRead a n), p)" "inbox (pr_io p) = rest"
      "outbox (pr_io p) = outbox (pr_io (dv_proto d))" "length (pr_buf p) = ?k"
    by (auto simp: read_message_def)
  obtain q where q: "op_write ops (pr_io p) (load_bytes (dv_mem d) a (unat n)) = (True, q)" "inbox q = rest"
    "outbox q = outbox (pr_io (dv_proto d)) @ load_bytes (dv_mem d) a (unat n)"
    using write_law p by metis
  define d1 where "d1 = set_io q (d\<lparr>dv_proto := p\<rparr>)"
  have d1: "handle_message e (d\<lparr>dv_proto := p\<rparr>) (MRead a n) = Some (RAck, d1)"
    "inbox (pr_io (dv_proto d1)) = rest"
    "outbox (pr_io (dv_proto d1)) = outbox (pr_io (dv_proto d)) @ load_bytes (dv_mem d) a (unat n)"
    "length (pr_buf (dv_proto d1)) = ?k" "dv_mem d1 = dv_mem d"
    using q p assms(1) by (simp_all add: handle_message_def do_read_def d1_def)
  from write_data_frame [of "response_codec (ev_codecs e)" "dv_proto d1" RAck] rc d1 obtain p2 where
    p2: "send_response ops (ev_codecs e) (dv_proto d1) RAck = (Inr (), p2)" "inbox (pr_io p2) = rest"
      "outbox (pr_io p2) = outbox (pr_io (dv_proto d)) @ load_bytes (dv_mem d) a (unat n) @ rframe (ev_codecs e) RAck"
      "length (pr_buf p2) = ?k"
    by (auto simp: send_response_def)
  have "handler_step e d = Continue (d1\<lparr>dv_proto := p2\<rparr>)"
    using p p2 d1 assms(1) by (simp add: handler_step_def)
  then show ?thesis using p2 d1 assms(2) by (simp add: proto_ok_def)
qed

end

section \<open>Reachable states\<close>

text \<open>The states the payload goes through as it serves requests.\<close>

inductive served :: "'p env \<Rightarrow> 'p device \<Rightarrow> 'p device \<Rightarrow> bool" for e d0 where
  start: "served e d0 d0"
| turn: "served e d0 d \<Longrightarrow> handler_step e d = Continue d' \<Longrightarrow> served e d0 d'"

text \<open>Native functions leave the parameter statics of the payload alone.\<close>

definition calls_keep_statics :: "'p env \<Rightarrow> bool" where
  "calls_keep_statics e \<longleftrightarrow> (\<forall>a as d d'. ev_call e a as d = Some d' \<longrightarrow>
     dv_params d' = dv_params d \<and> dv_preloader d' = dv_preloader d \<and> dv_lk d' = dv_lk d)"

text \<open>What may change from one state to the next: reservations only grow, the other parameters
  stay, and stored pointers are valid ones.\<close>

definition statics_step :: "'p env \<Rightarrow> 'p device \<Rightarrow> 'p device \<Rightarrow> bool" where
  "statics_step e d d' \<longleftrightarrow>
     reserved (dv_params d) \<subseteq> reserved (dv_params d') \<and>
     dv_params d' = (dv_params d)\<lparr>pp_blacklist := pp_blacklist (dv_params d')\<rparr> \<and>
     (dv_preloader d' = dv_preloader d \<or> ev_pl e \<and> (\<exists>p. dv_preloader d' = Some p \<and> preloader_params_valid p)) \<and>
     (dv_lk d' = dv_lk d \<or> ev_pl e \<and> (\<exists>p. dv_lk d' = Some p \<and> lk_params_valid p))"

lemma statics_step_refl: "dv_params d' = dv_params d \<Longrightarrow> dv_preloader d' = dv_preloader d \<Longrightarrow>
   dv_lk d' = dv_lk d \<Longrightarrow> statics_step e d d'"
  by (simp add: statics_step_def)

lemma statics_step_trans: "statics_step e d d1 \<Longrightarrow> statics_step e d1 d2 \<Longrightarrow> statics_step e d d2"
  unfolding statics_step_def by (elim conjE, intro conjI) (blast | metis PayloadParams.surjective PayloadParams.update_convs(4))+

lemma blacklist_grows:
  "blacklist_dl p r = Inr q \<Longrightarrow> reserved p \<subseteq> reserved q \<and> q = p\<lparr>pp_blacklist := pp_blacklist q\<rparr>"
  unfolding blacklist_dl_def
  by (frule reserved_blacklist_with) (auto elim!: blacklist_with_cases)

lemma handle_message_statics:
  assumes "handle_message e d m = Some (r, d')" and "calls_keep_statics e"
  shows "statics_step e d d'"
proof (cases m)
  case (MBlacklistRange b)
  with assms(1) show ?thesis
    using blacklist_grows [of "dv_params d" b]
    by (auto simp: handle_message_def do_blacklist_def statics_step_def split: sum.splits)
next
  case (MSetParams ps)
  with assms(1) show ?thesis
    by (auto simp: handle_message_def do_set_params_def statics_step_def split: if_splits ParamsType.splits)
next
  case (MJump a r0 r1)
  with assms show ?thesis
    by (auto simp: handle_message_def do_jump_def calls_keep_statics_def
        intro!: statics_step_refl split: if_splits option.splits)
next
  case (MHook h)
  with assms show ?thesis
    by (auto simp: handle_message_def do_hook_def
        intro!: statics_step_refl split: if_splits option.splits HookId.splits)
qed (use assms in \<open>auto simp: handle_message_def do_read_def do_write_def do_flush_def do_reset_def do_free_range_def
      intro!: statics_step_refl split: option.splits prod.splits\<close>)

text \<open>The cases of a turn that continues.\<close>

lemma handler_step_cases:
  assumes "handler_step e d = Continue d'"
  obtains (bad) x p where "read_message (ev_ops e) (ev_codecs e) (dv_proto d) = (Inl x, p)"
    and "x \<noteq> Panic" and "d' = d\<lparr>dv_proto := dv_proto d'\<rparr>"
  | (message) m p r d1 where "read_message (ev_ops e) (ev_codecs e) (dv_proto d) = (Inr m, p)"
    and "handle_message e (d\<lparr>dv_proto := p\<rparr>) m = Some (r, d1)" and "d' = d1\<lparr>dv_proto := dv_proto d'\<rparr>"
proof -
  obtain x p where r: "read_message (ev_ops e) (ev_codecs e) (dv_proto d) = (x, p)" by (rule prod.exhaust)
  show ?thesis
  proof (cases x)
    case (Inl y)
    with assms r show ?thesis
      by (intro bad) (auto simp: handler_step_def Let_def split: wire_err.splits prod.splits sum.splits)
  next
    case (Inr m)
    with assms r obtain rp d1 where "handle_message e (d\<lparr>dv_proto := p\<rparr>) m = Some (rp, d1)"
      "d' = d1\<lparr>dv_proto := dv_proto d'\<rparr>"
      by (auto simp: handler_step_def Let_def split: option.splits prod.splits sum.splits)
    with r Inr show ?thesis by (intro message) simp_all
  qed
qed

lemma handler_step_statics:
  assumes "handler_step e d = Continue d'" and "calls_keep_statics e"
  shows "statics_step e d d'"
  using assms(1)
proof (cases rule: handler_step_cases)
  case bad
  show ?thesis by (subst bad(3)) (rule statics_step_refl; simp)
next
  case (message m p r d1)
  have "statics_step e d (d\<lparr>dv_proto := p\<rparr>)" by (rule statics_step_refl) simp_all
  moreover have "statics_step e (d\<lparr>dv_proto := p\<rparr>) d1" by (rule handle_message_statics [OF message(2) assms(2)])
  moreover have "statics_step e d1 d'" by (subst message(3)) (rule statics_step_refl; simp)
  ultimately show ?thesis by (blast intro: statics_step_trans)
qed

lemma served_statics: "served e d0 d \<Longrightarrow> calls_keep_statics e \<Longrightarrow> statics_step e d0 d"
  by (induction rule: served.induct)
    (auto intro: statics_step_refl statics_step_trans dest: handler_step_statics)

text \<open>A device for evaluation: the sample parameters with \<open>0x80000000..0x80001001\<close> blacklisted,
  queues as transport, native calls that do not come back.\<close>

definition sample_env :: "bool \<Rightarrow> queues env" where
  "sample_env pl = \<lparr>ev_pl = pl, ev_ops = usb_ops queue_recv queue_send, ev_codecs = sample_codecs,
     ev_call = (\<lambda>_ _ _. None), ev_toprgu = (\<lambda>_. 0x10007000), ev_body = 0x80100001\<rparr>"

definition sample_device :: "u8 list \<Rightarrow> queues device" where
  "sample_device bs = \<lparr>dv_params = sample_params, dv_proto = protocol_new 24 \<lparr>q_in = bs, q_out = []\<rparr>,
     dv_preloader = None, dv_lk = None, dv_icept = sample_istate, dv_addr = 0\<rparr>"

lemma sample_env_ok: "fifo_port (ev_ops (sample_env pl)) q_in q_out" "calls_keep_port (sample_env pl)"
  "calls_keep_statics (sample_env pl)"
  by (simp_all add: sample_env_def calls_keep_port_def calls_keep_statics_def usb.fifo_port_axioms)

lemma sample_device_ok: "proto_ok (sample_env pl) (sample_device bs)"
  using sample_codecs_ok [of 24] by (simp add: proto_ok_def sample_env_def sample_device_def protocol_new_def)

lemma sample_device_io: "pr_io (dv_proto (sample_device bs)) = \<lparr>q_in = bs, q_out = []\<rparr>"
  by (simp add: sample_device_def protocol_new_def)

section \<open>Properties\<close>

text \<open>C5: The device stays in step with the host. When the transport holds a well-formed
  request with its payload, one turn of the loop never halts: it either ends in a native call that
  does not come back, or consumes exactly the request and its payload, and puts out exactly the data
  that was asked for followed by one response.\<close>

theorem request_is_answered:
  assumes "fifo_port (ev_ops e) inbox outbox" and "calls_keep_port e" and "proto_ok e d"
    and "inbox (pr_io (dv_proto d)) = mframe (ev_codecs e) m @ payload @ rest" and "length payload = payload_size m"
  shows "handler_step e d = Left \<or> (\<exists>d' r. handler_step e d = Continue d' \<and>
    inbox (pr_io (dv_proto d')) = rest \<and>
    outbox (pr_io (dv_proto d')) = outbox (pr_io (dv_proto d)) @ answer_data (dv_mem d) m @ rframe (ev_codecs e) r \<and>
    proto_ok e d')"
  using fifo_port.handler_step_serves [OF assms(1) refl assms(2-5)] by blast

lemma request_is_answered_witness:
  "\<exists>d' r. handler_step (sample_env True) (sample_device (mframe sample_codecs (MRead 0x80000000 4))) = Continue d' \<and>
     q_out (pr_io (dv_proto d')) = [0, 0, 0, 0] @ rframe sample_codecs r"
proof -
  let ?e = "sample_env True" and ?d = "sample_device (mframe sample_codecs (MRead 0x80000000 4))"
  have c: "ev_codecs ?e = sample_codecs" by (simp add: sample_env_def)
  have i: "q_in (pr_io (dv_proto ?d)) = mframe (ev_codecs ?e) (MRead 0x80000000 4) @ [] @ []"
    by (simp add: sample_device_io c)
  have "handler_step ?e ?d \<noteq> Left"
    using fifo_port.serve_read [OF sample_env_ok(1) refl sample_device_ok i] by auto
  moreover have "answer_data (dv_mem ?d) (MRead 0x80000000 4) = [0, 0, 0, 0]"
    by (simp add: sample_device_def sample_istate_def load_bytes_def upt_rec)
  ultimately show ?thesis
    using request_is_answered [OF sample_env_ok(1,2) sample_device_ok i] by (auto simp: c sample_device_io)
qed

text \<open>C11: Through any number of requests, malformed ones included, the payload only ever adds
  to its blacklist, leaves the rest of its parameter block alone, and stores preloader and LK pointers only
  when they are valid and only in the build that has them; so a jump through the preloader and a hook
  never use a null pointer.\<close>

theorem reachable_statics:
  assumes "served e d0 d" and "calls_keep_statics e" and "dv_preloader d0 = None" and "dv_lk d0 = None"
  shows "reserved (dv_params d0) \<subseteq> reserved (dv_params d) \<and>
    dv_params d = (dv_params d0)\<lparr>pp_blacklist := pp_blacklist (dv_params d)\<rparr> \<and>
    (\<forall>p. dv_preloader d = Some p \<longrightarrow> ev_pl e \<and> ptr_bldr_jump p \<noteq> 0) \<and>
    (\<forall>p. dv_lk d = Some p \<longrightarrow> ev_pl e \<and> ptr_mt_part_generic_read p \<noteq> 0 \<and>
       ptr_mt_part_get_partition p \<noteq> 0 \<and> bootimg_scratch_addr p \<noteq> 0)"
  using served_statics [OF assms(1,2)] assms(3,4)
  by (auto simp: statics_step_def preloader_params_valid_def lk_params_valid_def)

lemma reachable_statics_witness:
  "\<exists>d. served (sample_env True) (sample_device (mframe sample_codecs (MWrite 0x80000000 2) @ [1, 2])) d \<and>
     dv_mem d = store_bytes (\<lambda>_. 0) 0x80000000 [1, 2] \<and> (0x80000000, 0x80001001) \<in> reserved (dv_params d)"
proof -
  let ?e = "sample_env True" and ?d = "sample_device (mframe sample_codecs (MWrite 0x80000000 2) @ [1, 2])"
  have i: "q_in (pr_io (dv_proto ?d)) =
      mframe (ev_codecs ?e) (MWrite 0x80000000 (word_of_nat (length [1, 2 :: u8]))) @ [1, 2] @ []"
    by (simp add: sample_device_io sample_env_def)
  obtain d where d: "handler_step ?e ?d = Continue d" "dv_mem d = store_bytes (dv_mem ?d) 0x80000000 [1, 2]"
    using fifo_port.serve_write [OF sample_env_ok(1) refl sample_device_ok _ i] by auto
  from served.turn [OF served.start d(1)] have s: "served ?e ?d d" .
  have "dv_preloader ?d = None" "dv_lk ?d = None" "dv_mem ?d = (\<lambda>_. 0)" "dv_params ?d = sample_params"
    by (simp_all add: sample_device_def sample_istate_def)
  with reachable_statics [OF s sample_env_ok(3)] s d(2) reserved_sample show ?thesis by auto
qed

text \<open>C37: The blacklist does not protect memory from the host: whatever ranges are blacklisted,
  a \<open>Write\<close> to any address is carried out and acknowledged, and no request at all is ever answered with
  \<open>DownloadForbidden\<close>.\<close>

theorem writes_ignore_blacklist:
  assumes "fifo_port (ev_ops e) inbox outbox" and "length bs < 2 ^ 32"
    and "proto_ok e d" and "inbox (pr_io (dv_proto d)) = mframe (ev_codecs e) (MWrite a (word_of_nat (length bs))) @ bs @ rest"
  shows "\<exists>d'. handler_step e d = Continue d' \<and> dv_mem d' = store_bytes (dv_mem d) a bs \<and>
    outbox (pr_io (dv_proto d')) = outbox (pr_io (dv_proto d)) @ rframe (ev_codecs e) RAck \<and>
    (\<forall>d m. \<nexists>d'. handle_message e d m = Some (RNack DownloadForbidden, d'))"
proof -
  have "handle_message e d m \<noteq> Some (RNack DownloadForbidden, d')" for d m d'
    by (cases m) (auto simp: handle_message_def do_read_def do_write_def do_flush_def do_jump_def do_reset_def
      do_hook_def do_free_range_def do_blacklist_def do_set_params_def
      split: option.splits prod.splits sum.splits if_splits HookId.splits ParamsType.splits)
  with fifo_port.serve_write [OF assms(1) refl assms(3,2,4)] show ?thesis by blast
qed

lemma writes_ignore_blacklist_witness:
  "(0x80000000, 0x80001001) \<in> reserved (dv_params (sample_device [])) \<and>
   (\<exists>d'. handler_step (sample_env True) (sample_device (mframe sample_codecs (MWrite 0x80000000 2) @ [1, 2])) = Continue d' \<and>
     dv_mem d' = store_bytes (\<lambda>_. 0) 0x80000000 [1, 2])"
proof -
  let ?e = "sample_env True" and ?d = "sample_device (mframe sample_codecs (MWrite 0x80000000 2) @ [1, 2])"
  have i: "q_in (pr_io (dv_proto ?d)) =
      mframe (ev_codecs ?e) (MWrite 0x80000000 (word_of_nat (length [1, 2 :: u8]))) @ [1, 2] @ []"
    by (simp add: sample_device_io sample_env_def)
  have "dv_mem ?d = (\<lambda>_. 0)" "dv_params (sample_device []) = sample_params"
    by (simp_all add: sample_device_def sample_istate_def)
  with writes_ignore_blacklist [OF sample_env_ok(1) _ sample_device_ok i] reserved_sample show ?thesis by auto
qed

end
