(* ===== verification/HostExt.thy ===== *)
theory HostExt
  imports Device
begin

text \<open>
  The host's side of the protocol, \<open>crates/da-boot/src/boot/rpc/ext.rs\<close>: the start of a session,
  the chunked upload and the chunked download. The lemmas link the host to the device model of
  theory \<open>Device\<close>, so that upload and download are proved against the memory of the device.
\<close>

section \<open>The extensions\<close>

definition CHUNK_SIZE :: nat where "CHUNK_SIZE = 256 * 1024"

datatype host_err = HostWire wire_err | HostIo | NoAck

text \<open>\<open>slice::chunks\<close>.\<close>

function chunks :: "nat \<Rightarrow> 'a list \<Rightarrow> 'a list list" where
  "chunks n xs = (if xs = [] \<or> n = 0 then [] else take n xs # chunks n (drop n xs))"
  by pat_completeness auto
termination by (relation "measure (\<lambda>(n, xs). length xs)") auto

declare chunks.simps [simp del]

definition host_start :: "'p port_ops \<Rightarrow> codecs \<Rightarrow> 'p protocol \<Rightarrow> (host_err + unit) \<times> 'p protocol" where
  "host_start ops cs p =
     (case read_message ops cs p of
        (Inl x, p) \<Rightarrow> (Inl (HostWire x), p)
      | (Inr m, p) \<Rightarrow>
          if message_is_ack m
          then (case send_message ops cs p MAck of
                  (Inl x, p) \<Rightarrow> (Inl (HostWire x), p)
                | (Inr _, p) \<Rightarrow> (Inr (), p))
          else (Inl NoAck, p))"

text \<open>The response is read and dropped, whatever it says.\<close>

fun upload_loop :: "'p port_ops \<Rightarrow> codecs \<Rightarrow> u32 \<Rightarrow> nat \<Rightarrow> u8 list list \<Rightarrow> 'p protocol \<Rightarrow>
    (host_err + unit) \<times> 'p protocol" where
  "upload_loop ops cs addr i [] p = (Inr (), p)"
| "upload_loop ops cs addr i (data # rest) p =
     (case send_message ops cs p (MWrite (addr + word_of_nat (i * CHUNK_SIZE)) (word_of_nat (length data))) of
        (Inl x, p) \<Rightarrow> (Inl (HostWire x), p)
      | (Inr _, p) \<Rightarrow>
          (case op_write ops (pr_io p) data of
             (False, q) \<Rightarrow> (Inl HostIo, p\<lparr>pr_io := q\<rparr>)
           | (True, q) \<Rightarrow>
               (case read_response ops cs (p\<lparr>pr_io := q\<rparr>) of
                  (Inl x, p) \<Rightarrow> (Inl (HostWire x), p)
                | (Inr _, p) \<Rightarrow> upload_loop ops cs addr (Suc i) rest p)))"

definition upload :: "'p port_ops \<Rightarrow> codecs \<Rightarrow> u32 \<Rightarrow> u8 list \<Rightarrow> 'p protocol \<Rightarrow> (host_err + unit) \<times> 'p protocol" where
  "upload ops cs addr data p = upload_loop ops cs addr 0 (chunks CHUNK_SIZE data) p"

text \<open>The closure of \<open>download\<close>, which fills a part of the vector.\<close>

definition do_download :: "'p port_ops \<Rightarrow> codecs \<Rightarrow> u32 \<Rightarrow> u32 \<Rightarrow> nat \<Rightarrow> u8 list \<times> 'p protocol \<Rightarrow>
    (host_err + u8 list) \<times> 'p protocol" where
  "do_download ops cs addr chunk_len offset = (\<lambda>(vec, p).
     case send_message ops cs p (MRead addr chunk_len) of
       (Inl x, p) \<Rightarrow> (Inl (HostWire x), p)
     | (Inr _, p) \<Rightarrow>
         (case op_read ops (pr_io p) (unat chunk_len) of
            (None, q) \<Rightarrow> (Inl HostIo, p\<lparr>pr_io := q\<rparr>)
          | (Some bs, q) \<Rightarrow>
              let vec = take offset vec @ bs @ drop (offset + unat chunk_len) vec
              in (case read_response ops cs (p\<lparr>pr_io := q\<rparr>) of
                    (Inl x, p) \<Rightarrow> (Inl (HostWire x), p)
                  | (Inr r, p) \<Rightarrow> if response_is_ack r then (Inr vec, p) else (Inl NoAck, p))))"

text \<open>The \<open>for\<close> loop over the full chunks, from chunk \<open>i\<close> on with \<open>k\<close> chunks to go.\<close>

fun download_loop :: "'p port_ops \<Rightarrow> codecs \<Rightarrow> u32 \<Rightarrow> nat \<Rightarrow> nat \<Rightarrow> u8 list \<times> 'p protocol \<Rightarrow>
    (host_err + u8 list) \<times> 'p protocol" where
  "download_loop ops cs addr i 0 s = (Inr (fst s), snd s)"
| "download_loop ops cs addr i (Suc k) s =
     (case do_download ops cs (addr + word_of_nat (i * CHUNK_SIZE)) (word_of_nat CHUNK_SIZE) (i * CHUNK_SIZE) s of
        (Inl x, p) \<Rightarrow> (Inl x, p)
      | (Inr vec, p) \<Rightarrow> download_loop ops cs addr (Suc i) k (vec, p))"

definition download :: "'p port_ops \<Rightarrow> codecs \<Rightarrow> u32 \<Rightarrow> u32 \<Rightarrow> 'p protocol \<Rightarrow> (host_err + u8 list) \<times> 'p protocol" where
  "download ops cs addr len p =
     (let full = unat len div CHUNK_SIZE; remainder = unat len mod CHUNK_SIZE
      in case download_loop ops cs addr 0 full (replicate (unat len) 0, p) of
           (Inl x, p) \<Rightarrow> (Inl x, p)
         | (Inr vec, p) \<Rightarrow>
             if remainder \<noteq> 0
             then do_download ops cs (addr + word_of_nat (full * CHUNK_SIZE)) (word_of_nat remainder)
                    (full * CHUNK_SIZE) (vec, p)
             else (Inr vec, p))"

section \<open>Host and device linked\<close>

text \<open>
  The port of a host whose peer is the device: written bytes arrive in the device's queue, and a
  read for which nothing has been put out yet lets the device take one turn. The state of the port
  is the device itself. Reading fails when the device halts, leaves, or puts out too little.
\<close>

definition dv_queues :: "queues device \<Rightarrow> queues" where
  "dv_queues d = pr_io (dv_proto d)"

definition link_pump :: "queues env \<Rightarrow> nat \<Rightarrow> queues device \<Rightarrow> queues device option" where
  "link_pump e n d =
     (if n \<le> length (q_out (dv_queues d)) then Some d
      else (case handler_step e d of
              Continue d' \<Rightarrow> if n \<le> length (q_out (dv_queues d')) then Some d' else None
            | _ \<Rightarrow> None))"

definition link_read :: "queues env \<Rightarrow> queues device \<Rightarrow> nat \<Rightarrow> u8 list option \<times> queues device" where
  "link_read e d n =
     (case link_pump e n d of
        None \<Rightarrow> (None, d)
      | Some d' \<Rightarrow> (Some (take n (q_out (dv_queues d'))),
                   set_io ((dv_queues d')\<lparr>q_out := drop n (q_out (dv_queues d'))\<rparr>) d'))"

definition link_write :: "queues device \<Rightarrow> u8 list \<Rightarrow> bool \<times> queues device" where
  "link_write d bs = (True, set_io ((dv_queues d)\<lparr>q_in := q_in (dv_queues d) @ bs\<rparr>) d)"

definition linked_ops :: "queues env \<Rightarrow> queues device port_ops" where
  "linked_ops e =
     \<lparr>op_read = link_read e, op_write = link_write,
      op_read_u32_be = (\<lambda>d. case link_read e d 4 of (bs, d') \<Rightarrow> (map_option of_be32 bs, d')),
      op_write_u32_be = (\<lambda>d v. link_write d (be32 v))\<rparr>"

definition feed :: "u8 list \<Rightarrow> queues device \<Rightarrow> queues device" where
  "feed bs d = set_io ((dv_queues d)\<lparr>q_in := q_in (dv_queues d) @ bs\<rparr>) d"

definition drained :: "nat \<Rightarrow> queues device \<Rightarrow> queues device" where
  "drained n d = set_io ((dv_queues d)\<lparr>q_out := drop n (q_out (dv_queues d))\<rparr>) d"

lemma queues_set_io [simp]: "dv_queues (set_io q d) = q"
  by (simp add: dv_queues_def)

lemma feed_simps [simp]:
  "q_in (dv_queues (feed bs d)) = q_in (dv_queues d) @ bs" "q_out (dv_queues (feed bs d)) = q_out (dv_queues d)"
  "dv_icept (feed bs d) = dv_icept d" "proto_ok e (feed bs d) = proto_ok e d"
  "feed cs (feed bs d) = feed (bs @ cs) d"
  by (simp_all add: feed_def proto_ok_def set_io_def dv_queues_def)

lemma drained_simps [simp]:
  "q_in (dv_queues (drained n d)) = q_in (dv_queues d)" "q_out (dv_queues (drained n d)) = drop n (q_out (dv_queues d))"
  "dv_icept (drained n d) = dv_icept d" "proto_ok e (drained n d) = proto_ok e d"
  "drained k (drained n d) = drained (k + n) d"
  by (simp_all add: drained_def proto_ok_def set_io_def dv_queues_def)

lemma link_read_ready: "n \<le> length (q_out (dv_queues d)) \<Longrightarrow>
   link_read e d n = (Some (take n (q_out (dv_queues d))), drained n d)"
  by (simp add: link_read_def link_pump_def drained_def)

lemma link_read_turn: "q_out (dv_queues d) = [] \<Longrightarrow> 0 < n \<Longrightarrow> handler_step e d = Continue d' \<Longrightarrow>
   n \<le> length (q_out (dv_queues d')) \<Longrightarrow> link_read e d n = link_read e d' n"
  by (simp add: link_read_def link_pump_def)

lemma link_send:
  assumes "codec_ok c (length (pr_buf p))"
  shows "\<exists>p'. write_data (linked_ops e) c p m = (Inr (), p') \<and> pr_io p' = feed (frame c m) (pr_io p) \<and>
    length (pr_buf p') = length (pr_buf p)"
proof -
  from assms have l: "length (cd_bytes c m) \<le> length (pr_buf p)" by (simp add: codec_ok_def)
  have "link_write d bs = (True, feed bs d)" for d bs by (simp add: link_write_def feed_def)
  with l show ?thesis by (simp add: write_data_def to_slice_def linked_ops_def frame_def)
qed

lemma link_receive:
  assumes "codec_ok c (length (pr_buf p))" and "length (pr_buf p) < 2 ^ 32"
    and "q_out (dv_queues (pr_io p)) = frame c m @ rest"
  shows "\<exists>p'. read_data (linked_ops e) c p = (Inr m, p') \<and> pr_io p' = drained (length (frame c m)) (pr_io p) \<and>
    length (pr_buf p') = length (pr_buf p)"
proof -
  from assms(1) have l: "length (cd_bytes c m) \<le> length (pr_buf p)"
    and dec: "\<And>rest. cd_from_bytes c (cd_bytes c m @ rest) = Some m" by (simp_all add: codec_ok_def)
  have un: "unat (word_of_nat (length (cd_bytes c m)) :: u32) = length (cd_bytes c m)"
    using l assms(2) by (simp add: unat_of_nat)
  from assms(3) have q: "q_out (dv_queues (pr_io p)) = be32 (word_of_nat (length (cd_bytes c m))) @ cd_bytes c m @ rest"
    by (simp add: frame_def)
  show ?thesis
    using l dec by (simp add: read_data_def linked_ops_def link_read_ready q un frame_def add.commute)
qed

text \<open>Waiting for a response lets the device take its turn.\<close>

lemma read_data_turn:
  assumes "q_out (dv_queues (pr_io p)) = []" and "handler_step e (pr_io p) = Continue d'"
    and "4 \<le> length (q_out (dv_queues d'))"
  shows "read_data (linked_ops e) c p = read_data (linked_ops e) c (p\<lparr>pr_io := d'\<rparr>)"
  using link_read_turn [OF assms(1) _ assms(2,3)] by (cases p; cases "link_read e d' 4") (auto simp: read_data_def linked_ops_def split: option.split prod.split)

text \<open>A device that differs from another in its transport only.\<close>

definition same_but_port :: "'p device \<Rightarrow> 'p device \<Rightarrow> bool" where
  "same_but_port d d' \<longleftrightarrow> d' = d\<lparr>dv_proto := dv_proto d'\<rparr>"

lemma same_but_port_trans: "same_but_port d d1 \<Longrightarrow> same_but_port d1 d2 \<Longrightarrow> same_but_port d d2"
  by (cases d, cases d1, cases d2) (simp add: same_but_port_def)

lemma same_but_port_set_mem: "same_but_port d d1 \<Longrightarrow> same_but_port (set_mem m d) (set_mem m d1)"
  by (cases d, cases d1) (simp add: same_but_port_def set_mem_def)

lemma same_but_port_simps:
  "same_but_port d d' \<Longrightarrow> dv_params d' = dv_params d \<and> dv_icept d' = dv_icept d \<and>
     dv_preloader d' = dv_preloader d \<and> dv_lk d' = dv_lk d \<and> dv_addr d' = dv_addr d"
  unfolding same_but_port_def by (metis device.select_convs device.surjective device.update_convs(2))

lemma same_but_port_link: "same_but_port d (feed bs d)" "same_but_port d (drained n d)" "same_but_port d (set_io q d)"
  by (simp_all add: same_but_port_def feed_def drained_def set_io_def)

lemma set_mem_set_mem [simp]: "set_mem m (set_mem m' d) = set_mem m d"
  by (simp add: set_mem_def)

text \<open>A host whose link is idle, and whose buffer and serializer fit the device.\<close>

definition idle :: "queues env \<Rightarrow> queues device protocol \<Rightarrow> bool" where
  "idle e p \<longleftrightarrow> ev_ops e = usb_ops queue_recv queue_send \<and> proto_ok e (pr_io p) \<and>
     codecs_ok (ev_codecs e) (length (pr_buf p)) \<and> length (pr_buf p) < 2 ^ 32 \<and>
     dv_queues (pr_io p) = \<lparr>q_in = [], q_out = []\<rparr>"

lemma idleD:
  assumes "idle e p"
  shows "ev_ops e = usb_ops queue_recv queue_send" and "proto_ok e (pr_io p)"
    and "codec_ok (message_codec (ev_codecs e)) (length (pr_buf p))"
    and "codec_ok (response_codec (ev_codecs e)) (length (pr_buf p))" and "length (pr_buf p) < 2 ^ 32"
    and "q_in (dv_queues (pr_io p)) = []" and "q_out (dv_queues (pr_io p)) = []"
  using assms by (simp_all add: idle_def codecs_ok_def)

lemma upload_chunk:
  assumes "idle e p" and "length bs < 2 ^ 32"
  shows "\<exists>p'. upload_loop (linked_ops e) (ev_codecs e) addr i (bs # rest) p =
      upload_loop (linked_ops e) (ev_codecs e) addr (Suc i) rest p' \<and>
    idle e p' \<and> same_but_port (set_mem (store_bytes (dv_mem (pr_io p)) (addr + word_of_nat (i * CHUNK_SIZE)) bs) (pr_io p)) (pr_io p')"
proof -
  note p = idleD [OF assms(1)]
  let ?a = "addr + word_of_nat (i * CHUNK_SIZE)"
  let ?m = "MWrite ?a (word_of_nat (length bs))"
  from link_send [OF p(3), of e ?m] obtain p1 where
    p1: "send_message (linked_ops e) (ev_codecs e) p ?m = (Inr (), p1)"
      "pr_io p1 = feed (mframe (ev_codecs e) ?m) (pr_io p)" "length (pr_buf p1) = length (pr_buf p)"
    by (auto simp: send_message_def)
  define d where "d = feed (mframe (ev_codecs e) ?m @ bs) (pr_io p)"
  have w: "op_write (linked_ops e) (pr_io p1) bs = (True, d)"
    using p1(2) by (simp add: linked_ops_def link_write_def d_def feed_def set_io_def dv_queues_def)
  have "q_in (pr_io (dv_proto d)) = mframe (ev_codecs e) ?m @ bs @ []"
    using p(6) by (simp add: d_def flip: dv_queues_def)
  from usb.serve_write [OF p(1) _ assms(2) this] p(2) obtain d' where
    d': "handler_step e d = Continue d'" "same_but_port (set_mem (store_bytes (dv_mem d) ?a bs) d) d'" "proto_ok e d'"
      "q_in (dv_queues d') = []" "q_out (dv_queues d') = rframe (ev_codecs e) RAck"
    using p(7) unfolding same_but_port_def by (auto simp: d_def simp flip: dv_queues_def)
  define p2 where "p2 = p1\<lparr>pr_io := d\<rparr>"
  have "read_response (linked_ops e) (ev_codecs e) p2 = read_response (linked_ops e) (ev_codecs e) (p2\<lparr>pr_io := d'\<rparr>)"
    unfolding read_response_def
    by (rule read_data_turn) (use d' p(7) in \<open>simp_all add: p2_def frame_def d_def\<close>)
  moreover from link_receive [of "response_codec (ev_codecs e)" "p2\<lparr>pr_io := d'\<rparr>" RAck "[]" e] p(4,5) p1(3) d'(5)
  obtain p3 where p3: "read_response (linked_ops e) (ev_codecs e) (p2\<lparr>pr_io := d'\<rparr>) = (Inr RAck, p3)"
    "pr_io p3 = drained (length (rframe (ev_codecs e) RAck)) d'" "length (pr_buf p3) = length (pr_buf p)"
    by (auto simp: read_response_def p2_def)
  ultimately have "upload_loop (linked_ops e) (ev_codecs e) addr i (bs # rest) p =
      upload_loop (linked_ops e) (ev_codecs e) addr (Suc i) rest p3"
    using p1 w by (simp add: p2_def)
  moreover have "idle e p3"
    using assms(1) p3 d' by (simp add: idle_def)
  moreover have "same_but_port (set_mem (store_bytes (dv_mem (pr_io p)) ?a bs) (pr_io p)) (pr_io p3)"
  proof -
    have "same_but_port (set_mem (store_bytes (dv_mem d) ?a bs) (pr_io p)) (set_mem (store_bytes (dv_mem d) ?a bs) d)"
      by (rule same_but_port_set_mem) (simp add: d_def same_but_port_link)
    from same_but_port_trans [OF same_but_port_trans [OF this d'(2)], of "pr_io p3"] p3(2)
    show ?thesis by (simp add: same_but_port_link d_def)
  qed
  ultimately show ?thesis by blast
qed

lemma upload_loop_stores:
  "idle e p \<Longrightarrow> \<forall>bs \<in> set cs. length bs < 2 ^ 32 \<Longrightarrow>
   \<exists>p'. upload_loop (linked_ops e) (ev_codecs e) addr i cs p = (Inr (), p') \<and> idle e p' \<and>
     same_but_port (set_mem (foldl (\<lambda>m (j, bs). store_bytes m (addr + word_of_nat (j * CHUNK_SIZE)) bs)
       (dv_mem (pr_io p)) (enumerate i cs)) (pr_io p)) (pr_io p')"
proof (induction cs arbitrary: p i)
  case Nil
  then show ?case by (auto simp: same_but_port_def set_mem_def)
next
  case (Cons bs cs)
  then have "length bs < 2 ^ 32" by simp
  from upload_chunk [OF Cons.prems(1) this, of addr i cs] obtain p1 where
    p1: "upload_loop (linked_ops e) (ev_codecs e) addr i (bs # cs) p =
      upload_loop (linked_ops e) (ev_codecs e) addr (Suc i) cs p1" "idle e p1"
      "same_but_port (set_mem (store_bytes (dv_mem (pr_io p)) (addr + word_of_nat (i * CHUNK_SIZE)) bs) (pr_io p)) (pr_io p1)"
    by blast
  define M where "M = foldl (\<lambda>m (j, bs). store_bytes m (addr + word_of_nat (j * CHUNK_SIZE)) bs)
    (dv_mem (pr_io p1)) (enumerate (Suc i) cs)"
  from Cons.IH [OF p1(2), of "Suc i", folded M_def] Cons.prems(2) obtain p' where
    p': "upload_loop (linked_ops e) (ev_codecs e) addr (Suc i) cs p1 = (Inr (), p')" "idle e p'"
      "same_but_port (set_mem M (pr_io p1)) (pr_io p')" by auto
  have "same_but_port (set_mem M (pr_io p)) (pr_io p')"
    using same_but_port_set_mem [OF p1(3), of M] same_but_port_trans p'(3) by simp
  with p' p1(1) same_but_port_simps [OF p1(3)] show ?case by (auto simp: M_def)
qed

text \<open>The chunks of a block, stored at their offsets, are the block stored at once.\<close>

lemma chunks_store:
  assumes "0 < n"
  shows "foldl (\<lambda>m (j, bs). store_bytes m (a + word_of_nat (j * n)) bs) m (enumerate i (chunks n xs)) =
    store_bytes m (a + word_of_nat (i * n)) xs"
  using assms
proof (induction n xs arbitrary: m i rule: chunks.induct)
  case (1 n xs)
  show ?case
  proof (cases "xs = []")
    case True
    then show ?thesis by (simp add: chunks.simps)
  next
    case False
    with 1(2) have c: "chunks n xs = take n xs # chunks n (drop n xs)" by (simp add: chunks.simps [of n xs])
    from False 1(2) have IH: "foldl (\<lambda>m (j, bs). store_bytes m (a + word_of_nat (j * n)) bs) m'
        (enumerate (Suc i) (chunks n (drop n xs))) = store_bytes m' (a + word_of_nat (Suc i * n)) (drop n xs)" for m'
      by (intro 1(1)) simp_all
    show ?thesis
    proof (cases "n \<le> length xs")
      case True
      have "store_bytes m (a + word_of_nat (i * n)) xs = store_bytes m (a + word_of_nat (i * n)) (take n xs @ drop n xs)"
        by simp
      also have "\<dots> = store_bytes (store_bytes m (a + word_of_nat (i * n)) (take n xs)) (a + word_of_nat (Suc i * n)) (drop n xs)"
        unfolding ram.store_append using True by (simp add: algebra_simps)
      finally show ?thesis using IH by (simp add: c)
    next
      case False
      then show ?thesis using IH by (simp add: c)
    qed
  qed
qed

lemma chunks_length: "0 < n \<Longrightarrow> bs \<in> set (chunks n xs) \<Longrightarrow> length bs \<le> n"
proof (induction n xs rule: chunks.induct)
  case (1 n xs)
  then show ?case by (subst (asm) (2) chunks.simps) (auto split: if_splits)
qed

lemma upload_stores:
  assumes "idle e p"
  shows "\<exists>p'. upload (linked_ops e) (ev_codecs e) addr data p = (Inr (), p') \<and> idle e p' \<and>
    same_but_port (set_mem (store_bytes (dv_mem (pr_io p)) addr data) (pr_io p)) (pr_io p')"
proof -
  have "length bs < 2 ^ 32" if "bs \<in> set (chunks CHUNK_SIZE data)" for bs
    using chunks_length [OF _ that] by (simp add: CHUNK_SIZE_def)
  with upload_loop_stores [OF assms, of "chunks CHUNK_SIZE data" addr 0] chunks_store [of CHUNK_SIZE addr _ 0 data]
  show ?thesis by (simp add: upload_def CHUNK_SIZE_def)
qed

section \<open>Download\<close>

lemma download_chunk:
  assumes "idle e p" and "unat n + k \<le> length vec" and "0 < n"
  shows "\<exists>p'. do_download (linked_ops e) (ev_codecs e) a n k (vec, p) =
      (Inr (take k vec @ load_bytes (dv_mem (pr_io p)) a (unat n) @ drop (k + unat n) vec), p') \<and>
    idle e p' \<and> dv_mem (pr_io p') = dv_mem (pr_io p)"
proof -
  note p = idleD [OF assms(1)]
  let ?bs = "load_bytes (dv_mem (pr_io p)) a (unat n)"
  from link_send [OF p(3), of e "MRead a n"] obtain p1 where
    p1: "send_message (linked_ops e) (ev_codecs e) p (MRead a n) = (Inr (), p1)"
      "pr_io p1 = feed (mframe (ev_codecs e) (MRead a n)) (pr_io p)" "length (pr_buf p1) = length (pr_buf p)"
    by (auto simp: send_message_def)
  have "q_in (pr_io (dv_proto (pr_io p1))) = mframe (ev_codecs e) (MRead a n) @ []"
    using p(6) by (simp add: p1(2) flip: dv_queues_def)
  from usb.serve_read [OF p(1) _ this] p(2,7) obtain d' where
    d': "handler_step e (pr_io p1) = Continue d'" "dv_mem d' = dv_mem (pr_io p)" "proto_ok e d'"
      "q_in (dv_queues d') = []" "q_out (dv_queues d') = ?bs @ rframe (ev_codecs e) RAck"
    by (auto simp: p1(2) simp flip: dv_queues_def)
  have rd: "op_read (linked_ops e) (pr_io p1) (unat n) = (Some ?bs, drained (unat n) d')"
  proof -
    have "link_read e (pr_io p1) (unat n) = link_read e d' (unat n)"
      by (rule link_read_turn) (use assms(3) d' p(7) in \<open>simp_all add: p1(2) unat_gt_0\<close>)
    then show ?thesis using d'(5) by (simp add: linked_ops_def link_read_ready)
  qed
  from link_receive [of "response_codec (ev_codecs e)" "p1\<lparr>pr_io := drained (unat n) d'\<rparr>" RAck "[]" e] p(4,5) p1(3) d'(5)
  obtain p3 where p3: "read_response (linked_ops e) (ev_codecs e) (p1\<lparr>pr_io := drained (unat n) d'\<rparr>) = (Inr RAck, p3)"
    "pr_io p3 = drained (length (rframe (ev_codecs e) RAck) + unat n) d'" "length (pr_buf p3) = length (pr_buf p)"
    by (auto simp: read_response_def)
  have "idle e p3" using assms(1) p3 d' by (simp add: idle_def)
  with p1 rd p3 d'(2) show ?thesis
    by (simp add: do_download_def response_is_ack_def)
qed

lemma download_loop_loads:
  "idle e p \<Longrightarrow> (i + k) * CHUNK_SIZE \<le> length vec \<Longrightarrow>
   take (i * CHUNK_SIZE) vec = load_bytes (dv_mem (pr_io p)) addr (i * CHUNK_SIZE) \<Longrightarrow>
   \<exists>p' vec'. download_loop (linked_ops e) (ev_codecs e) addr i k (vec, p) = (Inr vec', p') \<and> idle e p' \<and>
     dv_mem (pr_io p') = dv_mem (pr_io p) \<and> length vec' = length vec \<and>
     take ((i + k) * CHUNK_SIZE) vec' = load_bytes (dv_mem (pr_io p)) addr ((i + k) * CHUNK_SIZE)"
proof (induction k arbitrary: i vec p)
  case (Suc k)
  let ?m = "dv_mem (pr_io p)" and ?a = "addr + word_of_nat (i * CHUNK_SIZE)"
  let ?vec = "take (i * CHUNK_SIZE) vec @ load_bytes ?m ?a CHUNK_SIZE @ drop (i * CHUNK_SIZE + CHUNK_SIZE) vec"
  have u: "unat (word_of_nat CHUNK_SIZE :: u32) = CHUNK_SIZE" by (simp add: CHUNK_SIZE_def)
  have pos: "(0 :: u32) < word_of_nat CHUNK_SIZE" by (simp add: CHUNK_SIZE_def)
  from Suc.prems(2) have le: "CHUNK_SIZE + i * CHUNK_SIZE \<le> length vec" by (simp add: algebra_simps)
  from download_chunk [OF Suc.prems(1) _ pos, unfolded u, OF le, of ?a] obtain p1 where
    p1: "do_download (linked_ops e) (ev_codecs e) ?a (word_of_nat CHUNK_SIZE) (i * CHUNK_SIZE) (vec, p) = (Inr ?vec, p1)"
      "idle e p1" "dv_mem (pr_io p1) = ?m" by blast
  have len: "length ?vec = length vec" using le by simp
  have "take (Suc i * CHUNK_SIZE) ?vec = load_bytes ?m addr (i * CHUNK_SIZE + CHUNK_SIZE)"
    unfolding ram.load_append using Suc.prems(3) le by (simp add: add.commute)
  with Suc.IH [OF p1(2), of "Suc i" ?vec] Suc.prems(2) p1 len show ?case
    by (auto simp: add.commute)
qed auto

lemma download_loads:
  assumes "idle e p"
  shows "\<exists>p'. download (linked_ops e) (ev_codecs e) addr len p = (Inr (load_bytes (dv_mem (pr_io p)) addr (unat len)), p') \<and>
    idle e p' \<and> dv_mem (pr_io p') = dv_mem (pr_io p)"
proof -
  define full r where "full = unat len div CHUNK_SIZE" and "r = unat len mod CHUNK_SIZE"
  have len: "unat len = full * CHUNK_SIZE + r" by (simp add: full_def r_def)
  have "r < CHUNK_SIZE" by (simp add: r_def CHUNK_SIZE_def)
  then have r: "unat (word_of_nat r :: u32) = r" by (simp add: unat_of_nat CHUNK_SIZE_def)
  from download_loop_loads [OF assms, of 0 full "replicate (unat len) 0" addr] obtain p1 vec where
    p1: "download_loop (linked_ops e) (ev_codecs e) addr 0 full (replicate (unat len) 0, p) = (Inr vec, p1)"
      "idle e p1" "dv_mem (pr_io p1) = dv_mem (pr_io p)" "length vec = unat len"
      "take (full * CHUNK_SIZE) vec = load_bytes (dv_mem (pr_io p)) addr (full * CHUNK_SIZE)"
    by (auto simp: len load_bytes_def)
  show ?thesis
  proof (cases "r = 0")
    case True
    moreover have "CHUNK_SIZE \<noteq> 0" by (simp add: CHUNK_SIZE_def)
    ultimately show ?thesis using p1 len by (simp add: download_def full_def [symmetric] r_def [symmetric])
  next
    case False
    then have "(0 :: u32) < word_of_nat r" using r by (metis unat_0 word_gt_0)
    from download_chunk [OF p1(2) _ this, of "full * CHUNK_SIZE" vec, unfolded r] p1(3,4,5) len obtain p2 where
      "do_download (linked_ops e) (ev_codecs e) (addr + word_of_nat (full * CHUNK_SIZE)) (word_of_nat r)
        (full * CHUNK_SIZE) (vec, p1) = (Inr (load_bytes (dv_mem (pr_io p)) addr (unat len)), p2)"
      "idle e p2" "dv_mem (pr_io p2) = dv_mem (pr_io p)"
      by (auto simp: ram.load_append)
    with p1 False show ?thesis by (simp add: download_def full_def [symmetric] r_def [symmetric])
  qed
qed

section \<open>Properties\<close>

text \<open>C4: Upload and download against the device. On an idle link with a serializer that
  behaves as documented, an upload succeeds, leaves the link idle, and the device's memory is the old one
  with exactly the data stored at the address, whatever its length and number of chunks; a download
  returns exactly the device's bytes and changes nothing. So downloading what was uploaded gives it back.\<close>

theorem upload_then_download:
  assumes "idle e p" and "length data < 2 ^ 32"
  shows "\<exists>p1 p2. upload (linked_ops e) (ev_codecs e) addr data p = (Inr (), p1) \<and>
    dv_mem (pr_io p1) = store_bytes (dv_mem (pr_io p)) addr data \<and>
    download (linked_ops e) (ev_codecs e) addr (word_of_nat (length data)) p1 = (Inr data, p2) \<and>
    dv_mem (pr_io p2) = dv_mem (pr_io p1) \<and> idle e p2"
proof -
  from upload_stores [OF assms(1), of addr data] obtain p1 where
    p1: "upload (linked_ops e) (ev_codecs e) addr data p = (Inr (), p1)" "idle e p1"
      "dv_mem (pr_io p1) = store_bytes (dv_mem (pr_io p)) addr data" using same_but_port_simps by fastforce
  have "unat (word_of_nat (length data) :: u32) = length data" using assms(2) by (simp add: unat_of_nat)
  with download_loads [OF p1(2), of addr "word_of_nat (length data)"] p1 ram.load_store_same [of data _ addr] assms(2)
  show ?thesis by auto
qed

text \<open>What \<open>upload\<close> sends for the chunks from number \<open>i\<close> on, and that it does so whatever comes back.\<close>

fun upload_frames :: "codecs \<Rightarrow> u32 \<Rightarrow> nat \<Rightarrow> u8 list list \<Rightarrow> u8 list" where
  "upload_frames cs addr i [] = []"
| "upload_frames cs addr i (c # rest) =
     mframe cs (MWrite (addr + word_of_nat (i * CHUNK_SIZE)) (word_of_nat (length c))) @ c @ upload_frames cs addr (Suc i) rest"

lemma upload_loop_any_answers:
  assumes "fifo_port ops inbox outbox"
  shows "codecs_ok cs (length (pr_buf p)) \<Longrightarrow> length (pr_buf p) < 2 ^ 32 \<Longrightarrow> length rs = length ds \<Longrightarrow>
    inbox (pr_io p) = concat (map (rframe cs) rs) @ rest \<Longrightarrow>
    \<exists>p'. upload_loop ops cs addr i ds p = (Inr (), p') \<and> inbox (pr_io p') = rest \<and>
      outbox (pr_io p') = outbox (pr_io p) @ upload_frames cs addr i ds"
proof (induction ds arbitrary: i p rs)
  case (Cons d ds)
  then obtain r rs' where rs: "rs = r # rs'" "length rs' = length ds" by (cases rs) auto
  have mc: "codec_ok (message_codec cs) (length (pr_buf p))" and rc: "codec_ok (response_codec cs) (length (pr_buf p))"
    using Cons.prems(1) by (simp_all add: codecs_ok_def)
  let ?m = "MWrite (addr + word_of_nat (i * CHUNK_SIZE)) (word_of_nat (length d))"
  obtain p1 where p1: "send_message ops cs p ?m = (Inr (), p1)" "inbox (pr_io p1) = inbox (pr_io p)"
    "outbox (pr_io p1) = outbox (pr_io p) @ mframe cs ?m" "length (pr_buf p1) = length (pr_buf p)"
    using fifo_port.write_data_frame [OF assms mc] unfolding send_message_def by blast
  obtain q where q: "op_write ops (pr_io p1) d = (True, q)" "inbox q = inbox (pr_io p1)" "outbox q = outbox (pr_io p1) @ d"
    using fifo_port.write_law [OF assms] by blast
  obtain p2 where p2: "read_response ops cs (p1\<lparr>pr_io := q\<rparr>) = (Inr r, p2)"
    "inbox (pr_io p2) = concat (map (rframe cs) rs') @ rest" "outbox (pr_io p2) = outbox q" "length (pr_buf p2) = length (pr_buf p)"
    using fifo_port.read_data_frame [OF assms rc, of "p1\<lparr>pr_io := q\<rparr>" r "concat (map (rframe cs) rs') @ rest"]
      p1 q Cons.prems(2,4) rs(1) by (auto simp: read_response_def)
  from Cons.IH [of p2 rs' "Suc i"] Cons.prems(1,2) p2(2,4) rs(2) obtain p3 where
    "upload_loop ops cs addr (Suc i) ds p2 = (Inr (), p3)" "inbox (pr_io p3) = rest"
    "outbox (pr_io p3) = outbox (pr_io p2) @ upload_frames cs addr (Suc i) ds" by auto
  with p1 p2 q show ?case by auto
qed simp

text \<open>C38: Refusals go unnoticed. Whatever the device answers to the chunks of an upload, an error to every
  one of them included, \<open>upload\<close> sends them all, each to its address, takes one response for each, and
  reports success.\<close>

theorem upload_ignores_refusal:
  assumes "fifo_port ops inbox outbox" and "codecs_ok cs (length (pr_buf p))" and "length (pr_buf p) < 2 ^ 32"
    and "length rs = length (chunks CHUNK_SIZE data)" and "inbox (pr_io p) = concat (map (rframe cs) rs) @ rest"
  shows "\<exists>p'. upload ops cs addr data p = (Inr (), p') \<and> inbox (pr_io p') = rest \<and>
    outbox (pr_io p') = outbox (pr_io p) @ upload_frames cs addr 0 (chunks CHUNK_SIZE data)"
  using upload_loop_any_answers [OF assms] by (simp add: upload_def)

text \<open>A host linked to the sample device.\<close>

definition sample_host :: "queues device protocol" where
  "sample_host = protocol_new 24 (sample_device [])"

lemma sample_host_idle: "idle (sample_env pl) sample_host"
  using sample_device_ok [of pl "[]"] sample_codecs_ok [of 24]
  by (simp add: idle_def sample_host_def protocol_new_def dv_queues_def sample_device_io)
    (simp add: sample_env_def)

lemma upload_then_download_witness:
  "\<exists>p1 p2. upload (linked_ops (sample_env True)) sample_codecs 0x80200000 [1, 2, 3] sample_host = (Inr (), p1) \<and>
     download (linked_ops (sample_env True)) sample_codecs 0x80200000 3 p1 = (Inr [1, 2, 3], p2)"
proof -
  have c: "ev_codecs (sample_env True) = sample_codecs" by (simp add: sample_env_def)
  have l: "length [1, 2, 3 :: u8] < 2 ^ 32" "word_of_nat (length [1, 2, 3 :: u8]) = (3 :: u32)" by simp_all
  from upload_then_download [OF sample_host_idle l(1), of True "0x80200000"] show ?thesis
    unfolding c l(2) by blast
qed

text \<open>Two chunks, both refused.\<close>

lemma upload_ignores_refusal_witness:
  "\<exists>p'. upload (usb_ops queue_recv queue_send) sample_codecs 0x80200000 (replicate (CHUNK_SIZE + 1) 7)
     (protocol_new 24 \<lparr>q_in = rframe sample_codecs (RNack DownloadForbidden) @ rframe sample_codecs (RNack NotSupported), q_out = []\<rparr>) = (Inr (), p')"
proof -
  have "chunks n (replicate (Suc n) (7 :: u8)) = [replicate n 7, [7]]" if "0 < n" for n
    using that by (simp add: chunks.simps [of n "replicate (Suc n) 7"] chunks.simps [of n "replicate (Suc 0) 7"]
      chunks.simps [of n "[]"] Suc_diff_le del: replicate_Suc) simp
  from this [of CHUNK_SIZE] have "length (chunks CHUNK_SIZE (replicate (CHUNK_SIZE + 1) (7 :: u8))) = 2"
    by (simp add: CHUNK_SIZE_def del: replicate_Suc)
  moreover have "codecs_ok sample_codecs 24" by (rule sample_codecs_ok) simp
  ultimately show ?thesis
    using upload_ignores_refusal [OF usb.fifo_port_axioms, where rs = "[RNack DownloadForbidden, RNack NotSupported]" and rest = "[]"
        and cs = sample_codecs and data = "replicate (CHUNK_SIZE + 1) 7" and addr = "0x80200000" and
        p = "protocol_new 24 \<lparr>q_in = rframe sample_codecs (RNack DownloadForbidden) @ rframe sample_codecs (RNack NotSupported), q_out = []\<rparr>"]
    by (simp add: protocol_new_def del: replicate_Suc) blast
qed

end
