(* ===== verification/LkArg.thy ===== *)
theory LkArg
  imports Memory Params
begin

text \<open>
  The boot argument the host prepares for LK, \<open>crates/da-boot/src/boot/lk_arg.rs\<close>: one structure
  per chip, in the memory layout of C, sent as raw bytes (\<open>give_me_bytes_please\<close> in
  \<open>boot/mod.rs\<close>). The layout rule is written out with its padding for a little-endian host, and
  the lemmas show that there is no padding and where each field ends up.
\<close>

section \<open>The structures\<close>

datatype LkBootMode = Normal | Meta | Recovery | SwReboot | Factory | Advmeta | AteFactory | Alarm | Fastboot | Download

fun boot_mode_u32 :: "LkBootMode \<Rightarrow> u32" where
  "boot_mode_u32 Normal = 0"
| "boot_mode_u32 Meta = 1"
| "boot_mode_u32 Recovery = 2"
| "boot_mode_u32 SwReboot = 3"
| "boot_mode_u32 Factory = 4"
| "boot_mode_u32 Advmeta = 5"
| "boot_mode_u32 AteFactory = 6"
| "boot_mode_u32 Alarm = 7"
| "boot_mode_u32 Fastboot = 99"
| "boot_mode_u32 Download = 100"

datatype ForbiddenMode = FactoryMode

definition forbidden_mode_u32 :: "ForbiddenMode \<Rightarrow> u32" where
  "forbidden_mode_u32 m = (case m of FactoryMode \<Rightarrow> 1)"

record SecLimit =
  sl_magic_num :: u32
  sl_forbid_mode :: ForbiddenMode

definition sec_limit_default :: SecLimit where
  "sec_limit_default = \<lparr>sl_magic_num = 0, sl_forbid_mode = FactoryMode\<rparr>"

record DAInfo6572 =
  di_addr :: u32
  di_arg1 :: u32
  di_arg2 :: u32

record DAInfo6595 = DAInfo6572 +
  di_len :: u32
  di_sig_len :: u32

definition da_info6572_default :: DAInfo6572 where
  "da_info6572_default = \<lparr>di_addr = 0, di_arg1 = 0, di_arg2 = 0\<rparr>"

definition da_info6595_default :: DAInfo6595 where
  "da_info6595_default = \<lparr>di_addr = 0, di_arg1 = 0, di_arg2 = 0, di_len = 0, di_sig_len = 0\<rparr>"

record BootArgument6572 =
  a72_magic :: u32
  a72_mode :: u32
  a72_e_flag :: u32
  a72_log_port :: u32
  a72_log_baudrate :: u32
  a72_log_enable :: u8
  a72_reserved :: "u8 list"
  a72_dram_rank_num :: u32
  a72_dram_rank_size :: "u32 list"
  a72_boot_reason :: u32
  a72_meta_com_type :: u32
  a72_meta_com_id :: u32
  a72_boot_time :: u32
  a72_da_info :: DAInfo6572
  a72_sec_limit :: SecLimit

text \<open>\<open>std::array::from_fn\<close> over the four ranks.\<close>

definition rank_sizes :: "u32 \<Rightarrow> u32 \<Rightarrow> u32 list" where
  "rank_sizes dram_size_per_rank dram_ranks =
     map (\<lambda>i. if i < unat dram_ranks then dram_size_per_rank else 0) [0..<4]"

definition lk6572 :: "LkBootMode \<Rightarrow> u32 \<Rightarrow> u32 \<Rightarrow> BootArgument6572" where
  "lk6572 mode dram_size_per_rank dram_ranks =
     \<lparr>a72_magic = 0x504c504c, a72_mode = boot_mode_u32 mode, a72_e_flag = 0, a72_log_port = 0x11005000,
      a72_log_baudrate = 921600, a72_log_enable = 1, a72_reserved = replicate 3 0,
      a72_dram_rank_num = dram_ranks, a72_dram_rank_size = rank_sizes dram_size_per_rank dram_ranks,
      a72_boot_reason = 4, a72_meta_com_type = 0, a72_meta_com_id = 0, a72_boot_time = 1337,
      a72_da_info = da_info6572_default, a72_sec_limit = sec_limit_default\<rparr>"

record BootArgument6582 =
  a82_magic :: u32
  a82_mode :: u32
  a82_e_flag :: u32
  a82_log_port :: u32
  a82_log_baudrate :: u32
  a82_log_enable :: u8
  a82_part_num :: u8
  a82_reserved :: "u8 list"
  a82_dram_rank_num :: u32
  a82_dram_rank_size :: "u32 list"
  a82_boot_reason :: u32
  a82_meta_com_type :: u32
  a82_meta_com_id :: u32
  a82_boot_time :: u32
  a82_da_info :: DAInfo6595
  a82_sec_limit :: SecLimit
  a82_part_info :: u32
  a82_md_type :: "u8 list"
  a82_ddr_reserve_enable :: u32
  a82_ddr_reserve_success :: u32

definition lk6582 :: "LkBootMode \<Rightarrow> u32 \<Rightarrow> u32 \<Rightarrow> BootArgument6582" where
  "lk6582 mode dram_size_per_rank dram_ranks =
     \<lparr>a82_magic = 0x504c504c, a82_mode = boot_mode_u32 mode, a82_e_flag = 0, a82_log_port = 0x11002000,
      a82_log_baudrate = 921600, a82_log_enable = 1, a82_part_num = 0, a82_reserved = replicate 2 0,
      a82_dram_rank_num = dram_ranks, a82_dram_rank_size = rank_sizes dram_size_per_rank dram_ranks,
      a82_boot_reason = 4, a82_meta_com_type = 0, a82_meta_com_id = 0, a82_boot_time = 1337,
      a82_da_info = da_info6595_default, a82_sec_limit = sec_limit_default,
      a82_part_info = 0, a82_md_type = replicate 4 0, a82_ddr_reserve_enable = 0, a82_ddr_reserve_success = 0\<rparr>"

record Mblock =
  mb_start :: u64
  mb_size :: u64
  mb_rank :: u32
  mb_pad :: u32

record MemDesc =
  md_start :: u64
  md_size :: u64

definition mblock_default :: Mblock where
  "mblock_default = \<lparr>mb_start = 0, mb_size = 0, mb_rank = 0, mb_pad = 0\<rparr>"

definition mem_desc_default :: MemDesc where
  "mem_desc_default = \<lparr>md_start = 0, md_size = 0\<rparr>"

record VcoreDvfsInfo =
  vc_pll_setting_num :: u32
  vc_freq_setting_num :: u32
  vc_low_freq_pll_setting_addr :: u32
  vc_low_freq_cha_setting_addr :: u32
  vc_low_freq_chb_setting_addr :: u32
  vc_high_freq_pll_setting_addr :: u32
  vc_high_freq_cha_setting_addr :: u32
  vc_high_freq_chb_setting_addr :: u32

record BootArgument6595 =
  a95_magic :: u32
  a95_mode :: u32
  a95_e_flag :: u32
  a95_log_port :: u32
  a95_log_baudrate :: u32
  a95_log_enable :: u8
  a95_part_num :: u8
  a95_pad1 :: "u8 list"
  a95_dram_rank_num :: u32
  a95_dram_rank_size :: "u32 list"
  a95_pad2 :: u32
  a95_mblock_num :: u32
  a95_pad3 :: u32
  a95_mblock :: "Mblock list"
  a95_orig_dram_num :: u32
  a95_pad4 :: u32
  a95_orig_dram_info :: "MemDesc list"
  a95_lca_reserved_mem :: MemDesc
  a95_tee_reserved_mem :: MemDesc
  a95_boot_reason :: u32
  a95_meta_com_type :: u32
  a95_meta_com_id :: u32
  a95_boot_time :: u32
  a95_da_info :: DAInfo6595
  a95_sec_limit :: SecLimit
  a95_part_info :: u32
  a95_md_type :: "u8 list"
  a95_ddr_reserve_enable :: u32
  a95_ddr_reserve_success :: u32
  a95_vcore_dvfs_info :: VcoreDvfsInfo
  a95_dram_buf_size :: u32
  a95_meta_uart_port :: u32
  a95_smc_boot_opt :: u32
  a95_lk_boot_opt :: u32
  a95_kernel_boot_opt :: u32
  a95_non_secure_sram_addr :: u32
  a95_non_secure_sram_size :: u32

definition lk6595 :: "LkBootMode \<Rightarrow> u32 \<Rightarrow> u32 \<Rightarrow> BootArgument6595" where
  "lk6595 mode dram_size_per_rank dram_ranks =
     \<lparr>a95_magic = 0x504c504c, a95_mode = boot_mode_u32 mode, a95_e_flag = 0, a95_log_port = 0x11002000,
      a95_log_baudrate = 921600, a95_log_enable = 1, a95_part_num = 0, a95_pad1 = replicate 2 0,
      a95_dram_rank_num = dram_ranks, a95_dram_rank_size = rank_sizes dram_size_per_rank dram_ranks,
      a95_pad2 = 0, a95_mblock_num = 2, a95_pad3 = 0,
      a95_mblock = [\<lparr>mb_start = 0x40000000, mb_size = 0x40000000, mb_rank = 0, mb_pad = 0\<rparr>,
                    \<lparr>mb_start = 0x80000000, mb_size = 0x40000000, mb_rank = 1, mb_pad = 0\<rparr>,
                    mblock_default, mblock_default],
      a95_orig_dram_num = 2, a95_pad4 = 0,
      a95_orig_dram_info = [\<lparr>md_start = 0x40000000, md_size = 0x40000000\<rparr>,
                            \<lparr>md_start = 0x80000000, md_size = 0x40000000\<rparr>,
                            mem_desc_default, mem_desc_default],
      a95_lca_reserved_mem = mem_desc_default, a95_tee_reserved_mem = mem_desc_default,
      a95_boot_reason = 4, a95_meta_com_type = 0, a95_meta_com_id = 0, a95_boot_time = 1337,
      a95_da_info = da_info6595_default, a95_sec_limit = sec_limit_default,
      a95_part_info = 0, a95_md_type = replicate 4 0, a95_ddr_reserve_enable = 0, a95_ddr_reserve_success = 0,
      a95_vcore_dvfs_info =
        \<lparr>vc_pll_setting_num = 20, vc_freq_setting_num = 51,
         vc_low_freq_pll_setting_addr = 0x102AB8, vc_low_freq_cha_setting_addr = 0x1029EC,
         vc_low_freq_chb_setting_addr = 0x102B5C, vc_high_freq_pll_setting_addr = 0x102B08,
         vc_high_freq_cha_setting_addr = 0x102CF4, vc_high_freq_chb_setting_addr = 0x102C28\<rparr>,
      a95_dram_buf_size = 0, a95_meta_uart_port = 0, a95_smc_boot_opt = 0,
      a95_lk_boot_opt = 3, a95_kernel_boot_opt = 3,
      a95_non_secure_sram_addr = 0x10dc00, a95_non_secure_sram_size = 0x2400\<rparr>"

datatype BootArgument =
    Arg6572 BootArgument6572
  | Arg6582 BootArgument6582
  | Arg6595 BootArgument6595

text \<open>\<open>unreachable!()\<close> for the other chips is \<open>None\<close>.\<close>

definition get_for_soc :: "SoC \<Rightarrow> LkBootMode \<Rightarrow> u32 \<Rightarrow> u32 \<Rightarrow> BootArgument option" where
  "get_for_soc soc mode dram_size_per_rank dram_ranks =
     (case soc of
        MT6572 \<Rightarrow> Some (Arg6572 (lk6572 mode dram_size_per_rank dram_ranks))
      | MT6582 \<Rightarrow> Some (Arg6582 (lk6582 mode dram_size_per_rank dram_ranks))
      | MT6595 \<Rightarrow> Some (Arg6595 (lk6595 mode dram_size_per_rank dram_ranks))
      | OtherSoC _ \<Rightarrow> None)"

section \<open>Bytes\<close>

text \<open>
  The scalar fields in order. A nested structure is written as its own fields: each one here starts
  at a multiple of its alignment and has no padding at its end, so this is the same layout.
\<close>

datatype field = F8 u8 | F32 u32 | F64 u64

definition le64 :: "u64 \<Rightarrow> u8 list" where
  "le64 v = le32 (ucast v) @ le32 (ucast (drop_bit 32 v))"

fun field_bytes :: "field \<Rightarrow> u8 list" where
  "field_bytes (F8 v) = [v]"
| "field_bytes (F32 v) = le32 v"
| "field_bytes (F64 v) = le64 v"

fun field_align :: "field \<Rightarrow> nat" where
  "field_align (F8 _) = 1"
| "field_align (F32 _) = 4"
| "field_align (F64 _) = 8"

definition padding :: "nat \<Rightarrow> nat \<Rightarrow> nat" where
  "padding al off = (al - off mod al) mod al"

text \<open>The rule of \<open>repr(C)\<close>: every field at the next multiple of its alignment, and the size a
  multiple of the alignment of the structure.\<close>

fun c_layout :: "nat \<Rightarrow> field list \<Rightarrow> u8 list" where
  "c_layout off [] = []"
| "c_layout off (f # fs) =
     (let pad = padding (field_align f) off
      in replicate pad 0 @ field_bytes f @ c_layout (off + pad + field_align f) fs)"

definition struct_align :: "field list \<Rightarrow> nat" where
  "struct_align fs = foldr max (map field_align fs) 1"

definition struct_bytes :: "field list \<Rightarrow> u8 list" where
  "struct_bytes fs =
     (let bs = c_layout 0 fs in bs @ replicate (padding (struct_align fs) (length bs)) 0)"

definition da_info6572_fields :: "'a DAInfo6572_scheme \<Rightarrow> field list" where
  "da_info6572_fields d = [F32 (di_addr d), F32 (di_arg1 d), F32 (di_arg2 d)]"

definition da_info6595_fields :: "DAInfo6595 \<Rightarrow> field list" where
  "da_info6595_fields d = da_info6572_fields d @ [F32 (di_len d), F32 (di_sig_len d)]"

definition sec_limit_fields :: "SecLimit \<Rightarrow> field list" where
  "sec_limit_fields s = [F32 (sl_magic_num s), F32 (forbidden_mode_u32 (sl_forbid_mode s))]"

definition fields6572 :: "BootArgument6572 \<Rightarrow> field list" where
  "fields6572 a =
     [F32 (a72_magic a), F32 (a72_mode a), F32 (a72_e_flag a), F32 (a72_log_port a), F32 (a72_log_baudrate a),
      F8 (a72_log_enable a)] @ map F8 (a72_reserved a) @
     [F32 (a72_dram_rank_num a)] @ map F32 (a72_dram_rank_size a) @
     [F32 (a72_boot_reason a), F32 (a72_meta_com_type a), F32 (a72_meta_com_id a), F32 (a72_boot_time a)] @
     da_info6572_fields (a72_da_info a) @ sec_limit_fields (a72_sec_limit a)"

definition fields6582 :: "BootArgument6582 \<Rightarrow> field list" where
  "fields6582 a =
     [F32 (a82_magic a), F32 (a82_mode a), F32 (a82_e_flag a), F32 (a82_log_port a), F32 (a82_log_baudrate a),
      F8 (a82_log_enable a), F8 (a82_part_num a)] @ map F8 (a82_reserved a) @
     [F32 (a82_dram_rank_num a)] @ map F32 (a82_dram_rank_size a) @
     [F32 (a82_boot_reason a), F32 (a82_meta_com_type a), F32 (a82_meta_com_id a), F32 (a82_boot_time a)] @
     da_info6595_fields (a82_da_info a) @ sec_limit_fields (a82_sec_limit a) @
     [F32 (a82_part_info a)] @ map F8 (a82_md_type a) @
     [F32 (a82_ddr_reserve_enable a), F32 (a82_ddr_reserve_success a)]"

definition mblock_fields :: "Mblock \<Rightarrow> field list" where
  "mblock_fields b = [F64 (mb_start b), F64 (mb_size b), F32 (mb_rank b), F32 (mb_pad b)]"

definition mem_desc_fields :: "MemDesc \<Rightarrow> field list" where
  "mem_desc_fields b = [F64 (md_start b), F64 (md_size b)]"

definition vcore_fields :: "VcoreDvfsInfo \<Rightarrow> field list" where
  "vcore_fields v =
     [F32 (vc_pll_setting_num v), F32 (vc_freq_setting_num v),
      F32 (vc_low_freq_pll_setting_addr v), F32 (vc_low_freq_cha_setting_addr v), F32 (vc_low_freq_chb_setting_addr v),
      F32 (vc_high_freq_pll_setting_addr v), F32 (vc_high_freq_cha_setting_addr v), F32 (vc_high_freq_chb_setting_addr v)]"

definition fields6595 :: "BootArgument6595 \<Rightarrow> field list" where
  "fields6595 a =
     [F32 (a95_magic a), F32 (a95_mode a), F32 (a95_e_flag a), F32 (a95_log_port a), F32 (a95_log_baudrate a),
      F8 (a95_log_enable a), F8 (a95_part_num a)] @ map F8 (a95_pad1 a) @
     [F32 (a95_dram_rank_num a)] @ map F32 (a95_dram_rank_size a) @ [F32 (a95_pad2 a)] @
     [F32 (a95_mblock_num a), F32 (a95_pad3 a)] @ concat (map mblock_fields (a95_mblock a)) @
     [F32 (a95_orig_dram_num a), F32 (a95_pad4 a)] @ concat (map mem_desc_fields (a95_orig_dram_info a)) @
     mem_desc_fields (a95_lca_reserved_mem a) @ mem_desc_fields (a95_tee_reserved_mem a) @
     [F32 (a95_boot_reason a), F32 (a95_meta_com_type a), F32 (a95_meta_com_id a), F32 (a95_boot_time a)] @
     da_info6595_fields (a95_da_info a) @ sec_limit_fields (a95_sec_limit a) @
     [F32 (a95_part_info a)] @ map F8 (a95_md_type a) @
     [F32 (a95_ddr_reserve_enable a), F32 (a95_ddr_reserve_success a)] @ vcore_fields (a95_vcore_dvfs_info a) @
     [F32 (a95_dram_buf_size a), F32 (a95_meta_uart_port a), F32 (a95_smc_boot_opt a), F32 (a95_lk_boot_opt a),
      F32 (a95_kernel_boot_opt a), F32 (a95_non_secure_sram_addr a), F32 (a95_non_secure_sram_size a)]"

definition as_bytes :: "BootArgument \<Rightarrow> u8 list" where
  "as_bytes arg =
     struct_bytes (case arg of Arg6572 a \<Rightarrow> fields6572 a | Arg6582 a \<Rightarrow> fields6582 a | Arg6595 a \<Rightarrow> fields6595 a)"

section \<open>No padding\<close>

fun naturally_aligned :: "nat \<Rightarrow> field list \<Rightarrow> bool" where
  "naturally_aligned off [] \<longleftrightarrow> True"
| "naturally_aligned off (f # fs) \<longleftrightarrow> off mod field_align f = 0 \<and> naturally_aligned (off + field_align f) fs"

definition packed :: "field list \<Rightarrow> bool" where
  "packed fs \<longleftrightarrow> naturally_aligned 0 fs \<and> sum_list (map field_align fs) mod struct_align fs = 0"

lemma length_field_bytes [simp]: "length (field_bytes f) = field_align f"
  by (cases f) (simp_all add: le64_def)

lemma field_align_pos [simp]: "0 < field_align f"
  by (cases f) simp_all

lemma padding_0: "off mod al = 0 \<Longrightarrow> padding al off = 0"
  by (simp add: padding_def)

lemma c_layout_packed: "naturally_aligned off fs \<Longrightarrow> c_layout off fs = concat (map field_bytes fs)"
  by (induction fs arbitrary: off) (simp_all add: padding_0 Let_def)

lemma length_concat_fields: "length (concat (map field_bytes fs)) = sum_list (map field_align fs)"
  by (induction fs) simp_all

lemma struct_bytes_packed: "packed fs \<Longrightarrow> struct_bytes fs = concat (map field_bytes fs)"
  by (simp add: packed_def struct_bytes_def Let_def c_layout_packed length_concat_fields padding_0)

text \<open>The word at an offset of a block of bytes, as LK reads it.\<close>

definition word_at :: "u8 list \<Rightarrow> nat \<Rightarrow> u32" where
  "word_at bs k = of_le32 (take 4 (drop k bs))"

lemma word_at_le32: "word_at (le32 v @ bs) 0 = v" "word_at (le32 v) 0 = v"
  "4 \<le> k \<Longrightarrow> word_at (le32 v @ bs) k = word_at bs (k - 4)"
  by (simp_all add: word_at_def)

lemma word_at_Cons: "0 < k \<Longrightarrow> word_at (b # bs) k = word_at bs (k - 1)"
  by (cases k) (simp_all add: word_at_def)

lemma rank_sizes_unfold: "rank_sizes sz n =
   [if 0 < unat n then sz else 0, if 1 < unat n then sz else 0, if 2 < unat n then sz else 0, if 3 < unat n then sz else 0]"
  by (simp add: rank_sizes_def upt_rec)

lemmas argument_fields = fields6572_def fields6582_def fields6595_def da_info6572_fields_def da_info6595_fields_def
  sec_limit_fields_def mblock_fields_def mem_desc_fields_def vcore_fields_def
lemmas argument_values = lk6572_def lk6582_def lk6595_def rank_sizes_unfold replicate_numeral_unfold
  mblock_default_def mem_desc_default_def da_info6572_default_def da_info6595_default_def sec_limit_default_def

lemma packed6572: "packed (fields6572 (lk6572 mode sz n))"
  by (simp add: argument_fields argument_values packed_def struct_align_def)

lemma packed6582: "packed (fields6582 (lk6582 mode sz n))"
  by (simp add: argument_fields argument_values packed_def struct_align_def)

lemma packed6595: "packed (fields6595 (lk6595 mode sz n))"
  by (simp add: argument_fields argument_values packed_def struct_align_def)

lemmas argument_words = argument_fields argument_values word_at_le32 word_at_Cons le64_def forbidden_mode_u32_def

text \<open>What LK finds at the offsets it knows, for a block of bytes.\<close>

definition lk_finds :: "u8 list \<Rightarrow> u32 \<Rightarrow> u32 \<Rightarrow> u32 \<Rightarrow> nat \<Rightarrow> nat \<Rightarrow> bool" where
  "lk_finds b mode sz ranks boot_reason forbid_mode \<longleftrightarrow>
     word_at b 0 = 0x504c504c \<and> word_at b 4 = mode \<and> word_at b 24 = ranks \<and>
     (\<forall>i < 4. word_at b (28 + 4 * i) = (if i < unat ranks then sz else 0)) \<and>
     word_at b boot_reason = 4 \<and> word_at b forbid_mode = 1"

lemma all_less_4: "(\<forall>i < 4. P i) \<longleftrightarrow> P (0 :: nat) \<and> P 1 \<and> P 2 \<and> P 3"
  by (auto simp: numeral_eq_Suc less_Suc_eq)

lemma finds6572: "lk_finds (concat (map field_bytes (fields6572 (lk6572 mode sz n)))) (boot_mode_u32 mode) sz n 44 76"
  by (simp add: lk_finds_def all_less_4 argument_words)

lemma finds6582: "lk_finds (concat (map field_bytes (fields6582 (lk6582 mode sz n)))) (boot_mode_u32 mode) sz n 44 84"
  by (simp add: lk_finds_def all_less_4 argument_words)

lemma finds6595: "lk_finds (concat (map field_bytes (fields6595 (lk6595 mode sz n)))) (boot_mode_u32 mode) sz n 256 296"
  by (simp add: lk_finds_def all_less_4 argument_words)

section \<open>Properties\<close>

text \<open>C28: The boot argument in the layout of each chip: it has no padding and 80, 104 or 376 bytes,
  and LK reads back the magic, the chosen mode, the number of ranks, the size of each present rank and zero for
  each absent one, the boot reason, and the only mode that stays forbidden, at its fixed offsets.\<close>

theorem boot_argument_layout:
  assumes "get_for_soc soc mode sz ranks = Some arg"
  shows "let b = as_bytes arg in
    length b = (case soc of MT6572 \<Rightarrow> 80 | MT6582 \<Rightarrow> 104 | _ \<Rightarrow> 376) \<and>
    lk_finds b (boot_mode_u32 mode) sz ranks (case soc of MT6595 \<Rightarrow> 256 | _ \<Rightarrow> 44)
      (case soc of MT6572 \<Rightarrow> 76 | MT6582 \<Rightarrow> 84 | _ \<Rightarrow> 296)"
proof (cases soc)
  case MT6572
  with assms show ?thesis
    by (auto simp: get_for_soc_def as_bytes_def struct_bytes_packed [OF packed6572] finds6572 length_concat_fields)
      (simp add: argument_fields argument_values)
next
  case MT6582
  with assms show ?thesis
    by (auto simp: get_for_soc_def as_bytes_def struct_bytes_packed [OF packed6582] finds6582 length_concat_fields)
      (simp add: argument_fields argument_values)
next
  case MT6595
  with assms show ?thesis
    by (auto simp: get_for_soc_def as_bytes_def struct_bytes_packed [OF packed6595] finds6595 length_concat_fields)
      (simp add: argument_fields argument_values)
qed (use assms in \<open>simp add: get_for_soc_def\<close>)

lemma boot_argument_layout_witness:
  "\<exists>arg. get_for_soc MT6572 Fastboot 0x10000000 2 = Some arg \<and> length (as_bytes arg) = 80 \<and>
     word_at (as_bytes arg) 4 = 99 \<and> word_at (as_bytes arg) 32 = 0x10000000 \<and> word_at (as_bytes arg) 36 = 0"
proof -
  obtain arg where a: "get_for_soc MT6572 Fastboot 0x10000000 2 = Some arg" by (simp add: get_for_soc_def)
  from boot_argument_layout [OF a] a show ?thesis by (simp add: lk_finds_def all_less_4 Let_def)
qed

end
