(* ===== verification/Macros.thy ===== *)
theory Macros
  imports Wire
begin

text \<open>
  The derive macro of the boot ROM and preloader commands, \<open>crates/da-boot-macros\<close>: validation of
  the attributes (\<open>structs.rs\<close>), and the code the macro emits (\<open>protocol.rs\<close>). The token stream is
  a list of tokens, one per fragment the generator appends, and running the generated method
  is running the tokens on the fields of the structure and a port.
\<close>

section \<open>Attributes\<close>

record DarlingProtocolArgs =
  pa_command :: "u8 option"
  pa_naked :: bool
  pa_echo :: bool

datatype ProtocolKind = Command u8 bool | Naked

datatype macro_err =
    BothCommandAndNaked
  | NeitherCommandNorNaked
  | OnlyTxOrRxOrEcho
  | DummyField
  | OneOfTxRxEchoAck
  | TxStatus
  | TxSize
  | TxGetter
  | StatusAndSize
  | MacroPanic

definition protocol_kind :: "DarlingProtocolArgs \<Rightarrow> macro_err + ProtocolKind" where
  "protocol_kind value =
     (if pa_command value \<noteq> None \<and> pa_naked value then Inl BothCommandAndNaked
      else if pa_command value = None \<and> \<not> pa_naked value then Inl NeitherCommandNorNaked
      else Inr (case pa_command value of None \<Rightarrow> Naked | Some v \<Rightarrow> Command v (pa_echo value)))"

datatype AckType = RxThenTx | TxThenRx

record DarlingProtocolField =
  fa_tx :: bool
  fa_rx :: bool
  fa_echo :: bool
  fa_status :: "u16 option"
  fa_size :: "string option"
  fa_ack :: "AckType option"
  fa_always :: "u32 option"
  fa_getter :: bool

datatype RxType = RxStatus u16 | RxSize string | RxNone
datatype TxType = TxAlways u32 | TxNone
datatype FieldType = Tx TxType | Rx RxType bool | Echo | Ack AckType

text \<open>\<open>overlap!\<close>: the number of attributes present is not one.\<close>

definition overlap :: "bool list \<Rightarrow> bool" where
  "overlap opts \<longleftrightarrow> length (filter (\<lambda>b. b) opts) \<noteq> 1"

definition field_type :: "DarlingProtocolField \<Rightarrow> macro_err + FieldType" where
  "field_type value =
     (let kinds = [fa_tx value, fa_rx value, fa_echo value, fa_ack value \<noteq> None]
      in if list_all (\<lambda>b. b) kinds then Inl OnlyTxOrRxOrEcho
         else if list_all Not kinds then Inl DummyField
         else if overlap kinds then Inl OneOfTxRxEchoAck
         else if fa_tx value \<and> fa_status value \<noteq> None then Inl TxStatus
         else if fa_tx value \<and> fa_size value \<noteq> None then Inl TxSize
         else if fa_tx value \<and> fa_getter value then Inl TxGetter
         else if fa_tx value then
           Inr (case fa_always value of Some v \<Rightarrow> Tx (TxAlways v) | None \<Rightarrow> Tx TxNone)
         else if fa_rx value then
           (if fa_status value \<noteq> None \<and> fa_size value \<noteq> None then Inl StatusAndSize
            else Inr (Rx (case fa_status value of
                            Some s \<Rightarrow> RxStatus s
                          | None \<Rightarrow> (case fa_size value of Some i \<Rightarrow> RxSize i | None \<Rightarrow> RxNone))
                         (fa_getter value)))
         else if fa_echo value then Inr Echo
         else (case fa_ack value of Some a \<Rightarrow> Inr (Ack a) | None \<Rightarrow> Inl MacroPanic))"

section \<open>Generated code\<close>

datatype CodegenType = CU8 | CU16 | CU32 | CVec | CSlice

definition codegen_type :: "string \<Rightarrow> CodegenType option" where
  "codegen_type value =
     (if value = ''u8'' then Some CU8
      else if value = ''u16'' then Some CU16
      else if value = ''u32'' then Some CU32
      else if value = ''Vec'' then Some CVec
      else if value = ''[u8]'' then Some CSlice
      else None)"

text \<open>A path type has a last segment and, for \<open>Vec\<close>, an argument; the other types are references.\<close>

datatype rust_type = Path string | VecOf string | Reference string

record field =
  fd_ident :: string
  fd_enum_ty :: FieldType
  fd_ty :: rust_type

text \<open>
  The fragments: load and store of \<open>tmp\<close>, the check of a status, transmission and reception,
  the check of an echo, the assignment of a constant, and the loop over a sized vector. A name of
  \<open>None\<close> is the local \<open>command\<close>, otherwise it is a field of \<open>self\<close>.
\<close>

datatype token =
    TkConst u8
  | TkLoad "string option"
  | TkStore string
  | TkStatus u16
  | TkTx CodegenType
  | TkRx CodegenType
  | TkEchoStatus "string option"
  | TkDefault string CodegenType u32
  | TkRepeat string CodegenType string

fun path_segment :: "rust_type \<Rightarrow> string" where
  "path_segment (Path s) = s"
| "path_segment (VecOf s) = ''Vec''"
| "path_segment (Reference s) = s"

definition scalar :: "CodegenType \<Rightarrow> bool" where
  "scalar t \<longleftrightarrow> t \<in> {CU8, CU16, CU32}"

text \<open>\<open>rx\<close> on a vector or a slice makes the macro panic.\<close>

definition tk_rx :: "CodegenType \<Rightarrow> macro_err + token list" where
  "tk_rx t = (if scalar t then Inr [TkRx t] else Inl MacroPanic)"

definition append_tokens :: "macro_err + token list \<Rightarrow> macro_err + token list \<Rightarrow> macro_err + token list" where
  "append_tokens a b = (case a of Inl e \<Rightarrow> Inl e | Inr xs \<Rightarrow> (case b of Inl e \<Rightarrow> Inl e | Inr ys \<Rightarrow> Inr (xs @ ys)))"

definition vec_inner :: "rust_type \<Rightarrow> string" where
  "vec_inner t = (case t of VecOf s \<Rightarrow> s | Path s \<Rightarrow> s | Reference s \<Rightarrow> s)"

definition codegen_field :: "field \<Rightarrow> macro_err + token list" where
  "codegen_field f =
     (let i = fd_ident f
      in case fd_ty f of
           Reference s \<Rightarrow>
             (case codegen_type s of None \<Rightarrow> Inl MacroPanic | Some t \<Rightarrow> Inr [TkLoad (Some i), TkTx t])
         | _ \<Rightarrow>
             (case codegen_type (path_segment (fd_ty f)) of
                None \<Rightarrow> Inl MacroPanic
              | Some t \<Rightarrow>
                  (case fd_enum_ty f of
                     Tx (TxAlways v) \<Rightarrow> Inr [TkDefault i t v, TkLoad (Some i), TkTx t]
                   | Tx TxNone \<Rightarrow> Inr [TkLoad (Some i), TkTx t]
                   | Rx (RxSize n) _ \<Rightarrow>
                       (case codegen_type (vec_inner (fd_ty f)) of
                          None \<Rightarrow> Inl MacroPanic
                        | Some inner \<Rightarrow> if scalar inner then Inr [TkRepeat n inner i] else Inl MacroPanic)
                   | Rx (RxStatus s) _ \<Rightarrow> append_tokens (tk_rx t) (Inr [TkStatus s, TkStore i])
                   | Rx RxNone _ \<Rightarrow> append_tokens (tk_rx t) (Inr [TkStore i])
                   | Echo \<Rightarrow> append_tokens (append_tokens (Inr [TkLoad (Some i), TkTx t]) (tk_rx t))
                               (Inr [TkEchoStatus (Some i), TkStore i])
                   | Ack TxThenRx \<Rightarrow> append_tokens (append_tokens (Inr [TkLoad (Some i), TkTx t]) (tk_rx t))
                               (Inr [TkEchoStatus (Some i), TkStore i])
                   | Ack RxThenTx \<Rightarrow> append_tokens (tk_rx t) (Inr [TkStore i, TkLoad (Some i), TkTx t]))))"

definition codegen_command :: "ProtocolKind \<Rightarrow> token list" where
  "codegen_command args =
     (case args of
        Naked \<Rightarrow> []
      | Command c echo \<Rightarrow> [TkConst c, TkLoad None, TkTx CU8] @ (if echo then [TkRx CU8, TkEchoStatus None] else []))"

fun codegen_fields :: "field list \<Rightarrow> macro_err + token list" where
  "codegen_fields [] = Inr []"
| "codegen_fields (f # fs) = append_tokens (codegen_field f) (codegen_fields fs)"

text \<open>The body of the generated \<open>run\<close>.\<close>

definition da_legacy :: "ProtocolKind \<Rightarrow> field list \<Rightarrow> macro_err + token list" where
  "da_legacy args fs = append_tokens (Inr (codegen_command args)) (codegen_fields fs)"

text \<open>The arguments of the generated \<open>new\<close>, in order.\<close>

definition ctor_fields :: "field list \<Rightarrow> string list" where
  "ctor_fields fs = map fd_ident (filter (\<lambda>f. case fd_enum_ty f of
     Tx TxNone \<Rightarrow> True | Echo \<Rightarrow> True | Ack _ \<Rightarrow> True | _ \<Rightarrow> False) fs)"

text \<open>The accessors and runners of the received fields: \<open>into_x\<close>, \<open>as_x\<close>, \<open>x\<close> and \<open>run_x\<close>.\<close>

datatype accessor = IntoField string | AsField string | GetField string | RunField string

definition codegen_methods :: "field \<Rightarrow> accessor list" where
  "codegen_methods f =
     (case (fd_ty f, fd_enum_ty f) of
        (Reference _, _) \<Rightarrow> []
      | (_, Rx rx_ty getter) \<Rightarrow>
          (let i = fd_ident f;
               code = (if getter then (case rx_ty of RxSize _ \<Rightarrow> [IntoField i, AsField i] | _ \<Rightarrow> [GetField i]) else [])
           in case rx_ty of RxStatus _ \<Rightarrow> code | _ \<Rightarrow> code @ [RunField i])
      | _ \<Rightarrow> [])"

text \<open>The attributes of every field are unwrapped, so an error there is a panic of the macro; the
  attributes of the structure are reported as a compile error first.\<close>

fun unwrap_fields :: "(string \<times> rust_type \<times> DarlingProtocolField) list \<Rightarrow> macro_err + field list" where
  "unwrap_fields [] = Inr []"
| "unwrap_fields ((i, t, a) # fs) =
     (case field_type a of
        Inl _ \<Rightarrow> Inl MacroPanic
      | Inr e \<Rightarrow>
          (case unwrap_fields fs of
             Inl e' \<Rightarrow> Inl e'
           | Inr r \<Rightarrow> Inr (\<lparr>fd_ident = i, fd_enum_ty = e, fd_ty = t\<rparr> # r)))"

definition derive_protocol ::
  "DarlingProtocolArgs \<Rightarrow> (string \<times> rust_type \<times> DarlingProtocolField) list \<Rightarrow> macro_err + token list" where
  "derive_protocol args fs =
     (case protocol_kind args of
        Inl e \<Rightarrow> Inl e
      | Inr kind \<Rightarrow> (case unwrap_fields fs of Inl e \<Rightarrow> Inl e | Inr r \<Rightarrow> da_legacy kind r))"

section \<open>Running the generated code\<close>

datatype rvalue = VInt u32 | VBytes "u8 list" | VInts "u32 list"

text \<open>The errors of \<open>da-boot/src/err.rs\<close> the generated code returns, and the panic of \<open>unwrap\<close>.\<close>

datatype cmd_err = CmdIo | InvalidStatus u16 u16 | InvalidEchoData u32 u32 | CmdPanic

record 'p running =
  rn_self :: "string \<Rightarrow> rvalue"
  rn_command :: u8
  rn_tmp :: rvalue
  rn_port :: 'p

definition int_width :: "CodegenType \<Rightarrow> nat" where
  "int_width t = (case t of CU8 \<Rightarrow> 1 | CU16 \<Rightarrow> 2 | _ \<Rightarrow> 4)"

text \<open>Big-endian integers of one, two or four bytes.\<close>

definition be_bytes :: "nat \<Rightarrow> u32 \<Rightarrow> u8 list" where
  "be_bytes n v = rev (take n (le32 v))"

definition of_be :: "u8 list \<Rightarrow> u32" where
  "of_be bs = of_le32 (rev bs @ replicate (4 - length bs) 0)"

fun int_of :: "rvalue \<Rightarrow> u32" where
  "int_of (VInt v) = v"
| "int_of _ = 0"

definition read_be :: "'p port_ops \<Rightarrow> CodegenType \<Rightarrow> 'p running \<Rightarrow> (cmd_err + unit) \<times> 'p running" where
  "read_be ops t s =
     (case op_read ops (rn_port s) (int_width t) of
        (None, q) \<Rightarrow> (Inl CmdIo, s\<lparr>rn_port := q\<rparr>)
      | (Some bs, q) \<Rightarrow> (Inr (), s\<lparr>rn_tmp := VInt (of_be bs), rn_port := q\<rparr>))"

definition write_bytes_to :: "'p port_ops \<Rightarrow> u8 list \<Rightarrow> 'p running \<Rightarrow> (cmd_err + unit) \<times> 'p running" where
  "write_bytes_to ops bs s =
     (case op_write ops (rn_port s) bs of
        (False, q) \<Rightarrow> (Inl CmdIo, s\<lparr>rn_port := q\<rparr>)
      | (True, q) \<Rightarrow> (Inr (), s\<lparr>rn_port := q\<rparr>))"

definition tx_bytes :: "CodegenType \<Rightarrow> rvalue \<Rightarrow> u8 list" where
  "tx_bytes t v = (case v of VBytes bs \<Rightarrow> bs | VInt x \<Rightarrow> be_bytes (int_width t) x | VInts xs \<Rightarrow> map ucast xs)"

definition named :: "'p running \<Rightarrow> string option \<Rightarrow> rvalue" where
  "named s i = (case i of None \<Rightarrow> VInt (ucast (rn_command s)) | Some x \<Rightarrow> rn_self s x)"

fun read_vec :: "'p port_ops \<Rightarrow> CodegenType \<Rightarrow> string \<Rightarrow> nat \<Rightarrow> 'p running \<Rightarrow> (cmd_err + unit) \<times> 'p running" where
  "read_vec ops t i 0 s = (Inr (), s)"
| "read_vec ops t i (Suc n) s =
     (case read_be ops t s of
        (Inl e, s) \<Rightarrow> (Inl e, s)
      | (Inr _, s) \<Rightarrow>
          read_vec ops t i n (s\<lparr>rn_self := (rn_self s)
            (i := VInts ((case rn_self s i of VInts xs \<Rightarrow> xs | _ \<Rightarrow> []) @ [int_of (rn_tmp s)]))\<rparr>))"

fun exec_token :: "'p port_ops \<Rightarrow> token \<Rightarrow> 'p running \<Rightarrow> (cmd_err + unit) \<times> 'p running" where
  "exec_token ops (TkConst c) s = (Inr (), s\<lparr>rn_command := c\<rparr>)"
| "exec_token ops (TkLoad i) s = (Inr (), s\<lparr>rn_tmp := named s i\<rparr>)"
| "exec_token ops (TkStore i) s = (Inr (), s\<lparr>rn_self := (rn_self s)(i := rn_tmp s)\<rparr>)"
| "exec_token ops (TkStatus st) s =
     (if (ucast (int_of (rn_tmp s)) :: u16) \<noteq> st
      then (Inl (InvalidStatus st (ucast (int_of (rn_tmp s)))), s) else (Inr (), s))"
| "exec_token ops (TkTx t) s = write_bytes_to ops (tx_bytes t (rn_tmp s)) s"
| "exec_token ops (TkRx t) s = read_be ops t s"
| "exec_token ops (TkEchoStatus i) s =
     (if rn_tmp s \<noteq> named s i
      then (Inl (InvalidEchoData (int_of (named s i)) (int_of (rn_tmp s))), s) else (Inr (), s))"
| "exec_token ops (TkDefault i t v) s =
     (if 2 ^ (8 * int_width t) \<le> unat v then (Inl CmdPanic, s)
      else (Inr (), s\<lparr>rn_self := (rn_self s)(i := VInt v)\<rparr>))"
| "exec_token ops (TkRepeat n t i) s = read_vec ops t i (unat (int_of (rn_self s n))) s"

fun exec_tokens :: "'p port_ops \<Rightarrow> token list \<Rightarrow> 'p running \<Rightarrow> (cmd_err + unit) \<times> 'p running" where
  "exec_tokens ops [] s = (Inr (), s)"
| "exec_tokens ops (k # ks) s =
     (case exec_token ops k s of
        (Inl e, s') \<Rightarrow> (Inl e, s')
      | (Inr _, s') \<Rightarrow> exec_tokens ops ks s')"

section \<open>Ports of bytes\<close>

text \<open>A scripted port that reports a read beyond its input as an error, like a timeout.\<close>

definition script_ops :: "queues port_ops" where
  "script_ops =
     (let rd = (\<lambda>q n. if n \<le> length (q_in q) then (Some (take n (q_in q)), q\<lparr>q_in := drop n (q_in q)\<rparr>) else (None, q))
      in \<lparr>op_read = rd, op_write = (\<lambda>q bs. (True, q\<lparr>q_out := q_out q @ bs\<rparr>)),
          op_read_u32_be = (\<lambda>q. case rd q 4 of (bs, q') \<Rightarrow> (map_option of_be32 bs, q')),
          op_write_u32_be = (\<lambda>q v. (True, q\<lparr>q_out := q_out q @ be32 v\<rparr>))\<rparr>)"

interpretation script: fifo_port script_ops q_in q_out
  by unfold_locales (auto simp: script_ops_def Let_def)

lemma length_be_bytes [simp]: "n \<le> 4 \<Longrightarrow> length (be_bytes n v) = n"
  by (simp add: be_bytes_def)

lemma of_be_be_bytes_4 [simp]: "of_be (be_bytes 4 v) = v"
  by (simp add: of_be_def be_bytes_def)

lemma of_be_inj:
  assumes "of_be bs = of_be cs" and "length bs = n" and "length cs = n" and "n \<in> {1, 2, 4}"
  shows "bs = cs"
proof -
  have le: "le32 (of_le32 [a, b, c, d]) = [a, b, c, d]" for a b c d
  proof -
    have "ucast (of_le32 [a, b, c, d]) = a" "ucast (drop_bit 8 (of_le32 [a, b, c, d])) = b"
      "ucast (drop_bit 16 (of_le32 [a, b, c, d])) = c" "ucast (drop_bit 24 (of_le32 [a, b, c, d])) = d"
      unfolding of_le32_def by (rule bit_word_eqI, auto simp: bit_simps dest: bit_imp_le_length)+
    then show ?thesis by (simp add: le32_def)
  qed
  have inj: "xs = ys" if "of_le32 xs = of_le32 ys" "length xs = 4" "length ys = 4" for xs ys
  proof -
    from that obtain a b c d e f g h where x: "xs = [a, b, c, d]" "ys = [e, f, g, h]"
      by (auto simp: numeral_eq_Suc length_Suc_conv)
    with arg_cong [OF that(1), of le32] show ?thesis by (simp only: le)
  qed
  have "rev bs @ replicate (4 - n) 0 = rev cs @ replicate (4 - n) 0"
    using assms by (intro inj) (auto simp: of_be_def)
  then show ?thesis by simp
qed

text \<open>On any port that is a pair of queues, generated code does what it does on the scripted one,
  unless that runs out of input.\<close>

definition mirrors :: "('p \<Rightarrow> u8 list) \<Rightarrow> ('p \<Rightarrow> u8 list) \<Rightarrow> 'p running \<Rightarrow> queues running \<Rightarrow> bool" where
  "mirrors inb outb s q \<longleftrightarrow> rn_self s = rn_self q \<and> rn_command s = rn_command q \<and> rn_tmp s = rn_tmp q \<and>
     inb (rn_port s) = q_in (rn_port q) \<and> outb (rn_port s) = q_out (rn_port q)"

context fifo_port
begin

lemma read_be_mirrors:
  assumes "mirrors inbox outbox s q" and "read_be script_ops t q = (Inr (), q')"
  shows "\<exists>s'. read_be ops t s = (Inr (), s') \<and> mirrors inbox outbox s' q'"
proof -
  from assms(2) have l: "int_width t \<le> length (q_in (rn_port q))"
    and q': "q' = q\<lparr>rn_tmp := VInt (of_be (take (int_width t) (q_in (rn_port q)))),
      rn_port := (rn_port q)\<lparr>q_in := drop (int_width t) (q_in (rn_port q))\<rparr>\<rparr>"
    by (auto simp: read_be_def script_ops_def Let_def split: if_splits)
  from l assms(1) have "int_width t \<le> length (inbox (rn_port s))" by (simp add: mirrors_def)
  from read_law [OF this] assms(1) q' show ?thesis by (auto simp: read_be_def mirrors_def)
qed

lemma write_bytes_mirrors:
  assumes "mirrors inbox outbox s q" and "write_bytes_to script_ops bs q = (r, q')"
  shows "\<exists>s'. write_bytes_to ops bs s = (r, s') \<and> mirrors inbox outbox s' q'"
  using assms write_law [of "rn_port s" bs] by (auto simp: write_bytes_to_def script_ops_def mirrors_def Let_def)

lemma read_vec_mirrors:
  "mirrors inbox outbox s q \<Longrightarrow> read_vec script_ops t i n q = (Inr (), q') \<Longrightarrow>
   \<exists>s'. read_vec ops t i n s = (Inr (), s') \<and> mirrors inbox outbox s' q'"
proof (induction n arbitrary: s q)
  case (Suc n)
  from Suc.prems(2) obtain q1 where q1: "read_be script_ops t q = (Inr (), q1)"
    by (auto split: prod.splits sum.splits)
  from read_be_mirrors [OF Suc.prems(1) q1] obtain s1 where
    s1: "read_be ops t s = (Inr (), s1)" "mirrors inbox outbox s1 q1" by blast
  define push where "push = (\<lambda>r. VInts ((case r i of VInts xs \<Rightarrow> xs | _ \<Rightarrow> []) @ [int_of (rn_tmp q1)]))"
  from s1(2) have eq: "rn_self s1 = rn_self q1" "rn_tmp s1 = rn_tmp q1" by (simp_all add: mirrors_def)
  from s1(2) have "mirrors inbox outbox (s1\<lparr>rn_self := (rn_self q1)(i := push (rn_self q1))\<rparr>)
      (q1\<lparr>rn_self := (rn_self q1)(i := push (rn_self q1))\<rparr>)"
    by (simp add: mirrors_def)
  moreover from Suc.prems(2) q1
  have "read_vec script_ops t i n (q1\<lparr>rn_self := (rn_self q1)(i := push (rn_self q1))\<rparr>) = (Inr (), q')"
    by (simp add: push_def)
  ultimately show ?case using Suc.IH s1(1) eq by (simp add: push_def)
qed simp

lemma exec_token_mirrors:
  assumes "mirrors inbox outbox s q" and "exec_token script_ops k q = (r, q')" and "r \<noteq> Inl CmdIo"
  shows "\<exists>s'. exec_token ops k s = (r, s') \<and> mirrors inbox outbox s' q'"
proof (cases k)
  case (TkRx t)
  with assms(2,3) have "r = Inr ()" by (auto simp: read_be_def split: prod.splits option.splits)
  with TkRx assms(1,2) show ?thesis using read_be_mirrors by simp
next
  case (TkTx t)
  moreover have "rn_tmp s = rn_tmp q" using assms(1) by (simp add: mirrors_def)
  ultimately show ?thesis using assms(1,2) write_bytes_mirrors by simp
next
  case (TkRepeat n t i)
  have "read_vec script_ops t i m p = (x, p') \<Longrightarrow> x \<noteq> Inl CmdIo \<Longrightarrow> x = Inr ()" for m p x p'
    by (induction m arbitrary: p) (auto simp: read_be_def split: prod.splits sum.splits option.splits)
  with TkRepeat assms(2,3) have "r = Inr ()" by simp
  moreover have "rn_self s n = rn_self q n" using assms(1) by (simp add: mirrors_def)
  ultimately show ?thesis using TkRepeat assms(1,2) read_vec_mirrors by simp
qed (use assms in \<open>auto simp: mirrors_def named_def split: if_splits option.splits\<close>)

lemma exec_tokens_mirrors:
  "mirrors inbox outbox s q \<Longrightarrow> exec_tokens script_ops ks q = (r, q') \<Longrightarrow> r \<noteq> Inl CmdIo \<Longrightarrow>
   \<exists>s'. exec_tokens ops ks s = (r, s') \<and> mirrors inbox outbox s' q'"
proof (induction ks arbitrary: s q)
  case (Cons k ks)
  obtain x q1 where x: "exec_token script_ops k q = (x, q1)" by (rule prod.exhaust)
  with Cons.prems have "x \<noteq> Inl CmdIo" by auto
  from exec_token_mirrors [OF Cons.prems(1) x this] obtain s1 where
    s1: "exec_token ops k s = (x, s1)" "mirrors inbox outbox s1 q1" by blast
  show ?case
  proof (cases x)
    case (Inl e)
    with Cons.prems(2) x s1 show ?thesis by auto
  next
    case (Inr u)
    with Cons.prems(2) x have "exec_tokens script_ops ks q1 = (r, q')" by simp
    from Cons.IH [OF s1(2) this Cons.prems(3)] s1(1) Inr show ?thesis by simp
  qed
qed simp

end

end
