(* ===== verification/Commands.thy ===== *)
theory Commands
  imports Macros
begin

text \<open>
  The commands of the boot ROM, the preloader and the vendor agent, \<open>crates/da-boot/src/commands\<close>.
  Every structure is written down as the source declares it, fields with their types and
  attributes, and its code is what the model of the derive macro generates from that.
\<close>

section \<open>Structures\<close>

type_synonym protocol_struct = "DarlingProtocolArgs \<times> (string \<times> rust_type \<times> DarlingProtocolField) list"

definition no_attr :: DarlingProtocolField where
  "no_attr = \<lparr>fa_tx = False, fa_rx = False, fa_echo = False, fa_status = None, fa_size = None,
              fa_ack = None, fa_always = None, fa_getter = False\<rparr>"

definition "tx = no_attr\<lparr>fa_tx := True\<rparr>"
definition "tx_always v = tx\<lparr>fa_always := Some v\<rparr>"
definition "rx = no_attr\<lparr>fa_rx := True\<rparr>"
definition "rx_status s = rx\<lparr>fa_status := Some s\<rparr>"
definition "echo = no_attr\<lparr>fa_echo := True\<rparr>"

lemmas attr_defs = no_attr_def tx_def tx_always_def rx_def rx_status_def echo_def

definition command_echo :: "u8 \<Rightarrow> DarlingProtocolArgs" where
  "command_echo c = \<lparr>pa_command = Some c, pa_naked = False, pa_echo = True\<rparr>"

definition SendDA :: protocol_struct where
  "SendDA = (command_echo 0xd7,
     [(''addr'', Path ''u32'', echo),
      (''payload_len'', Path ''u32'', echo),
      (''da_sig_len'', Path ''u32'', echo),
      (''zero_status'', Path ''u16'', rx_status 0),
      (''payload'', Reference ''[u8]'', tx),
      (''checksum'', Path ''u16'', rx),
      (''status'', Path ''u16'', rx_status 0)])"

definition JumpDA :: protocol_struct where
  "JumpDA = (command_echo 0xd5,
     [(''addr'', Path ''u32'', echo),
      (''status'', Path ''u16'', rx_status 0)])"

definition Read32 :: protocol_struct where
  "Read32 = (command_echo 0xd1,
     [(''addr'', Path ''u32'', echo),
      (''dwords'', Path ''u32'', echo),
      (''status'', Path ''u16'', rx_status 0),
      (''buf'', VecOf ''u32'', rx\<lparr>fa_getter := True, fa_size := Some ''dwords''\<rparr>),
      (''final_status'', Path ''u16'', rx_status 0)])"

definition GetTargetConfig :: protocol_struct where
  "GetTargetConfig = (command_echo 0xd8,
     [(''config'', Path ''u32'', rx),
      (''status'', Path ''u16'', rx_status 0)])"

definition GetHwCode :: protocol_struct where
  "GetHwCode = (command_echo 0xfd,
     [(''hwcode'', Path ''u16'', rx\<lparr>fa_getter := True\<rparr>),
      (''status'', Path ''u16'', rx_status 0)])"

definition Write32 :: protocol_struct where
  "Write32 = (\<lparr>pa_command = Some 0x7b, pa_naked = False, pa_echo = False\<rparr>,
     [(''addr'', Path ''u32'', tx),
      (''data'', Path ''u32'', tx),
      (''ack'', Path ''u8'', rx_status 0x5a)])"

definition DA1Setup :: protocol_struct where
  "DA1Setup = (\<lparr>pa_command = None, pa_naked = True, pa_echo = False\<rparr>,
     [(''sync'', Path ''u8'', rx_status 0xc0),
      (''nand_ret'', Path ''u32'', rx),
      (''nand_id_count'', Path ''u16'', rx),
      (''_nand_id1'', Path ''u16'', rx),
      (''_nand_id2'', Path ''u16'', rx),
      (''_nand_id3'', Path ''u16'', rx),
      (''_nand_id4'', Path ''u16'', rx),
      (''emmc_ret'', Path ''u32'', rx),
      (''_emmc_id1'', Path ''u32'', rx),
      (''_emmc_id2'', Path ''u32'', rx),
      (''_emmc_id3'', Path ''u32'', rx),
      (''_emmc_id4'', Path ''u32'', rx),
      (''_cont'', Path ''u8'', tx_always 0),
      (''minor'', Path ''u8'', rx),
      (''major'', Path ''u8'', rx),
      (''_unknown'', Path ''u8'', rx),
      (''brom_version'', Path ''u8'', tx_always 1),
      (''preloader_version'', Path ''u8'', tx_always 1),
      (''_nor_chip_select1'', Path ''u8'', tx_always 0),
      (''_nor_chip_select2'', Path ''u8'', tx_always 0),
      (''_nand_chip_select'', Path ''u8'', tx_always 0),
      (''_nand_acccon'', Path ''u32'', tx_always 0),
      (''bmt_present'', Path ''u8'', tx_always 0),
      (''bmt_size'', Path ''u32'', tx_always 0),
      (''charge_mode'', Path ''u8'', tx_always 2),
      (''reset_mode'', Path ''u8'', tx_always 0x52),
      (''external_clock_freq'', Path ''u8'', tx_always 2),
      (''msdc_channel'', Path ''u8'', tx_always 0),
      (''dram_status'', Path ''u32'', rx_status 0)])"

section \<open>Constructors and runs\<close>

text \<open>\<open>new\<close> takes the constructor fields; the others have the default of their type.\<close>

definition default_of :: "rust_type \<Rightarrow> rvalue" where
  "default_of t = (case t of Path _ \<Rightarrow> VInt 0 | VecOf _ \<Rightarrow> VInts [] | Reference _ \<Rightarrow> VBytes [])"

definition struct_new :: "protocol_struct \<Rightarrow> (string \<times> rvalue) list \<Rightarrow> string \<Rightarrow> rvalue" where
  "struct_new st args i =
     (case map_of args i of
        Some v \<Rightarrow> v
      | None \<Rightarrow> (case map_of (snd st) i of Some (t, _) \<Rightarrow> default_of t | None \<Rightarrow> VInt 0))"

definition struct_code :: "protocol_struct \<Rightarrow> token list" where
  "struct_code st = (case derive_protocol (fst st) (snd st) of Inr ks \<Rightarrow> ks | Inl _ \<Rightarrow> [])"

definition run_struct ::
  "'p port_ops \<Rightarrow> protocol_struct \<Rightarrow> (string \<times> rvalue) list \<Rightarrow> 'p \<Rightarrow> (cmd_err + unit) \<times> 'p running" where
  "run_struct ops st args port =
     exec_tokens ops (struct_code st)
       \<lparr>rn_self = struct_new st args, rn_command = 0, rn_tmp = VInt 0, rn_port = port\<rparr>"

definition send_da :: "'p port_ops \<Rightarrow> u32 \<Rightarrow> u32 \<Rightarrow> u32 \<Rightarrow> u8 list \<Rightarrow> 'p \<Rightarrow> (cmd_err + unit) \<times> 'p running" where
  "send_da ops addr len sig payload =
     run_struct ops SendDA [(''addr'', VInt addr), (''payload_len'', VInt len), (''da_sig_len'', VInt sig),
       (''payload'', VBytes payload)]"

definition jump_da :: "'p port_ops \<Rightarrow> u32 \<Rightarrow> 'p \<Rightarrow> (cmd_err + unit) \<times> 'p running" where
  "jump_da ops addr = run_struct ops JumpDA [(''addr'', VInt addr)]"

text \<open>The results of the generated \<open>run_buf\<close> and \<open>run_hwcode\<close>: run, then the field.\<close>

definition run_field :: "(cmd_err + unit) \<times> 'p running \<Rightarrow> string \<Rightarrow> (cmd_err + rvalue) \<times> 'p" where
  "run_field r i = (case r of (Inl e, s) \<Rightarrow> (Inl e, rn_port s) | (Inr _, s) \<Rightarrow> (Inr (rn_self s i), rn_port s))"

definition read32 :: "'p port_ops \<Rightarrow> u32 \<Rightarrow> u32 \<Rightarrow> 'p \<Rightarrow> (cmd_err + unit) \<times> 'p running" where
  "read32 ops addr dwords = run_struct ops Read32 [(''addr'', VInt addr), (''dwords'', VInt dwords)]"

definition get_hw_code :: "'p port_ops \<Rightarrow> 'p \<Rightarrow> (cmd_err + rvalue) \<times> 'p" where
  "get_hw_code ops port = run_field (run_struct ops GetHwCode [] port) ''hwcode''"

text \<open>\<open>GetTargetConfig::parse\<close>.\<close>

definition parse_config :: "u32 \<Rightarrow> bool \<times> bool \<times> bool" where
  "parse_config config = (config AND 1 \<noteq> 0, config AND 2 \<noteq> 0, config AND 4 \<noteq> 0)"

section \<open>The generated code of every command\<close>

named_theorems codegen

lemmas codegen_defs [codegen] = struct_code_def derive_protocol_def protocol_kind_def field_type_def
  overlap_def attr_defs command_echo_def da_legacy_def codegen_command_def codegen_field_def
  append_tokens_def tk_rx_def scalar_def codegen_type_def vec_inner_def Let_def

lemma SendDA_code: "struct_code SendDA =
  [TkConst 0xd7, TkLoad None, TkTx CU8, TkRx CU8, TkEchoStatus None,
   TkLoad (Some ''addr''), TkTx CU32, TkRx CU32, TkEchoStatus (Some ''addr''), TkStore ''addr'',
   TkLoad (Some ''payload_len''), TkTx CU32, TkRx CU32, TkEchoStatus (Some ''payload_len''), TkStore ''payload_len'',
   TkLoad (Some ''da_sig_len''), TkTx CU32, TkRx CU32, TkEchoStatus (Some ''da_sig_len''), TkStore ''da_sig_len'',
   TkRx CU16, TkStatus 0, TkStore ''zero_status'',
   TkLoad (Some ''payload''), TkTx CSlice,
   TkRx CU16, TkStore ''checksum'',
   TkRx CU16, TkStatus 0, TkStore ''status'']"
  by (simp add: SendDA_def codegen)

lemma JumpDA_code: "struct_code JumpDA =
  [TkConst 0xd5, TkLoad None, TkTx CU8, TkRx CU8, TkEchoStatus None,
   TkLoad (Some ''addr''), TkTx CU32, TkRx CU32, TkEchoStatus (Some ''addr''), TkStore ''addr'',
   TkRx CU16, TkStatus 0, TkStore ''status'']"
  by (simp add: JumpDA_def codegen)

lemma Read32_code: "struct_code Read32 =
  [TkConst 0xd1, TkLoad None, TkTx CU8, TkRx CU8, TkEchoStatus None,
   TkLoad (Some ''addr''), TkTx CU32, TkRx CU32, TkEchoStatus (Some ''addr''), TkStore ''addr'',
   TkLoad (Some ''dwords''), TkTx CU32, TkRx CU32, TkEchoStatus (Some ''dwords''), TkStore ''dwords'',
   TkRx CU16, TkStatus 0, TkStore ''status'',
   TkRepeat ''dwords'' CU32 ''buf'',
   TkRx CU16, TkStatus 0, TkStore ''final_status'']"
  by (simp add: Read32_def codegen)

lemma GetHwCode_code: "struct_code GetHwCode =
  [TkConst 0xfd, TkLoad None, TkTx CU8, TkRx CU8, TkEchoStatus None,
   TkRx CU16, TkStore ''hwcode'', TkRx CU16, TkStatus 0, TkStore ''status'']"
  by (simp add: GetHwCode_def codegen)

section \<open>Bytes of the answers\<close>

definition be16 :: "u16 \<Rightarrow> u8 list" where
  "be16 w = be_bytes 2 (ucast w)"

lemma length_be16 [simp]: "length (be16 w) = 2"
  by (simp add: be16_def)

lemma ucast_u8_u32 [simp]: "(ucast (ucast (b :: u8) :: u32) :: u8) = b"
  by (rule bit_word_eqI) (auto simp: bit_simps dest: bit_imp_le_length)

lemma ucast_u16_u32 [simp]: "(ucast (ucast (w :: u16) :: u32) :: u16) = w"
  by (rule bit_word_eqI) (auto simp: bit_simps dest: bit_imp_le_length)

lemma be_bytes_1 [simp]: "be_bytes (Suc 0) (ucast (b :: u8)) = [b]"
  by (simp add: be_bytes_def le32_def)

lemma be_bytes_4 [simp]: "be_bytes 4 v = be32 v"
  by (simp add: be_bytes_def be32_def)

lemma of_be_be32 [simp]: "of_be (be32 v) = v"
  using of_be_be_bytes_4 [of v] by simp

lemma of_be_1 [simp]: "of_be [b] = ucast b"
  by (simp add: of_be_def of_le32_def numeral_3_eq_3)

lemma of_be_be16 [simp]: "of_be (be16 w) = ucast w"
proof -
  have "be16 w = [ucast (drop_bit 8 (ucast w :: u32)), ucast (ucast w :: u32)]"
    by (simp add: be16_def be_bytes_def le32_def numeral_2_eq_2)
  then have "of_be (be16 w) = of_le32 [ucast (ucast w :: u32), ucast (drop_bit 8 (ucast w :: u32)), 0, 0]"
    by (simp add: of_be_def numeral_2_eq_2)
  also have "\<dots> = ucast w"
    unfolding of_le32_def by (rule bit_word_eqI) (auto simp: bit_simps dest: bit_imp_le_length)
  finally show ?thesis .
qed

lemma ucast_u8_eq [simp]: "(ucast (a :: u8) :: u32) = ucast b \<longleftrightarrow> a = b"
  using ucast_u8_u32 by metis

lemmas exec_simps = read_be_def write_bytes_to_def tx_bytes_def named_def int_width_def script_ops_def Let_def
  struct_new_def run_struct_def

text \<open>A command on a port of queues does what it does on the scripted port with the same queues.\<close>

context fifo_port
begin

lemma run_struct_script:
  assumes "run_struct script_ops st args \<lparr>q_in = inbox p, q_out = outbox p\<rparr> = (r, q)" and "r \<noteq> Inl CmdIo"
  shows "\<exists>x. run_struct ops st args p = (r, x) \<and> inbox (rn_port x) = q_in (rn_port q) \<and>
    outbox (rn_port x) = q_out (rn_port q) \<and> rn_self x = rn_self q"
proof -
  have "mirrors inbox outbox
      \<lparr>rn_self = struct_new st args, rn_command = 0, rn_tmp = VInt 0, rn_port = p\<rparr>
      \<lparr>rn_self = struct_new st args, rn_command = 0, rn_tmp = VInt 0,
       rn_port = \<lparr>q_in = inbox p, q_out = outbox p\<rparr>\<rparr>"
    by (simp add: mirrors_def)
  from exec_tokens_mirrors [OF this assms(1) [unfolded run_struct_def] assms(2)]
  show ?thesis by (auto simp: run_struct_def mirrors_def)
qed

end

lemma ucast_u8_numeral [simp]:
  "(ucast (e :: u8) = (0xd7 :: u32)) = (e = 0xd7)" "((0xd7 :: u32) = ucast e) = (e = 0xd7)"
  "(ucast (e :: u8) = (0xd5 :: u32)) = (e = 0xd5)" "((0xd5 :: u32) = ucast e) = (e = 0xd5)"
  "(ucast (e :: u8) = (0xd1 :: u32)) = (e = 0xd1)" "((0xd1 :: u32) = ucast e) = (e = 0xd1)"
  using ucast_u8_eq [of e "0xd7"] ucast_u8_eq [of e "0xd5"] ucast_u8_eq [of e "0xd1"] by auto

lemma be_bytes_command [simp]:
  "be_bytes (Suc 0) 0xd7 = [0xd7]" "be_bytes (Suc 0) 0xd5 = [0xd5]" "be_bytes (Suc 0) 0xd1 = [0xd1]"
  "be_bytes (Suc 0) 0xfd = [0xfd]"
  by (simp_all add: be_bytes_def le32_def)

text \<open>What \<open>SendDA\<close> returns and sends, by what the device answers.\<close>

definition send_da_result :: "u32 \<Rightarrow> u32 \<Rightarrow> u32 \<Rightarrow> u8 \<Rightarrow> u32 \<Rightarrow> u32 \<Rightarrow> u32 \<Rightarrow> u16 \<Rightarrow> u16 \<Rightarrow> cmd_err + unit" where
  "send_da_result addr len sig e a l s st st' =
     (if e \<noteq> 0xd7 then Inl (InvalidEchoData 0xd7 (ucast e))
      else if a \<noteq> addr then Inl (InvalidEchoData addr a)
      else if l \<noteq> len then Inl (InvalidEchoData len l)
      else if s \<noteq> sig then Inl (InvalidEchoData sig s)
      else if st \<noteq> 0 then Inl (InvalidStatus 0 st)
      else if st' \<noteq> 0 then Inl (InvalidStatus 0 st') else Inr ())"

definition send_da_sent :: "u32 \<Rightarrow> u32 \<Rightarrow> u32 \<Rightarrow> u8 list \<Rightarrow> u8 \<Rightarrow> u32 \<Rightarrow> u32 \<Rightarrow> u32 \<Rightarrow> u16 \<Rightarrow> u8 list" where
  "send_da_sent addr len sig payload e a l s st =
     [0xd7] @ (if e \<noteq> 0xd7 then [] else be32 addr @ (if a \<noteq> addr then [] else be32 len @
       (if l \<noteq> len then [] else be32 sig @ (if s \<noteq> sig \<or> st \<noteq> 0 then [] else payload))))"

lemma send_da_script:
  assumes "q_in port = [e] @ be32 a @ be32 l @ be32 s @ be16 st @ be16 ck @ be16 st' @ rest"
  shows "\<exists>x. send_da script_ops addr len sig payload port = (send_da_result addr len sig e a l s st st', x) \<and>
    q_out (rn_port x) = q_out port @ send_da_sent addr len sig payload e a l s st \<and>
    (send_da_result addr len sig e a l s st st' = Inr () \<longrightarrow> q_in (rn_port x) = rest)"
  by (simp add: send_da_def SendDA_code exec_simps assms send_da_result_def send_da_sent_def)

lemma jump_da_script:
  assumes "q_in port = [0xd5] @ be32 addr @ be16 st @ rest"
  shows "\<exists>x. jump_da script_ops addr port = (if st = 0 then Inr () else Inl (InvalidStatus 0 st), x) \<and>
    q_out (rn_port x) = q_out port @ [0xd5] @ be32 addr \<and> q_in (rn_port x) = rest"
  by (simp add: jump_da_def JumpDA_code exec_simps assms)

lemma read_vec_script:
  "q_in (rn_port s) = concat (map be32 ws) @ rest \<Longrightarrow> rn_self s i = VInts xs \<Longrightarrow>
   \<exists>s'. read_vec script_ops CU32 i (length ws) s = (Inr (), s') \<and>
     rn_self s' = (rn_self s)(i := VInts (xs @ ws)) \<and> rn_port s' = (rn_port s)\<lparr>q_in := rest\<rparr>"
proof (induction ws arbitrary: s xs)
  case Nil
  then show ?case by (simp add: fun_upd_idem)
next
  case (Cons w ws)
  define s1 where "s1 = s\<lparr>rn_tmp := VInt w, rn_port := (rn_port s)\<lparr>q_in := concat (map be32 ws) @ rest\<rparr>,
      rn_self := (rn_self s)(i := VInts (xs @ [w]))\<rparr>"
  from Cons.prems have "read_vec script_ops CU32 i (Suc (length ws)) s = read_vec script_ops CU32 i (length ws) s1"
    by (simp add: read_be_def script_ops_def int_width_def Let_def s1_def)
  moreover have "q_in (rn_port s1) = concat (map be32 ws) @ rest" "rn_self s1 i = VInts (xs @ [w])"
    by (simp_all add: s1_def)
  from Cons.IH [OF this] obtain s' where
    "read_vec script_ops CU32 i (length ws) s1 = (Inr (), s')"
    "rn_self s' = (rn_self s1)(i := VInts ((xs @ [w]) @ ws))" "rn_port s' = (rn_port s1)\<lparr>q_in := rest\<rparr>"
    by blast
  ultimately show ?case by (auto simp: s1_def fun_eq_iff)
qed

lemma exec_tokens_append:
  "exec_tokens ops (ks @ ls) s =
     (case exec_tokens ops ks s of (Inl e, s') \<Rightarrow> (Inl e, s') | (Inr _, s') \<Rightarrow> exec_tokens ops ls s')"
  by (induction ks arbitrary: s) (auto split: prod.split sum.split)

lemma read32_script:
  assumes "q_in port = [0xd1] @ be32 addr @ be32 n @ be16 0 @ concat (map be32 ws) @ be16 st @ rest"
    and "length ws = unat n"
  shows "\<exists>x. read32 script_ops addr n port = (if st = 0 then Inr () else Inl (InvalidStatus 0 st), x) \<and>
    rn_self x ''buf'' = VInts ws \<and> q_out (rn_port x) = q_out port @ [0xd1] @ be32 addr @ be32 n \<and>
    q_in (rn_port x) = rest"
proof -
  define mid where "mid = \<lparr>rn_self = (struct_new Read32 [(''addr'', VInt addr), (''dwords'', VInt n)])
      (''addr'' := VInt addr, ''dwords'' := VInt n, ''status'' := VInt 0),
    rn_command = 0xd1, rn_tmp = VInt 0,
    rn_port = \<lparr>q_in = concat (map be32 ws) @ be16 st @ rest, q_out = q_out port @ [0xd1] @ be32 addr @ be32 n\<rparr>\<rparr>"
  have "exec_tokens script_ops (take 18 (struct_code Read32))
      \<lparr>rn_self = struct_new Read32 [(''addr'', VInt addr), (''dwords'', VInt n)], rn_command = 0, rn_tmp = VInt 0,
       rn_port = port\<rparr> = (Inr (), mid)"
    by (simp add: Read32_code exec_simps assms(1) mid_def)
  moreover have "rn_self mid ''buf'' = VInts []" "rn_self mid ''dwords'' = VInt n"
    "q_in (rn_port mid) = concat (map be32 ws) @ be16 st @ rest"
    by (simp_all add: mid_def struct_new_def Read32_def default_of_def)
  moreover from this read_vec_script [of mid ws "be16 st @ rest" "''buf''" "[]"]
  obtain s' where s': "read_vec script_ops CU32 ''buf'' (unat n) mid = (Inr (), s')"
    "rn_self s' = (rn_self mid)(''buf'' := VInts ws)" "rn_port s' = (rn_port mid)\<lparr>q_in := be16 st @ rest\<rparr>"
    using assms(2) by auto
  ultimately have "read32 script_ops addr n port =
      exec_tokens script_ops [TkRx CU16, TkStatus 0, TkStore ''final_status''] s'"
    using exec_tokens_append [of script_ops "take 18 (struct_code Read32)" "drop 18 (struct_code Read32)"]
    by (simp add: read32_def run_struct_def) (simp add: Read32_code)
  then show ?thesis using s'(2,3) by (simp add: exec_simps mid_def)
qed

section \<open>Properties\<close>

text \<open>C20: \<open>SendDA\<close> on every branch, over any port that is a pair of byte queues: the command and the
  three words are sent one at a time, each only after the one before came back unchanged, the
  payload only after that and a zero status; the first answer that differs decides the error, and
  the checksum the device returns is not looked at.\<close>

theorem send_da_behaviour:
  assumes "fifo_port ops inbox outbox"
    and "inbox port = [e] @ be32 a @ be32 l @ be32 s @ be16 st @ be16 checksum @ be16 st' @ rest"
  shows "\<exists>x. send_da ops addr len sig payload port = (send_da_result addr len sig e a l s st st', x) \<and>
    outbox (rn_port x) = outbox port @ send_da_sent addr len sig payload e a l s st \<and>
    (send_da_result addr len sig e a l s st st' = Inr () \<longrightarrow> inbox (rn_port x) = rest)"
proof -
  obtain q where q: "send_da script_ops addr len sig payload \<lparr>q_in = inbox port, q_out = outbox port\<rparr> =
      (send_da_result addr len sig e a l s st st', q)"
    "q_out (rn_port q) = outbox port @ send_da_sent addr len sig payload e a l s st"
    "send_da_result addr len sig e a l s st st' = Inr () \<longrightarrow> q_in (rn_port q) = rest"
    using send_da_script [of "\<lparr>q_in = inbox port, q_out = outbox port\<rparr>" e a l s st checksum st' rest
      addr len sig payload] assms(2) by auto
  have "send_da_result addr len sig e a l s st st' \<noteq> Inl CmdIo" by (simp add: send_da_result_def)
  from fifo_port.run_struct_script [OF assms(1) q(1) [unfolded send_da_def] this] q(2,3)
  show ?thesis by (auto simp: send_da_def)
qed

lemma send_da_behaviour_witness:
  "\<exists>x. send_da script_ops 0x2001000 2 0 [7, 9]
      \<lparr>q_in = [0xd7] @ be32 0x2001000 @ be32 2 @ be32 0 @ be16 0 @ be16 0xBAD @ be16 0 @ [], q_out = []\<rparr> = (Inr (), x) \<and>
    q_out (rn_port x) = [0xd7] @ be32 0x2001000 @ be32 2 @ be32 0 @ [7, 9]"
  using send_da_behaviour [OF script.fifo_port_axioms, where e = "0xd7" and a = "0x2001000" and l = 2 and s = 0
      and st = 0 and checksum = "0xBAD" and st' = 0 and rest = "[]" and addr = "0x2001000" and len = 2
      and sig = 0 and payload = "[7, 9]" and
      port = "\<lparr>q_in = [0xd7] @ be32 0x2001000 @ be32 2 @ be32 0 @ be16 0 @ be16 0xBAD @ be16 0 @ [], q_out = []\<rparr>"]
  by (simp add: send_da_result_def send_da_sent_def del: append.simps append_assoc) auto

text \<open>\<open>Read32\<close> returns exactly the words the device sends, in order, as many as were asked for,
  and leaves the rest of the stream alone; a final status other than zero is the error.\<close>

theorem read32_returns_words:
  assumes "fifo_port ops inbox outbox" and "length ws = unat n"
    and "inbox port = [0xd1] @ be32 addr @ be32 n @ be16 0 @ concat (map be32 ws) @ be16 st @ rest"
  shows "\<exists>x. read32 ops addr n port = (if st = 0 then Inr () else Inl (InvalidStatus 0 st), x) \<and>
    rn_self x ''buf'' = VInts ws \<and> outbox (rn_port x) = outbox port @ [0xd1] @ be32 addr @ be32 n \<and>
    inbox (rn_port x) = rest"
proof -
  obtain q where q: "read32 script_ops addr n \<lparr>q_in = inbox port, q_out = outbox port\<rparr> =
      (if st = 0 then Inr () else Inl (InvalidStatus 0 st), q)"
    "rn_self q ''buf'' = VInts ws" "q_out (rn_port q) = outbox port @ [0xd1] @ be32 addr @ be32 n"
    "q_in (rn_port q) = rest"
    using read32_script [of "\<lparr>q_in = inbox port, q_out = outbox port\<rparr>" addr n ws st rest] assms(2,3) by auto
  have "(if st = 0 then Inr () else Inl (InvalidStatus 0 st)) \<noteq> Inl CmdIo" by simp
  from fifo_port.run_struct_script [OF assms(1) q(1) [unfolded read32_def] this] q(2-)
  show ?thesis by (auto simp: read32_def)
qed

lemma read32_returns_words_witness:
  "\<exists>x. read32 script_ops 0x1000 2
      \<lparr>q_in = [0xd1] @ be32 0x1000 @ be32 2 @ be16 0 @ concat (map be32 [3, 0xABCDEF]) @ be16 0 @ [1], q_out = []\<rparr>
      = (Inr (), x) \<and> rn_self x ''buf'' = VInts [3, 0xABCDEF] \<and> q_in (rn_port x) = [1]"
  using read32_returns_words [OF script.fifo_port_axioms, where ws = "[3, 0xABCDEF]" and n = 2 and
      addr = "0x1000" and st = 0 and rest = "[1]" and
      port = "\<lparr>q_in = [0xd1] @ be32 0x1000 @ be32 2 @ be16 0 @ concat (map be32 [3, 0xABCDEF]) @ be16 0 @ [1], q_out = []\<rparr>"]
  by (simp del: append.simps append_assoc) auto

text \<open>C39: The check of a status field of type \<open>u32\<close> compares the lower half of the word only: it passes
  exactly when those sixteen bits are the expected ones, so \<open>DA1Setup\<close> takes a DRAM status of
  \<open>0x10000\<close> for zero.\<close>

theorem status_check_is_16_bit:
  assumes "fifo_port ops inbox outbox" and "inbox (rn_port s) = be32 v @ rest"
    and "codegen_field \<lparr>fd_ident = i, fd_enum_ty = Rx (RxStatus st) g, fd_ty = Path ''u32''\<rparr> = Inr ks"
  shows "fst (exec_tokens ops ks s) = (if v AND 0xFFFF = ucast st then Inr () else Inl (InvalidStatus st (ucast v)))"
proof -
  have low: "v AND 0xFFFF = ucast st \<longleftrightarrow> (ucast v :: u16) = st"
  proof -
    have "(0xFFFF :: u32) = mask 16" by (simp add: mask_eq_exp_minus_1)
    then have "v AND 0xFFFF = v AND mask 16" by simp
    also have "\<dots> = ucast (ucast v :: u16)"
      by (rule bit_word_eqI) (auto simp: bit_simps dest: bit_imp_le_length)
    finally have "v AND 0xFFFF = ucast (ucast v :: u16)" .
    moreover have "(ucast x :: u32) = ucast y \<longleftrightarrow> x = y" for x y :: u16
      using ucast_u16_u32 by metis
    ultimately show ?thesis by simp
  qed
  from assms(3) have ks: "ks = [TkRx CU32, TkStatus st, TkStore i]" by (simp add: codegen)
  obtain q where "op_read ops (rn_port s) 4 = (Some (be32 v), q)"
    using fifo_port.read_law [OF assms(1), of 4 "rn_port s"] assms(2) by auto
  then show ?thesis by (simp add: ks read_be_def int_width_def low)
qed

lemma status_check_is_16_bit_witness:
  "fst (exec_tokens script_ops [TkRx CU32, TkStatus 0, TkStore ''dram_status'']
     \<lparr>rn_self = struct_new DA1Setup [], rn_command = 0, rn_tmp = VInt 0,
      rn_port = \<lparr>q_in = be32 0x10000 @ [], q_out = []\<rparr>\<rparr>) = Inr ()"
  using status_check_is_16_bit [OF script.fifo_port_axioms, where v = "0x10000" and rest = "[]" and st = 0 and
      i = "''dram_status''" and g = False and ks = "[TkRx CU32, TkStatus 0, TkStore ''dram_status'']" and
      s = "\<lparr>rn_self = struct_new DA1Setup [], rn_command = 0, rn_tmp = VInt 0,
        rn_port = \<lparr>q_in = be32 0x10000 @ [], q_out = []\<rparr>\<rparr>"]
  by (simp add: codegen)

end
