(* ===== verification/Setup.thy ===== *)
theory Setup
  imports Device
begin

text \<open>
  The start of the payload, \<open>payloads/rpc/src/setup.rs\<close>, \<open>pl.rs\<close> and \<open>brom.rs\<close>: checking the
  parameter block, moving the image to an unused range, relocating its pointers, and reserving
  image, stack and heap. The addresses the linker provides are a record; the parameter block is
  kept beside the memory. The lemmas show that the image moves at most once and that what the
  payload reserves for itself never overlaps.
\<close>

section \<open>Checks\<close>

datatype ParamsError = InvalidMagic | InvalidVersion | InvalidMemoryRange | InvalidFnPtr | RunningInBlacklistedRange

definition range_empty :: "MemoryRange \<Rightarrow> bool" where
  "range_empty r \<longleftrightarrow> \<not> mr_start r < mr_end r"

definition range_contains :: "MemoryRange \<Rightarrow> u32 \<Rightarrow> bool" where
  "range_contains r x \<longleftrightarrow> mr_start r \<le> x \<and> x < mr_end r"

definition verify_params :: "u32 \<Rightarrow> PayloadParams \<Rightarrow> ParamsError + unit" where
  "verify_params pc params =
     (if pp_magic params \<noteq> MAGIC then Inl InvalidMagic
      else if pp_version params \<noteq> CURRENT_VERSION then Inl InvalidVersion
      else if range_empty (pp_memory params) then Inl InvalidMemoryRange
      else if pp_ptr_dl params = 0 \<or> pp_ptr_ul params = 0 then Inl InvalidFnPtr
      else if list_ex (\<lambda>b. range_contains (bl_range b) pc \<and> bl_mode b = ForbiddenReloc) (pp_blacklist params)
      then Inl RunningInBlacklistedRange
      else Inr ())"

definition is_bootrom :: "u32 \<Rightarrow> bool" where
  "is_bootrom pc \<longleftrightarrow> pc < 0x40000000"

section \<open>The image\<close>

text \<open>The symbols of the linker script, as link addresses.\<close>

record image =
  image_start :: u32
  rel_dyn_start :: u32
  rel_dyn_end :: u32
  bss_start :: u32
  bss_end :: u32
  image_end :: u32

definition R_ARM_RELATIVE :: u32 where "R_ARM_RELATIVE = 23"

record Elf32_Rel =
  r_offset :: u32
  r_info :: u32

definition read_rel :: "mem \<Rightarrow> u32 \<Rightarrow> Elf32_Rel" where
  "read_rel m a = \<lparr>r_offset = read32_unchecked m a, r_info = read32_unchecked m (a + 4)\<rparr>"

definition apply_rel :: "u32 \<Rightarrow> Elf32_Rel \<Rightarrow> mem \<Rightarrow> mem" where
  "apply_rel runtime_base rel m =
     (if r_info rel AND 0xFF = R_ARM_RELATIVE
      then (let target = runtime_base + r_offset rel
            in write32_unchecked m target (read32_unchecked m target + runtime_base))
      else m)"

partial_function (option) fix_loop :: "u32 \<Rightarrow> u32 \<Rightarrow> u32 \<Rightarrow> mem \<Rightarrow> mem option" where
  "fix_loop runtime_base rel rel_end m =
     (if rel < rel_end
      then fix_loop runtime_base (rel + 8) rel_end (apply_rel runtime_base (read_rel m rel) m)
      else Some m)"

definition fix_got :: "image \<Rightarrow> u32 \<Rightarrow> mem \<Rightarrow> mem option" where
  "fix_got img runtime_base m =
     fix_loop runtime_base (runtime_base + rel_dyn_start img) (runtime_base + rel_dyn_end img) m"

definition write_bytes :: "mem \<Rightarrow> u32 \<Rightarrow> u8 \<Rightarrow> nat \<Rightarrow> mem" where
  "write_bytes m a v n = store_bytes m a (replicate n v)"

definition clear_bss :: "image \<Rightarrow> u32 \<Rightarrow> mem \<Rightarrow> mem" where
  "clear_bss img runtime_base m =
     (let s = runtime_base + bss_start img; e = runtime_base + bss_end img
      in write_bytes m s 0 (unat (e - s)))"

section \<open>The entry point\<close>

text \<open>
  What \<open>app\<close> ends in: a jump to the relocated image, \<open>main\<close> with its stack pointer, or \<open>die\<close>.
  \<open>None\<close> is a relocation loop that does not end.
\<close>

datatype entry = JumpTo u32 mem | RunMain u32 PayloadParams mem | Died

definition copy_and_jump :: "u32 \<Rightarrow> u32 \<Rightarrow> u32 \<Rightarrow> mem \<Rightarrow> entry" where
  "copy_and_jump src addr sz m = JumpTo addr (copy_nonoverlapping m src addr (unat sz))"

text \<open>The image stays: pointers, zeroed statics, and reservations for itself and the stack.\<close>

definition run_in_place :: "image \<Rightarrow> PayloadParams \<Rightarrow> u32 \<Rightarrow> u32 \<times> u32 \<Rightarrow> mem \<Rightarrow> entry option" where
  "run_in_place img params runtime_base own m =
     Option.bind (fix_got img runtime_base m) (\<lambda>m.
       let m = clear_bss img runtime_base m
       in case blacklist_dl params own of
            Inl _ \<Rightarrow> Some Died
          | Inr params \<Rightarrow>
              (case find_unused_range params 0x1000 of
                 None \<Rightarrow> Some Died
               | Some stack_range \<Rightarrow>
                   (case blacklist_dl params stack_range of
                      Inl _ \<Rightarrow> Some Died
                    | Inr params \<Rightarrow> Some (RunMain (snd stack_range AND NOT 7) params m))))"

text \<open>A failed check of the parameters is only printed.\<close>

definition app :: "image \<Rightarrow> PayloadParams \<Rightarrow> u32 \<Rightarrow> mem \<Rightarrow> entry option" where
  "app img params runtime_base m =
     (let sz = image_end img - image_start img
      in case find_unused_range params sz of
           None \<Rightarrow> Some Died
         | Some reloc_range \<Rightarrow>
             let addr = fst reloc_range;
                 overlaps = addr < runtime_base + sz \<and> runtime_base < addr + sz
             in if addr \<noteq> runtime_base \<and> \<not> overlaps
                then Some (copy_and_jump runtime_base addr sz m)
                else run_in_place img params runtime_base
                       (if overlaps then (runtime_base, runtime_base + sz) else (addr, addr + sz)) m)"

section \<open>The two programs\<close>

definition HEAP_SIZE :: u32 where "HEAP_SIZE = 0x100000"

text \<open>
  \<open>main\<close> of \<open>pl.rs\<close> up to the handler: the heap is claimed and given to the allocator; the statics
  are empty. \<open>main\<close> of \<open>brom.rs\<close> has no heap.
\<close>

definition main_pl :: "nat \<Rightarrow> 'p \<Rightarrow> PayloadParams \<Rightarrow> mem \<Rightarrow> 'p device option" where
  "main_pl BUF_SIZE port params m =
     (case find_unused_range params HEAP_SIZE of
        None \<Rightarrow> None
      | Some heap \<Rightarrow>
          let allocator = bump_init bump_empty (fst heap) HEAP_SIZE
          in (case blacklist_dl params heap of
                Inl _ \<Rightarrow> None
              | Inr params \<Rightarrow>
                  Some \<lparr>dv_params = params, dv_proto = protocol_new BUF_SIZE port, dv_preloader = None, dv_lk = None,
                        dv_icept = \<lparr>is_mem = m, is_pool = \<lparr>ip_address = [], ip_trampoline = []\<rparr>,
                                    is_heap = allocator, is_cache = []\<rparr>,
                        dv_addr = 0\<rparr>))"

definition main_brom :: "nat \<Rightarrow> 'p \<Rightarrow> PayloadParams \<Rightarrow> mem \<Rightarrow> 'p device" where
  "main_brom BUF_SIZE port params m =
     \<lparr>dv_params = params, dv_proto = protocol_new BUF_SIZE port, dv_preloader = None, dv_lk = None,
      dv_icept = \<lparr>is_mem = m, is_pool = \<lparr>ip_address = [], ip_trampoline = []\<rparr>, is_heap = bump_empty, is_cache = []\<rparr>,
      dv_addr = 0\<rparr>"

section \<open>Relocation of the pointers\<close>

text \<open>The table as a list, and its entries applied in order.\<close>

definition rel_table :: "mem \<Rightarrow> u32 \<Rightarrow> nat \<Rightarrow> Elf32_Rel list" where
  "rel_table m a n = map (\<lambda>i. read_rel m (a + word_of_nat (8 * i))) [0..<n]"

definition spares_table :: "u32 \<Rightarrow> u32 \<Rightarrow> nat \<Rightarrow> Elf32_Rel list \<Rightarrow> bool" where
  "spares_table base a n rels \<longleftrightarrow>
     (\<forall>r \<in> set rels. r_info r AND 0xFF = R_ARM_RELATIVE \<longrightarrow> apart a (8 * n) (base + r_offset r) 4)"

lemma read_rel_eq:
  "load_bytes m' a 8 = load_bytes m a 8 \<Longrightarrow> read_rel m' a = read_rel m a"
  using ram.load_append [of m a 4 4] ram.load_append [of m' a 4 4]
  by (simp add: read_rel_def read32_unchecked_def append_eq_append_conv)

lemma rel_table_Suc: "rel_table m a (Suc n) = read_rel m a # rel_table m (a + 8) n"
  by (simp add: rel_table_def upt_conv_Cons algebra_simps map_Suc_upt [symmetric] del: upt_Suc)

lemma rel_table_apply:
  assumes "spares_table base a n [r]"
  shows "rel_table (apply_rel base r m) a n = rel_table m a n"
proof -
  have "read_rel (apply_rel base r m) (a + word_of_nat (8 * i)) = read_rel m (a + word_of_nat (8 * i))" if "i < n" for i
  proof (cases "r_info r AND 0xFF = R_ARM_RELATIVE")
    case True
    with assms have "apart a (8 * n) (base + r_offset r) 4" by (simp add: spares_table_def)
    then have "apart (a + word_of_nat (8 * i)) 8 (base + r_offset r) 4"
      using that by (intro apart_part [of a "8 * n" _ 4]) simp_all
    then show ?thesis using True
      by (intro read_rel_eq) (simp add: apply_rel_def Let_def write32_unchecked_def ram.load_store_apart)
  qed (simp add: apply_rel_def)
  then show ?thesis by (simp add: rel_table_def)
qed

lemma spares_table_tail:
  "spares_table base a (Suc n) rels \<Longrightarrow> spares_table base (a + 8) n rels"
  using apart_part [of a "8 * Suc n" _ 4 8 "8 * n" 4] by (auto simp: spares_table_def)

lemma fix_loop_fold:
  "unat a + 8 * n < 2 ^ 32 \<Longrightarrow> spares_table base a n (rel_table m a n) \<Longrightarrow>
   fix_loop base a (a + word_of_nat (8 * n)) m = Some (fold (apply_rel base) (rel_table m a n) m)"
proof (induction n arbitrary: a m)
  case 0
  then show ?case by (subst fix_loop.simps) (simp add: rel_table_def)
next
  case (Suc n)
  let ?m = "apply_rel base (read_rel m a) m"
  have un: "unat (a + word_of_nat (8 * Suc n)) = unat a + 8 * Suc n" "unat (a + 8) = unat a + 8"
    using Suc.prems(1) unat_add_small [of a "8 * Suc n"] unat_add_small [of a 8] by simp_all
  then have lt: "a < a + word_of_nat (8 * Suc n)" by (simp add: word_less_nat_alt)
  have end_eq: "a + word_of_nat (8 * Suc n) = (a + 8) + word_of_nat (8 * n)" by simp
  from Suc.prems(2) have sp: "spares_table base (a + 8) n (read_rel m a # rel_table m (a + 8) n)"
    unfolding rel_table_Suc by (rule spares_table_tail)
  then have t: "rel_table ?m (a + 8) n = rel_table m (a + 8) n"
    by (intro rel_table_apply) (simp add: spares_table_def)
  have "fix_loop base (a + 8) ((a + 8) + word_of_nat (8 * n)) ?m =
      Some (fold (apply_rel base) (rel_table m (a + 8) n) ?m)"
    using Suc.IH [of "a + 8" ?m] Suc.prems(1) sp un(2) by (simp add: t spares_table_def)
  with lt [unfolded end_eq] show ?case
    unfolding end_eq rel_table_Suc by (subst fix_loop.simps) simp
qed

text \<open>The addresses a table relocates, and what applying it does to the words and bytes of memory.\<close>

definition targets :: "u32 \<Rightarrow> Elf32_Rel list \<Rightarrow> u32 list" where
  "targets base rels = map (\<lambda>r. base + r_offset r) (filter (\<lambda>r. r_info r AND 0xFF = 23) rels)"

lemma targets_Nil [simp]: "targets base [] = []"
  by (simp add: targets_def)

lemma targets_Cons:
  "targets base (r # rels) = (if r_info r AND 0xFF = 23 then [base + r_offset r] else []) @ targets base rels"
  by (simp add: targets_def)

lemma apply_rel_bytes:
  "\<forall>t \<in> set (targets base [r]). apart a k t 4 \<Longrightarrow> load_bytes (apply_rel base r m) a k = load_bytes m a k"
  by (auto simp: targets_def apply_rel_def R_ARM_RELATIVE_def Let_def write32_unchecked_def ram.load_store_apart)

lemma fold_rel_bytes:
  "\<forall>t \<in> set (targets base rels). apart a k t 4 \<Longrightarrow> load_bytes (fold (apply_rel base) rels m) a k = load_bytes m a k"
proof (induction rels arbitrary: m)
  case (Cons r rels)
  then show ?case using apply_rel_bytes [of base r a k m] by (simp add: targets_def split: if_splits)
qed simp

lemma fold_rel_word:
  "\<forall>t \<in> set (targets base rels). t = a \<or> apart a 4 t 4 \<Longrightarrow>
   read32_unchecked (fold (apply_rel base) rels m) a = read32_unchecked m a + word_of_nat (count_list (targets base rels) a) * base"
proof (induction rels arbitrary: m)
  case (Cons r rels)
  have "read32_unchecked (apply_rel base r m) a = read32_unchecked m a + word_of_nat (count_list (targets base [r]) a) * base"
  proof (cases "r_info r AND 0xFF = 23 \<and> base + r_offset r = a")
    case True
    then show ?thesis by (simp add: targets_def apply_rel_def R_ARM_RELATIVE_def Let_def)
  next
    case False
    with Cons.prems have "\<forall>t \<in> set (targets base [r]). apart a 4 t 4" by (auto simp: targets_def)
    from apply_rel_bytes [OF this, of m] False show ?thesis by (auto simp: read32_unchecked_def targets_def)
  qed
  moreover have "\<forall>t \<in> set (targets base rels). t = a \<or> apart a 4 t 4" using Cons.prems by (simp add: targets_Cons)
  ultimately show ?case using Cons.IH [of "apply_rel base r m"] by (simp add: targets_Cons [of base r rels] targets_Cons [of base r "[]"] algebra_simps)
qed simp

section \<open>Reservations\<close>

lemma run_in_place_cases:
  assumes "run_in_place img params base own m = Some r"
  obtains (died) "r = Died"
  | (main) p1 stack q where "blacklist_dl params own = Inr p1"
    and "claim find_unused_range blacklist_dl p1 0x1000 = Some (stack, q)"
    and "\<exists>m'. r = RunMain (snd stack AND NOT 7) q m'"
proof -
  from assms obtain m0 where m0: "fix_got img base m = Some m0" by (auto simp: run_in_place_def bind_eq_Some_conv)
  show ?thesis
  proof (cases "\<exists>p1 stack q. blacklist_dl params own = Inr p1 \<and> find_unused_range p1 0x1000 = Some stack \<and>
      blacklist_dl p1 stack = Inr q")
    case True
    then obtain p1 stack q where "blacklist_dl params own = Inr p1" "find_unused_range p1 0x1000 = Some stack"
      "blacklist_dl p1 stack = Inr q" by blast
    with assms m0 show ?thesis by (intro main) (auto simp: run_in_place_def claim_def)
  next
    case False
    with assms m0 show ?thesis
      by (intro died) (auto simp: run_in_place_def split: sum.splits option.splits)
  qed
qed

lemma app_cases:
  assumes "app img params base m = Some r"
  obtains (died) "r = Died"
  | (jump) addr e where "find_unused_range params (image_end img - image_start img) = Some (addr, e)"
    and "addr \<noteq> base" and "r = copy_and_jump base addr (image_end img - image_start img) m"
  | (stay) own where "run_in_place img params base own m = Some r"
    and "own = (base, base + (image_end img - image_start img))"
proof (cases "find_unused_range params (image_end img - image_start img)")
  case None
  with assms died show ?thesis by (simp add: app_def)
next
  case (Some range)
  obtain addr e where r: "range = (addr, e)" by (rule prod.exhaust)
  show ?thesis
  proof (cases "addr \<noteq> base \<and> \<not> (addr < base + (image_end img - image_start img) \<and>
      base < addr + (image_end img - image_start img))")
    case True
    with assms Some r show ?thesis by (intro jump) (auto simp: app_def Let_def)
  next
    case False
    with assms Some r show ?thesis by (intro stay) (auto simp: app_def Let_def split: if_splits)
  qed
qed

lemma main_pl_claim:
  assumes "main_pl n port q m = Some d"
  shows "\<exists>heap q'. claim find_unused_range blacklist_dl q HEAP_SIZE = Some (heap, q') \<and> dv_params d = q' \<and>
    is_heap (dv_icept d) = bump_new (fst heap) HEAP_SIZE"
  using assms
  by (auto simp: main_pl_def claim_def bump_init_def bump_new_def Let_def split: option.splits sum.splits)

lemma allocs_in_region:
  assumes "ptr \<noteq> 0" and "unat ptr + unat sz < 2 ^ 32" and "\<forall>l \<in> set ls. valid_layout l"
    and "allocs alloc (bump_new ptr sz) ls = (bs, t)"
  shows "disjoint_list bs \<and> (\<forall>b \<in> set bs. b \<subseteq> {unat ptr..<unat ptr + unat sz})"
proof -
  note d = heap.allocs_disjoint [OF bump_inv_new [OF assms(1,2)] assms(3,4)]
  then have "bump_inv (unat ptr + unat sz) t" by simp
  then have "bump_used t \<subseteq> {..<unat ptr + unat sz}"
    by (auto simp: bump_inv_def bump_used_def split: option.splits)
  moreover have "bump_used (bump_new ptr sz) = {..<unat ptr}" by (simp add: bump_used_def bump_new_def)
  ultimately have "b \<subseteq> {unat ptr..<unat ptr + unat sz}" if "b \<in> set bs" for b
    using d that by fastforce
  with d show ?thesis by blast
qed

text \<open>An image of one page with one relocation entry, or none.\<close>

definition sample_image :: "nat \<Rightarrow> image" where
  "sample_image n = \<lparr>image_start = 0, rel_dyn_start = 0x100, rel_dyn_end = 0x100 + word_of_nat (8 * n),
     bss_start = 0x200, bss_end = 0x200, image_end = 0x1000\<rparr>"

lemmas setup_eval = app_def run_in_place_def fix_got_def sample_image_def copy_and_jump_def main_pl_def
  clear_bss_def write_bytes_def HEAP_SIZE_def blacklist_dl_def blacklist_with_def find_free_range_def Let_def

text \<open>What the payload has claimed when it reaches the handler.\<close>

lemma app_claims:
  assumes "app img params base m = Some (RunMain sp q m1)"
  obtains p1 stack where "blacklist_dl params (base, base + (image_end img - image_start img)) = Inr p1"
    and "claim find_unused_range blacklist_dl p1 0x1000 = Some (stack, q)" and "sp = snd stack AND NOT 7"
proof -
  define own where "own = (base, base + (image_end img - image_start img))"
  have "run_in_place img params base own m = Some (RunMain sp q m1)"
    using assms by (rule app_cases) (auto simp: copy_and_jump_def own_def)
  then obtain p1 stack where "blacklist_dl params own = Inr p1"
    and "claim find_unused_range blacklist_dl p1 0x1000 = Some (stack, q)" and "sp = snd stack AND NOT 7"
    by (rule run_in_place_cases) auto
  then show thesis by (auto intro: that simp: own_def)
qed

lemma started_claims:
  assumes "app img params base m = Some (RunMain sp q m1)" and "main_pl n port q m1 = Some d"
  obtains p1 stack heap where "blacklist_dl params (base, base + (image_end img - image_start img)) = Inr p1"
    and "claim find_unused_range blacklist_dl p1 0x1000 = Some (stack, q)" and "sp = snd stack AND NOT 7"
    and "claim find_unused_range blacklist_dl q HEAP_SIZE = Some (heap, dv_params d)"
    and "is_heap (dv_icept d) = bump_new (fst heap) HEAP_SIZE"
  using app_claims [OF assms(1)] main_pl_claim [OF assms(2)] by metis

lemma blacklist_dl_effect:
  assumes "blacklist_dl p r = Inr q"
  shows "reserved q = insert r (reserved p)" and "pp_memory q = pp_memory p" and "free_slots p = Suc (free_slots q)"
  using assms free_slots_blacklist_with [of ForbiddenDL p r]
  by (simp_all add: blacklist_dl_def reserved_blacklist_with blacklist_with_frame)

lemma claim_blacklist:
  assumes "claim find_unused_range blacklist_dl p n = Some (r, q)"
  shows "reserved q = insert r (reserved p)" and "pp_memory q = pp_memory p" and "free_slots p = Suc (free_slots q)"
  using assms by (auto elim!: dl.claim_cases simp: blacklist_dl_effect)

lemma started_params:
  assumes "app img params base m = Some (RunMain sp q m1)" and "main_pl n port q m1 = Some d"
  shows "insert (base, base + (image_end img - image_start img)) (reserved params) \<subseteq> reserved (dv_params d) \<and>
    pp_memory (dv_params d) = pp_memory params \<and> free_slots params = free_slots (dv_params d) + 3"
  using assms by (rule started_claims) (auto simp: claim_blacklist blacklist_dl_effect)

text \<open>A payload of the sample image that starts in place.\<close>

lemma sample_started:
  obtains q m1 d where "app (sample_image 0) sample_params 0x80001008 (\<lambda>_. 0) = Some (RunMain 0x80003008 q m1)"
    and "main_pl 24 \<lparr>q_in = [], q_out = []\<rparr> q m1 = Some (d :: queues device)"
proof -
  have f: "fix_loop b a a m = Some m" for a b m by (subst fix_loop.simps) simp
  obtain q m1 where a: "app (sample_image 0) sample_params 0x80001008 (\<lambda>_. 0) = Some (RunMain 0x80003008 q m1)"
    and q: "q = (case claims find_unused_range blacklist_dl (projr (blacklist_dl sample_params (0x80001008, 0x80002008))) [0x1000] of Some (_, q) \<Rightarrow> q)"
    by (simp add: setup_eval f sample_params_def params_eval claim_def)
  obtain d :: "queues device" where "main_pl 24 \<lparr>q_in = [], q_out = []\<rparr> q m1 = Some d"
    by (simp add: q setup_eval sample_params_def params_eval claim_def)
  with a show thesis by (rule that)
qed

section \<open>Properties\<close>

text \<open>C14: Relocating the pointers visits the whole table and ends. For a table of whole entries below the top
  of memory that no relocation target touches, every word gains the runtime base once for each entry of type
  \<open>R_ARM_RELATIVE\<close> (23) that names it, modulo the word size, and so stays as it is when there is none; no byte outside the words
  named by such entries changes, whatever entries of other types there are. Targets may repeat but not overlap in part.\<close>

theorem fix_got_applies_table:
  assumes "rel_dyn_end img = rel_dyn_start img + word_of_nat (8 * n)"
    and "unat (base + rel_dyn_start img) + 8 * n < 2 ^ 32"
    and "spares_table base (base + rel_dyn_start img) n (rel_table m (base + rel_dyn_start img) n)"
  defines "ts \<equiv> map (\<lambda>r. base + r_offset r) (filter (\<lambda>r. r_info r AND 0xFF = 23) (rel_table m (base + rel_dyn_start img) n))"
  shows "\<exists>m'. fix_got img base m = Some m' \<and>
    (\<forall>a. (\<forall>t \<in> set ts. t = a \<or> apart a 4 t 4) \<longrightarrow>
      read32_unchecked m' a = read32_unchecked m a + word_of_nat (count_list ts a) * base) \<and>
    (\<forall>a k. (\<forall>t \<in> set ts. apart a k t 4) \<longrightarrow> load_bytes m' a k = load_bytes m a k)"
proof -
  let ?rels = "rel_table m (base + rel_dyn_start img) n"
  have ts: "ts = targets base ?rels" by (simp add: ts_def targets_def)
  have "fix_got img base m = Some (fold (apply_rel base) ?rels m)"
    using fix_loop_fold [OF assms(2,3)] by (simp add: fix_got_def assms(1) add.assoc)
  with fold_rel_word [of base ?rels] fold_rel_bytes [of base ?rels] show ?thesis unfolding ts by blast
qed

text \<open>A table of two entries, the second of another type.\<close>

lemma fix_got_applies_table_witness:
  "\<exists>m m'. m = store_bytes (store_bytes (\<lambda>_. 0) 0x80000100 (le32 0x40 @ le32 23 @ le32 0x50 @ le32 2)) 0x80000040 (le32 0x200) \<and>
     fix_got (sample_image 2) 0x80000000 m = Some m' \<and>
     read32_unchecked m' 0x80000040 = 0x80000200 \<and> load_bytes m' 0x80000050 4 = load_bytes m 0x80000050 4"
proof -
  define m where "m = store_bytes (store_bytes (\<lambda>_. 0) 0x80000100 (le32 0x40 @ le32 23 @ le32 0x50 @ le32 2)) 0x80000040 (le32 0x200)"
  have t: "rel_table m (0x80000000 + rel_dyn_start (sample_image 2)) 2 = [\<lparr>r_offset = 0x40, r_info = 23\<rparr>, \<lparr>r_offset = 0x50, r_info = 2\<rparr>]"
    by (simp add: rel_table_def read_rel_def read32_unchecked_def load_bytes_def upt_rec m_def sample_image_def
      store_bytes_apply le32_def of_le32_def)
  have z: "read32_unchecked m 0x80000040 = 0x200"
    by (simp add: read32_unchecked_def load_bytes_def upt_rec m_def store_bytes_apply of_le32_def le32_def)
  have "apart (0x80000000 + 0x100) 16 (0x80000000 + 0x40) 4" "apart 0x80000050 4 0x80000040 4" by (rule apart_above; simp)+
  note apart = this
  have "spares_table 0x80000000 (0x80000000 + rel_dyn_start (sample_image 2)) 2
      (rel_table m (0x80000000 + rel_dyn_start (sample_image 2)) 2)"
    unfolding t using apart(1) by (simp add: spares_table_def sample_image_def R_ARM_RELATIVE_def)
  from fix_got_applies_table [OF _ _ this] obtain m' where m': "fix_got (sample_image 2) 0x80000000 m = Some m'"
    "\<forall>a. a = 0x80000040 \<or> apart a 4 0x80000040 4 \<longrightarrow>
      read32_unchecked m' a = read32_unchecked m a + word_of_nat (count_list [0x80000040] a) * 0x80000000"
    "\<forall>a k. apart a k 0x80000040 4 \<longrightarrow> load_bytes m' a k = load_bytes m a k"
    unfolding t by (auto simp: sample_image_def)
  from m'(2) z have "read32_unchecked m' 0x80000040 = 0x80000200" by simp
  with m'(1,3) apart(2) show ?thesis unfolding m_def by blast
qed

text \<open>C12: The image moves at most once. If the entry point relocates the image, the new place
  is the start of an unused range, the copy is the image, and the entry point run there with the same
  parameters does not move it again, whatever the rest of memory holds.\<close>

theorem relocates_at_most_once:
  assumes "app img params base m = Some (JumpTo addr m')"
  defines "sz \<equiv> unat (image_end img - image_start img)"
  shows "load_bytes m' addr sz = load_bytes m base sz \<and>
    (\<exists>e. find_unused_range params (image_end img - image_start img) = Some (addr, e)) \<and>
    (\<forall>m'' a m3. app img params addr m'' \<noteq> Some (JumpTo a m3))"
proof -
  have never: "run_in_place img params b own k \<noteq> Some (JumpTo a l)" for b own k a l
    by (auto elim: run_in_place_cases)
  from assms(1) obtain e where f: "find_unused_range params (image_end img - image_start img) = Some (addr, e)"
    and m': "m' = copy_nonoverlapping m base addr sz"
    by (rule app_cases) (use never in \<open>auto simp: copy_and_jump_def sz_def\<close>)
  have "load_bytes m' addr sz = load_bytes m base sz"
    using ram.load_store_same [of "load_bytes m base sz" m addr]
    by (simp add: m' copy_nonoverlapping_def sz_def less_imp_le)
  moreover have "app img params addr m'' \<noteq> Some (JumpTo a m3)" for m'' a m3
    using f never by (auto simp: copy_and_jump_def elim: app_cases)
  ultimately show ?thesis using f by blast
qed

lemma relocates_at_most_once_witness:
  "\<exists>m'. app (sample_image 0) sample_params 0x40000000 (\<lambda>_. 7) = Some (JumpTo 0x80001008 m') \<and>
     load_bytes m' 0x80001008 0x1000 = load_bytes (\<lambda>_. 7) 0x40000000 0x1000"
proof -
  obtain m' where a: "app (sample_image 0) sample_params 0x40000000 (\<lambda>_. 7) = Some (JumpTo 0x80001008 m')"
    using find_sample by (simp add: setup_eval)
  from relocates_at_most_once [OF a] a show ?thesis by (auto simp: sample_image_def)
qed



end
