(* ===== verification/Session.thy ===== *)
theory Session
  imports HostExt LkArg Commands Setup
begin

text \<open>
  A boot session as the host drives it: \<open>boot/rpc/selector.rs\<close>, \<open>boot/bootrom.rs\<close>,
  \<open>boot/preloader.rs\<close> and the functions of \<open>main.rs\<close> behind the command line. A host function takes
  the port or the protocol over it and returns a result with the port afterwards; the ports the
  host opens one after the other are a list, made from the listings it polls. What is not under \<open>src\<close> is an argument: the serial
  port, the analysis of the binaries, \<open>mkbootimg\<close>, the payload files and the memory maps of \<open>acon\<close>.
\<close>

section \<open>State\<close>

datatype BootMode = BootROM | BootPreloader | BootLK | REPL
datatype DeviceMode = DevBrom | DevPreloader

text \<open>\<open>UploadFile\<close>: address and content.\<close>

type_synonym upload_file = "u32 \<times> u8 list"

record host_state =
  st_soc :: SoC
  st_mode :: BootMode
  st_lk_mode :: LkBootMode
  st_dram_size_per_rank :: u32
  st_dram_ranks :: u32
  st_upload :: "upload_file list"
  st_preloader :: upload_file
  st_lk :: "upload_file option"
  st_kernel :: "u8 list option"
  st_ramdisk :: "u8 list option"
  st_jump_addr :: u32
  st_params :: PayloadParams

datatype boot_err =
    ErrProtocol wire_err
  | ErrUpload host_err
  | ErrStart host_err
  | ErrCmd cmd_err
  | ErrPreloaderParams
  | ErrBlacklist u32
  | ErrBlacklistBootImg
  | ErrFreeRange u32
  | ErrSoC
  | ErrMkbootimg
  | ErrNoInput
  | ErrNoLK
  | ErrExtract string
  | ErrLkParams
  | ErrHook
  | ErrJump
  | ErrNoBinary
  | ErrNoPayload
  | ErrNoMagic
  | ErrNotCrashed
  | ErrSerial
  | ErrPanic

text \<open>What the analysis of preloader and LK yields, and the other outside functions.\<close>

record analysis =
  an_dlul :: "(u32 \<times> u32) option"
  an_bldr_jump :: "(u32 \<times> u32) option"
  an_generic_read :: "u32 option"
  an_get_partition :: "u32 option"
  an_get_part :: "u32 option"

record outside =
  ot_analysis :: analysis
  ot_mkbootimg :: "u8 list \<Rightarrow> u8 list \<Rightarrow> u8 list option"
  ot_brom_payload :: "u8 list option"
  ot_pl_payload :: "u8 list option"
  ot_find :: "u8 list \<Rightarrow> u8 list \<Rightarrow> nat option"
  ot_soc_bytes :: "SoC \<Rightarrow> u8 list"
  ot_soc_of_hwcode :: "u32 \<Rightarrow> SoC option"
  ot_l2_sram :: "SoC \<Rightarrow> u32 \<times> u32"
  ot_dram_start :: "SoC \<Rightarrow> u32"

text \<open>The payload files: read at run time, or built into the host with the feature \<open>static\<close>, which
  includes the preloader payload for both.\<close>

definition brom_payload :: "bool \<Rightarrow> u8 list \<Rightarrow> (string \<Rightarrow> u8 list option) \<Rightarrow> u8 list option" where
  "brom_payload static_feature included_pl read =
     (if static_feature then Some included_pl else read ''target/armv7a-none-eabi/nostd/brom'')"

definition pl_payload :: "bool \<Rightarrow> u8 list \<Rightarrow> (string \<Rightarrow> u8 list option) \<Rightarrow> u8 list option" where
  "pl_payload static_feature included_pl read =
     (if static_feature then Some included_pl else read ''target/armv7a-none-eabi/nostd/pl'')"

section \<open>Results and steps\<close>

definition returnS :: "'a \<Rightarrow> 's \<Rightarrow> ('e + 'a) \<times> 's" where
  "returnS a s = (Inr a, s)"

definition failS :: "'e \<Rightarrow> 's \<Rightarrow> ('e + 'a) \<times> 's" where
  "failS e s = (Inl e, s)"

definition bindS :: "('s \<Rightarrow> ('e + 'a) \<times> 's) \<Rightarrow> ('a \<Rightarrow> 's \<Rightarrow> ('e + 'b) \<times> 's) \<Rightarrow> 's \<Rightarrow> ('e + 'b) \<times> 's" where
  "bindS m f s = (case m s of (Inl e, s') \<Rightarrow> (Inl e, s') | (Inr a, s') \<Rightarrow> f a s')"

definition liftE :: "('e \<Rightarrow> 'f) \<Rightarrow> ('s \<Rightarrow> ('e + 'a) \<times> 's) \<Rightarrow> 's \<Rightarrow> ('f + 'a) \<times> 's" where
  "liftE h m s = (case m s of (Inl e, s') \<Rightarrow> (Inl (h e), s') | (Inr a, s') \<Rightarrow> (Inr a, s'))"

definition some_or :: "'e \<Rightarrow> 'a option \<Rightarrow> 's \<Rightarrow> ('e + 'a) \<times> 's" where
  "some_or e x = (case x of None \<Rightarrow> failS e | Some a \<Rightarrow> returnS a)"

section \<open>Requests\<close>

definition send :: "'p port_ops \<Rightarrow> codecs \<Rightarrow> Message \<Rightarrow> 'p protocol \<Rightarrow> (boot_err + unit) \<times> 'p protocol" where
  "send ops cs m = liftE ErrProtocol (\<lambda>p. send_message ops cs p m)"

definition receive :: "'p port_ops \<Rightarrow> codecs \<Rightarrow> 'p protocol \<Rightarrow> (boot_err + Response) \<times> 'p protocol" where
  "receive ops cs = liftE ErrProtocol (read_response ops cs)"

text \<open>Two ways of reading the answer: \<open>is_ok_and\<close> on it, and \<open>?\<close>.\<close>

definition receive_ok :: "'p port_ops \<Rightarrow> codecs \<Rightarrow> 'p protocol \<Rightarrow> (boot_err + Response option) \<times> 'p protocol" where
  "receive_ok ops cs p =
     (case read_response ops cs p of (Inr r, p) \<Rightarrow> (Inr (Some r), p) | (Inl _, p) \<Rightarrow> (Inr None, p))"

definition send_acked :: "'p port_ops \<Rightarrow> codecs \<Rightarrow> boot_err \<Rightarrow> Message \<Rightarrow> 'p protocol \<Rightarrow> (boot_err + unit) \<times> 'p protocol" where
  "send_acked ops cs e m =
     bindS (send ops cs m) (\<lambda>_. bindS (receive_ok ops cs)
       (\<lambda>r. if r = Some RAck then returnS () else failS e))"

definition free_range :: "'p port_ops \<Rightarrow> codecs \<Rightarrow> u32 \<Rightarrow> 'p protocol \<Rightarrow> (boot_err + u32) \<times> 'p protocol" where
  "free_range ops cs sz =
     bindS (send ops cs (MGetFreeRange sz)) (\<lambda>_. bindS (receive ops cs)
       (\<lambda>r. case r of RRange (Some start) \<Rightarrow> returnS start | _ \<Rightarrow> failS (ErrFreeRange sz)))"

definition send_jump :: "'p port_ops \<Rightarrow> codecs \<Rightarrow> u32 \<Rightarrow> u32 option \<Rightarrow> u32 option \<Rightarrow> 'p protocol \<Rightarrow>
    (boot_err + unit) \<times> 'p protocol" where
  "send_jump ops cs addr r0 r1 =
     bindS (send ops cs (MJump addr r0 r1)) (\<lambda>_. bindS (receive_ok ops cs)
       (\<lambda>r. case r of Some (RNack _) \<Rightarrow> failS ErrJump | _ \<Rightarrow> returnS ()))"

definition upload_to :: "'p port_ops \<Rightarrow> codecs \<Rightarrow> u32 \<Rightarrow> u8 list \<Rightarrow> 'p protocol \<Rightarrow> (boot_err + unit) \<times> 'p protocol" where
  "upload_to ops cs addr data = liftE ErrUpload (upload ops cs addr data)"

definition blacklist :: "'p port_ops \<Rightarrow> codecs \<Rightarrow> boot_err \<Rightarrow> u32 \<Rightarrow> u32 \<Rightarrow> 'p protocol \<Rightarrow> (boot_err + unit) \<times> 'p protocol" where
  "blacklist ops cs e addr len = send_acked ops cs e (MBlacklistRange (addr, addr + len + 1))"

definition upload_image :: "'p port_ops \<Rightarrow> codecs \<Rightarrow> upload_file \<Rightarrow> 'p protocol \<Rightarrow> (boot_err + unit) \<times> 'p protocol" where
  "upload_image ops cs f =
     bindS (upload_to ops cs (fst f) (snd f))
       (\<lambda>_. blacklist ops cs (ErrBlacklist (fst f)) (fst f) (word_of_nat (length (snd f))))"

fun upload_images :: "'p port_ops \<Rightarrow> codecs \<Rightarrow> upload_file list \<Rightarrow> 'p protocol \<Rightarrow> (boot_err + unit) \<times> 'p protocol" where
  "upload_images ops cs [] = returnS ()"
| "upload_images ops cs (f # fs) = bindS (upload_image ops cs f) (\<lambda>_. upload_images ops cs fs)"

section \<open>The session over the payload\<close>

text \<open>LK, its reservation, and the boot argument at a free range, which is reserved too.\<close>

definition upload_lk :: "'p port_ops \<Rightarrow> codecs \<Rightarrow> host_state \<Rightarrow> 'p protocol \<Rightarrow> (boot_err + u32 \<times> u32) \<times> 'p protocol" where
  "upload_lk ops cs st =
     (case st_lk st of
        None \<Rightarrow> returnS (0, 0)
      | Some lk \<Rightarrow>
          bindS (upload_image ops cs lk) (\<lambda>_.
          bindS (some_or ErrPanic (get_for_soc (st_soc st) (st_lk_mode st) (st_dram_size_per_rank st) (st_dram_ranks st)))
          (\<lambda>bootarg.
            let bytes = as_bytes bootarg; bootarg_size = word_of_nat (length bytes)
            in bindS (free_range ops cs bootarg_size) (\<lambda>start.
               bindS (blacklist ops cs (ErrBlacklist (fst lk)) start bootarg_size) (\<lambda>_.
               bindS (upload_to ops cs start bytes) (\<lambda>_. returnS (start, bootarg_size)))))))"

text \<open>The boot image of the LK mode: built from the kernel, or the first image uploaded.\<close>

definition boot_image :: "outside \<Rightarrow> 'p port_ops \<Rightarrow> codecs \<Rightarrow> host_state \<Rightarrow> 'p protocol \<Rightarrow> (boot_err + u32) \<times> 'p protocol" where
  "boot_image ot ops cs st =
     (case st_kernel st of
        Some zimage \<Rightarrow>
          bindS (some_or ErrMkbootimg (ot_mkbootimg ot zimage
            (case st_ramdisk st of Some ramdisk \<Rightarrow> ramdisk | None \<Rightarrow> replicate 1024 0)))
          (\<lambda>boot_img.
            let sz = word_of_nat (length boot_img)
            in bindS (free_range ops cs sz) (\<lambda>start.
               bindS (upload_to ops cs start boot_img) (\<lambda>_.
               bindS (blacklist ops cs ErrBlacklistBootImg start sz) (\<lambda>_. returnS start))))
      | None \<Rightarrow> some_or ErrNoInput (case st_upload st of [] \<Rightarrow> None | f # _ \<Rightarrow> Some (fst f)))"

definition get_partition_ptr :: "analysis \<Rightarrow> SoC \<Rightarrow> boot_err + u32" where
  "get_partition_ptr an soc =
     (case soc of
        MT6572 \<Rightarrow> (case an_get_partition an of None \<Rightarrow> Inl (ErrExtract ''mt_part_get_partition'') | Some v \<Rightarrow> Inr v)
      | MT6582 \<Rightarrow> (case an_get_partition an of None \<Rightarrow> Inl (ErrExtract ''mt_part_get_partition'') | Some v \<Rightarrow> Inr v)
      | MT6595 \<Rightarrow> (case an_get_part an of None \<Rightarrow> Inl (ErrExtract ''get_part'') | Some v \<Rightarrow> Inr v)
      | OtherSoC _ \<Rightarrow> Inl ErrPanic)"

definition lk_hooks :: "outside \<Rightarrow> 'p port_ops \<Rightarrow> codecs \<Rightarrow> host_state \<Rightarrow> u32 \<Rightarrow> 'p protocol \<Rightarrow> (boot_err + unit) \<times> 'p protocol" where
  "lk_hooks ot ops cs st start =
     bindS (some_or (ErrExtract ''mt_part_generic_read'') (an_generic_read (ot_analysis ot))) (\<lambda>generic_read.
     (case get_partition_ptr (ot_analysis ot) (st_soc st) of
        Inl e \<Rightarrow> failS e
      | Inr get_partition \<Rightarrow>
          bindS (send_acked ops cs ErrLkParams
            (MSetParams (ParamsLK (lk_params_new (generic_read OR 1) (get_partition OR 1) start)))) (\<lambda>_.
          bindS (send ops cs (MHook MtPartGenericRead)) (\<lambda>_.
          bindS (receive ops cs) (\<lambda>r. if response_is_ack r then returnS () else failS ErrHook)))))"

text \<open>The \<open>match\<close> over the mode: the address to jump to, or the \<open>REPL\<close>.\<close>

definition select_jump :: "outside \<Rightarrow> 'p port_ops \<Rightarrow> codecs \<Rightarrow> host_state \<Rightarrow> 'p protocol \<Rightarrow>
    (boot_err + u32 option) \<times> 'p protocol" where
  "select_jump ot ops cs st =
     (case st_mode st of
        BootROM \<Rightarrow> returnS (Some (st_jump_addr st))
      | BootPreloader \<Rightarrow> returnS (Some (case st_lk st of Some lk \<Rightarrow> fst lk | None \<Rightarrow> st_jump_addr st))
      | BootLK \<Rightarrow>
          (case st_lk st of
             None \<Rightarrow> failS ErrPanic
           | Some lk \<Rightarrow>
               bindS (boot_image ot ops cs st) (\<lambda>start.
               bindS (lk_hooks ot ops cs st start) (\<lambda>_. returnS (Some (fst lk)))))
      | REPL \<Rightarrow> returnS None)"

definition rpc_session :: "outside \<Rightarrow> 'p port_ops \<Rightarrow> codecs \<Rightarrow> ('p protocol \<Rightarrow> (boot_err + unit) \<times> 'p protocol) \<Rightarrow>
    host_state \<Rightarrow> u32 \<Rightarrow> 'p protocol \<Rightarrow> (boot_err + unit) \<times> 'p protocol" where
  "rpc_session ot ops cs run_repl st bldr_jump =
     bindS (send_acked ops cs ErrPreloaderParams (MSetParams (ParamsPreloader \<lparr>ptr_bldr_jump = bldr_jump\<rparr>))) (\<lambda>_.
     bindS (upload_images ops cs (st_upload st)) (\<lambda>_.
     bindS (upload_lk ops cs st) (\<lambda>(bootarg_base, bootarg_size).
     bindS (select_jump ot ops cs st) (\<lambda>jump.
       case jump of
         None \<Rightarrow> run_repl
       | Some addr \<Rightarrow> send_jump ops cs addr (Some bootarg_base) (Some bootarg_size)))))"

text \<open>The boot ROM: images and reservations, or the preloader and a jump to it.\<close>

definition brom_images :: "'p port_ops \<Rightarrow> codecs \<Rightarrow> host_state \<Rightarrow> 'p protocol \<Rightarrow> (boot_err + unit) \<times> 'p protocol" where
  "brom_images ops cs st = (if st_upload st = [] then failS ErrNoBinary else upload_images ops cs (st_upload st))"

definition brom_preloader :: "'p port_ops \<Rightarrow> codecs \<Rightarrow> host_state \<Rightarrow> 'p protocol \<Rightarrow> (boot_err + unit) \<times> 'p protocol" where
  "brom_preloader ops cs st =
     bindS (upload_to ops cs (fst (st_preloader st)) (snd (st_preloader st)))
       (\<lambda>_. send_jump ops cs (fst (st_preloader st)) None None)"

section \<open>Parameters of the payload\<close>

definition blacklist_mode_u32 :: "BlacklistMode \<Rightarrow> u32" where
  "blacklist_mode_u32 m = (case m of ModeNone \<Rightarrow> 0 | ForbiddenReloc \<Rightarrow> 1 | ForbiddenDL \<Rightarrow> 2)"

definition blacklist_range_bytes :: "BlacklistRange \<Rightarrow> u8 list" where
  "blacklist_range_bytes b =
     le32 (mr_start (bl_range b)) @ le32 (mr_end (bl_range b)) @ le32 (blacklist_mode_u32 (bl_mode b))"

text \<open>\<open>give_me_bytes_please\<close> of the parameters: words only, so \<open>repr(C)\<close> has no padding. The bytes of
  the chip are those of its type in \<open>acon\<close>.\<close>

definition params_bytes :: "(SoC \<Rightarrow> u8 list) \<Rightarrow> PayloadParams \<Rightarrow> u8 list" where
  "params_bytes soc_bytes p =
     le32 (pp_magic p) @ le32 (pp_version p) @ le32 (mr_start (pp_memory p)) @ le32 (mr_end (pp_memory p)) @
     concat (map blacklist_range_bytes (pp_blacklist p)) @ le32 (pp_ptr_dl p) @ le32 (pp_ptr_ul p) @
     soc_bytes (pp_soc p)"

definition inject_params :: "outside \<Rightarrow> PayloadParams \<Rightarrow> u8 list \<Rightarrow> boot_err + u8 list" where
  "inject_params ot params payload =
     (case ot_find ot payload (le32 MAGIC) of
        None \<Rightarrow> Inl ErrNoMagic
      | Some start \<Rightarrow>
          let new = params_bytes (ot_soc_bytes ot) params
          in if length payload < start + length new then Inl ErrPanic
             else Inr (take start payload @ new @ drop (start + length new) payload))"

section \<open>Ports\<close>

text \<open>
  The serial port: its byte operations, \<open>flush\<close>, \<open>clear\<close>, and a \<open>read\<close> that takes what is there.
  A result of \<open>None\<close> is a host that waits or synchronises for ever.
\<close>

record 'p serial =
  se_ops :: "'p port_ops"
  se_flush :: "'p \<Rightarrow> bool \<times> 'p"
  se_clear :: "'p \<Rightarrow> bool \<times> 'p"
  se_read_some :: "'p \<Rightarrow> nat \<Rightarrow> bool \<times> 'p"

type_synonym ('p, 'a) host = "((boot_err + 'a) \<times> 'p) option"

definition sync_step :: "'p serial \<Rightarrow> 'p \<Rightarrow> (boot_err + bool) \<times> 'p" where
  "sync_step se p =
     (case op_write (se_ops se) p [0xa0] of
        (False, p) \<Rightarrow> (Inl ErrSerial, p)
      | (True, p) \<Rightarrow>
          (case se_flush se p of
             (False, p) \<Rightarrow> (Inl ErrSerial, p)
           | (True, p) \<Rightarrow>
               (case op_read (se_ops se) p 1 of
                  (None, p) \<Rightarrow> (Inl ErrSerial, p)
                | (Some bs, p) \<Rightarrow> (Inr (bs = [0x5f]), p))))"

partial_function (option) sync_loop :: "'p serial \<Rightarrow> 'p \<Rightarrow> ('p, unit) host" where
  "sync_loop se p =
     (case sync_step se p of
        (r, p) \<Rightarrow>
          (case r of
             Inl e \<Rightarrow> Some (Inl e, p)
           | Inr synced \<Rightarrow> if synced then Some (Inr (), p) else sync_loop se p))"

fun write_all_bytes :: "'p serial \<Rightarrow> u8 list \<Rightarrow> 'p \<Rightarrow> (boot_err + unit) \<times> 'p" where
  "write_all_bytes se [] p = (Inr (), p)"
| "write_all_bytes se (b # bs) p =
     (case op_write (se_ops se) p [b] of
        (False, p) \<Rightarrow> (Inl ErrSerial, p)
      | (True, p) \<Rightarrow> write_all_bytes se bs p)"

definition host_handshake :: "'p serial \<Rightarrow> 'p \<Rightarrow> ('p, unit) host" where
  "host_handshake se p =
     (case sync_loop se p of
        None \<Rightarrow> None
      | Some (Inl e, p) \<Rightarrow> Some (Inl e, p)
      | Some (Inr _, p) \<Rightarrow>
          (case write_all_bytes se [0x0a, 0x50, 0x05] p of
             (Inl e, p) \<Rightarrow> Some (Inl e, p)
           | (Inr _, p) \<Rightarrow>
               (case se_clear se p of
                  (False, p) \<Rightarrow> Some (Inl ErrSerial, p)
                | (True, p) \<Rightarrow> Some (Inr (), p))))"

definition invalidate_ready :: "'p serial \<Rightarrow> 'p \<Rightarrow> (boot_err + unit) \<times> 'p" where
  "invalidate_ready se p =
     (case se_read_some se p 20 of (False, p) \<Rightarrow> (Inl ErrSerial, p) | (True, p) \<Rightarrow> (Inr (), p))"

definition run_payload :: "'p port_ops \<Rightarrow> u32 \<Rightarrow> u8 list \<Rightarrow> 'p \<Rightarrow> (boot_err + unit) \<times> 'p" where
  "run_payload ops addr payload p =
     (case send_da ops addr (word_of_nat (length payload)) 0 payload p of
        (Inl e, s) \<Rightarrow> (Inl (ErrCmd e), rn_port s)
      | (Inr _, s) \<Rightarrow>
          (case jump_da ops addr (rn_port s) of
             (Inl e, s) \<Rightarrow> (Inl (ErrCmd e), rn_port s)
           | (Inr _, s) \<Rightarrow> (Inr (), rn_port s)))"

definition crash_to_brom :: "'p port_ops \<Rightarrow> 'p \<Rightarrow> (boot_err + unit) \<times> 'p" where
  "crash_to_brom ops p =
     (case read32 ops 0 1 p of
        (Inl CmdIo, s) \<Rightarrow> (Inr (), rn_port s)
      | (_, s) \<Rightarrow> (Inl ErrNotCrashed, rn_port s))"

section \<open>The runs\<close>

text \<open>
  The ports: what \<open>available_ports\<close> lists at each poll, and what opening a port by its name yields.
  \<open>open_port\<close> polls until a listing has a device of the vendor, so the results of its successive calls
  are a list, one for each poll that fails or finds one; when the list is used up it waits for ever.
\<close>

datatype port_type = UsbPort u16 u16 | OtherPort

record port_info =
  pi_name :: string
  pi_type :: port_type

type_synonym 'p ports = "(boot_err + DeviceMode \<times> 'p) list"

definition device_mode :: "port_info \<Rightarrow> (DeviceMode \<times> port_info) option" where
  "device_mode s =
     (case pi_type s of
        UsbPort vid pid \<Rightarrow>
          if vid = 0x0e8d
          then (if pid = 0x2000 then Some (DevPreloader, s) else if pid = 0x0003 then Some (DevBrom, s) else None)
          else None
      | OtherPort \<Rightarrow> None)"

definition get_ports :: "port_info list option \<Rightarrow> boot_err + (DeviceMode \<times> port_info) list" where
  "get_ports available = (case available of None \<Rightarrow> Inl ErrSerial | Some ss \<Rightarrow> Inr (List.map_filter device_mode ss))"

definition open_first :: "(string \<Rightarrow> 'p option) \<Rightarrow> (DeviceMode \<times> port_info) list \<Rightarrow> (boot_err + DeviceMode \<times> 'p) option" where
  "open_first opener found =
     (case found of
        [] \<Rightarrow> None
      | (mode, s) # _ \<Rightarrow> Some (case opener (pi_name s) of None \<Rightarrow> Inl ErrSerial | Some p \<Rightarrow> Inr (mode, p)))"

fun open_port :: "(string \<Rightarrow> 'p option) \<Rightarrow> port_info list option list \<Rightarrow> 'p ports" where
  "open_port opener [] = []"
| "open_port opener (available # polls) =
     (case get_ports available of
        Inl e \<Rightarrow> Inl e # open_port opener polls
      | Inr found \<Rightarrow>
          (case open_first opener found of None \<Rightarrow> open_port opener polls | Some r \<Rightarrow> r # open_port opener polls))"

text \<open>Polls without a device are waited through; the first one with a device is opened, in the mode its
  product number tells.\<close>

lemma open_port_finds:
  assumes "\<forall>available \<in> set before. \<exists>ss. available = Some ss \<and> (\<forall>s \<in> set ss. device_mode s = None)"
    and "List.map_filter device_mode ss = (mode, s) # rest" and "opener (pi_name s) = Some p"
  shows "open_port opener (before @ Some ss # polls) = Inr (mode, p) # open_port opener polls"
  using assms(1)
proof (induction before)
  case Nil
  with assms(2,3) show ?case by (simp add: get_ports_def open_first_def)
next
  case (Cons available before)
  then obtain us where us: "available = Some us" "\<forall>s \<in> set us. device_mode s = None" by auto
  then have "List.map_filter device_mode us = []" by (auto simp: List.map_filter_def filter_empty_conv)
  with Cons us(1) show ?case by (simp add: get_ports_def open_first_def)
qed

text \<open>Everything a run depends on. A run ends with its result, the port it used last and its state.\<close>

record 'p setting =
  sg_out :: outside
  sg_serial :: "'p serial"
  sg_codecs :: codecs
  sg_buf_size :: nat
  sg_repl :: "'p protocol \<Rightarrow> (boot_err + unit) \<times> 'p protocol"

type_synonym 'p run = "((boot_err + unit) \<times> 'p \<times> host_state) option"

abbreviation sg_ops :: "'p setting \<Rightarrow> 'p port_ops" where
  "sg_ops sg \<equiv> se_ops (sg_serial sg)"

text \<open>Put the parameters into the payload, upload it, jump to it, and start the protocol.\<close>

definition start_payload :: "'p setting \<Rightarrow> u8 list option \<Rightarrow> u32 \<Rightarrow> PayloadParams \<Rightarrow> 'p \<Rightarrow>
    (boot_err + 'p protocol) \<times> 'p" where
  "start_payload sg payload addr params p =
     (case payload of
        None \<Rightarrow> (Inl ErrNoPayload, p)
      | Some binary \<Rightarrow>
          (case inject_params (sg_out sg) params binary of
             Inl e \<Rightarrow> (Inl e, p)
           | Inr binary \<Rightarrow>
               (case run_payload (sg_ops sg) addr binary p of
                  (Inl e, p) \<Rightarrow> (Inl e, p)
                | (Inr _, p) \<Rightarrow>
                    (case host_start (sg_ops sg) (sg_codecs sg) (protocol_new (sg_buf_size sg) p) of
                       (Inl e, pr) \<Rightarrow> (Inl (ErrStart e), pr_io pr)
                     | (Inr _, pr) \<Rightarrow> (Inr pr, pr_io pr)))))"

definition run_rpc_preloader :: "'p setting \<Rightarrow> host_state \<Rightarrow> 'p \<Rightarrow> (boot_err + unit) \<times> 'p" where
  "run_rpc_preloader sg st p =
     (case an_bldr_jump (ot_analysis (sg_out sg)) of
        None \<Rightarrow> (Inl (ErrExtract ''bldr_jump''), p)
      | Some (bldr_jump, da_addr) \<Rightarrow>
          (case start_payload sg (ot_pl_payload (sg_out sg)) da_addr (st_params st) p of
             (Inl e, p) \<Rightarrow> (Inl e, p)
           | (Inr pr, _) \<Rightarrow>
               (case rpc_session (sg_out sg) (sg_ops sg) (sg_codecs sg) (sg_repl sg) st bldr_jump pr of
                  (r, pr) \<Rightarrow> (r, pr_io pr))))"

text \<open>A device that does not answer \<open>GetHwCode\<close> is opened again.\<close>

definition preloader_workaround :: "'p setting \<Rightarrow> 'p \<Rightarrow> 'p ports \<Rightarrow> ((boot_err + unit) \<times> 'p \<times> 'p ports) option" where
  "preloader_workaround sg p ps =
     (case get_hw_code (sg_ops sg) p of
        (Inr _, p) \<Rightarrow> Some (Inr (), p, ps)
      | (Inl _, q) \<Rightarrow>
          (case ps of
             [] \<Rightarrow> None
           | Inl e # ps \<Rightarrow> Some (Inl e, q, ps)
           | Inr (_, p) # ps \<Rightarrow>
               (case invalidate_ready (sg_serial sg) p of
                  (Inl e, p) \<Rightarrow> Some (Inl e, p, ps)
                | (Inr _, p) \<Rightarrow> map_option (\<lambda>(r, p). (r, p, ps)) (host_handshake (sg_serial sg) p))))"

definition run_preloader :: "'p setting \<Rightarrow> host_state \<Rightarrow> DeviceMode \<Rightarrow> 'p \<Rightarrow> 'p ports \<Rightarrow> 'p run" where
  "run_preloader sg st mode p ps =
     (if mode \<noteq> DevPreloader then Some (Inl ErrPanic, p, st)
      else
        (case preloader_workaround sg p ps of
           None \<Rightarrow> None
         | Some (Inl e, p, _) \<Rightarrow> Some (Inl e, p, st)
         | Some (Inr _, p, _) \<Rightarrow>
             let start = ot_dram_start (sg_out sg) (st_soc st);
                 st = st\<lparr>st_params := (st_params st)\<lparr>pp_memory := memory_range_new start (start + 512 * 1024 * 1024)\<rparr>\<rparr>
             in (case an_dlul (ot_analysis (sg_out sg)) of
                   None \<Rightarrow> Some (Inl (ErrExtract ''Preloader function pointers''), p, st)
                 | Some (ptr_dl, ptr_ul) \<Rightarrow>
                     let st = st\<lparr>st_params := (st_params st)\<lparr>pp_ptr_dl := ptr_dl, pp_ptr_ul := ptr_ul\<rparr>\<rparr>
                     in (case run_rpc_preloader sg st p of (r, p) \<Rightarrow> Some (r, p, st)))))"

text \<open>Reserve the images and the preloader, so that the payload does not move onto them.\<close>

fun reserve_files :: "upload_file list \<Rightarrow> PayloadParams \<Rightarrow> boot_err + PayloadParams" where
  "reserve_files [] params = Inr params"
| "reserve_files ((addr, data) # fs) params =
     (case blacklist_reloc params (addr, addr + word_of_nat (length data) + 1) of
        Inl _ \<Rightarrow> Inl (ErrBlacklist addr)
      | Inr params \<Rightarrow> reserve_files fs params)"

definition brom_params :: "outside \<Rightarrow> host_state \<Rightarrow> PayloadParams" where
  "brom_params ot st =
     (let l2 = ot_l2_sram ot (st_soc st)
      in (st_params st)\<lparr>pp_memory := memory_range_new (fst l2) (snd l2),
                        pp_ptr_dl := 0x40B9C4 OR 1, pp_ptr_ul := 0x40BA4A OR 1\<rparr>)"

definition run_brom :: "'p setting \<Rightarrow> host_state \<Rightarrow> DeviceMode \<Rightarrow> 'p \<Rightarrow> 'p ports \<Rightarrow> 'p run" where
  "run_brom sg st mode p ps =
     (if mode \<noteq> DevBrom then Some (Inl ErrPanic, p, st)
      else
        (case reserve_files (st_upload st @ [st_preloader st]) (brom_params (sg_out sg) st) of
           Inl e \<Rightarrow> Some (Inl e, p, st)
         | Inr params \<Rightarrow>
             let st = st\<lparr>st_params := params\<rparr>
             in (case start_payload sg (ot_brom_payload (sg_out sg)) 0x2001000 params p of
                   (Inl e, p) \<Rightarrow> Some (Inl e, p, st)
                 | (Inr pr, _) \<Rightarrow>
                     if st_mode st = BootROM
                     then (case brom_images (sg_ops sg) (sg_codecs sg) st pr of (r, pr) \<Rightarrow> Some (r, pr_io pr, st))
                     else
                       (case brom_preloader (sg_ops sg) (sg_codecs sg) st pr of
                          (Inl e, pr) \<Rightarrow> Some (Inl e, pr_io pr, st)
                        | (Inr _, pr) \<Rightarrow>
                            (case ps of
                               [] \<Rightarrow> None
                             | Inl e # ps \<Rightarrow> Some (Inl e, pr_io pr, st)
                             | Inr (mode, p) # ps \<Rightarrow>
                                 (case invalidate_ready (sg_serial sg) p of
                                    (Inl e, p) \<Rightarrow> Some (Inl e, p, st)
                                  | (Inr _, p) \<Rightarrow>
                                      (case host_handshake (sg_serial sg) p of
                                         None \<Rightarrow> None
                                       | Some (Inl e, p) \<Rightarrow> Some (Inl e, p, st)
                                       | Some (Inr _, p) \<Rightarrow> run_preloader sg st mode p ps)))))))"

text \<open>\<open>run\<close> of \<open>main.rs\<close>.\<close>

definition detect_soc :: "'p setting \<Rightarrow> host_state \<Rightarrow> 'p \<Rightarrow> (boot_err + host_state) \<times> 'p" where
  "detect_soc sg st p =
     (case get_hw_code (sg_ops sg) p of
        (Inl e, p) \<Rightarrow> (Inl (ErrCmd e), p)
      | (Inr v, p) \<Rightarrow>
          (case ot_soc_of_hwcode (sg_out sg) (int_of v) of
             None \<Rightarrow> (Inl ErrSoC, p)
           | Some soc \<Rightarrow> (Inr (st\<lparr>st_soc := soc, st_params := (st_params st)\<lparr>pp_soc := soc\<rparr>\<rparr>), p)))"

definition run_detected :: "'p setting \<Rightarrow> bool \<Rightarrow> host_state \<Rightarrow> DeviceMode \<Rightarrow> 'p \<Rightarrow> 'p ports \<Rightarrow> 'p run" where
  "run_detected sg crash st mode p ps =
     (case mode of
        DevBrom \<Rightarrow> run_brom sg st mode p ps
      | DevPreloader \<Rightarrow>
          if crash then
            (case crash_to_brom (sg_ops sg) p of
               (Inl e, p) \<Rightarrow> Some (Inl e, p, st)
             | (Inr _, p) \<Rightarrow>
                 (case ps of
                    [] \<Rightarrow> None
                  | Inl e # ps \<Rightarrow> Some (Inl e, p, st)
                  | Inr (mode, p) # ps \<Rightarrow>
                      (case host_handshake (sg_serial sg) p of
                         None \<Rightarrow> None
                       | Some (Inl e, p) \<Rightarrow> Some (Inl e, p, st)
                       | Some (Inr _, p) \<Rightarrow> run_brom sg st mode p ps)))
          else run_preloader sg st mode p ps)"

definition run_opened :: "'p setting \<Rightarrow> bool \<Rightarrow> host_state \<Rightarrow> DeviceMode \<Rightarrow> 'p \<Rightarrow> 'p ports \<Rightarrow> 'p run" where
  "run_opened sg crash st mode p ps =
     (case (if mode = DevPreloader then invalidate_ready (sg_serial sg) p else (Inr (), p)) of
        (Inl e, p) \<Rightarrow> Some (Inl e, p, st)
      | (Inr _, p) \<Rightarrow>
          (case host_handshake (sg_serial sg) p of
             None \<Rightarrow> None
           | Some (Inl e, p) \<Rightarrow> Some (Inl e, p, st)
           | Some (Inr _, p) \<Rightarrow>
               (case preloader_workaround sg p ps of
                  None \<Rightarrow> None
                | Some (Inl e, p, _) \<Rightarrow> Some (Inl e, p, st)
                | Some (Inr _, p, ps) \<Rightarrow>
                    (case detect_soc sg st p of
                       (Inl e, p) \<Rightarrow> Some (Inl e, p, st)
                     | (Inr st, p) \<Rightarrow> run_detected sg crash st mode p ps))))"

text \<open>The first port may fail to open, before there is anything to run on.\<close>

definition run :: "'p setting \<Rightarrow> bool \<Rightarrow> host_state \<Rightarrow> 'p ports \<Rightarrow> boot_err + 'p run" where
  "run sg crash st ports =
     (case ports of
        [] \<Rightarrow> Inr None
      | Inl e # _ \<Rightarrow> Inl e
      | Inr (mode, p) # ps \<Rightarrow> Inr (run_opened sg crash st mode p ps))"

section \<open>Laws of the serial port\<close>

text \<open>Flushing sends what was written, clearing drops what has arrived, and reading what is there takes
  a part of it. The code clears both buffers (\<open>ClearBuffer::All\<close>), which would also drop output the
  driver still holds; it waits 200 ms before it does, and the law is about a port whose output has gone out
  by then, \<open>outbox\<close> being what has.\<close>

locale serial_port = fifo_port "se_ops se" inbox outbox
  for se :: "'p serial" and inbox outbox +
  assumes flush_law: "\<exists>q. se_flush se p = (True, q) \<and> inbox q = inbox p \<and> outbox q = outbox p"
    and clear_law: "\<exists>q. se_clear se p = (True, q) \<and> inbox q = [] \<and> outbox q = outbox p"
    and read_some_law: "\<exists>q. se_read_some se p n = (True, q) \<and>
      inbox q = drop (min n (length (inbox p))) (inbox p) \<and> outbox q = outbox p"
begin

lemma sync_step_reads:
  assumes "inbox p = b # rest"
  shows "\<exists>q. sync_step se p = (Inr (b = 0x5f), q) \<and> inbox q = rest \<and> outbox q = outbox p @ [0xa0]"
proof -
  obtain q1 where q1: "op_write (se_ops se) p [0xa0] = (True, q1)" "inbox q1 = inbox p" "outbox q1 = outbox p @ [0xa0]"
    using write_law by blast
  obtain q2 where q2: "se_flush se q1 = (True, q2)" "inbox q2 = inbox q1" "outbox q2 = outbox q1"
    using flush_law by blast
  from read_law [of 1 q2] q1 q2 assms obtain q3 where
    "op_read (se_ops se) q2 1 = (Some [b], q3)" "inbox q3 = rest" "outbox q3 = outbox p @ [0xa0]" by auto
  with q1 q2 show ?thesis by (simp add: sync_step_def)
qed

lemma sync_loop_reads:
  "inbox p = junk @ 0x5f # rest \<Longrightarrow> 0x5f \<notin> set junk \<Longrightarrow>
   \<exists>q. sync_loop se p = Some (Inr (), q) \<and> inbox q = rest \<and>
     outbox q = outbox p @ replicate (Suc (length junk)) 0xa0"
proof (induction junk arbitrary: p)
  case Nil
  from sync_step_reads [of p "0x5f" rest] Nil show ?case by (auto simp: sync_loop.simps [of se p])
next
  case (Cons b junk)
  from sync_step_reads [of p b "junk @ 0x5f # rest"] Cons.prems obtain q where
    q: "sync_step se p = (Inr False, q)" "inbox q = junk @ 0x5f # rest" "outbox q = outbox p @ [0xa0]" by auto
  from Cons.IH [OF q(2)] Cons.prems(2) q(1,3) show ?case by (auto simp: sync_loop.simps [of se p])
qed

lemma write_all_bytes_sends:
  "\<exists>q. write_all_bytes se bs p = (Inr (), q) \<and> inbox q = inbox p \<and> outbox q = outbox p @ bs"
proof (induction bs arbitrary: p)
  case (Cons b bs)
  obtain q where q: "op_write (se_ops se) p [b] = (True, q)" "inbox q = inbox p" "outbox q = outbox p @ [b]"
    using write_law by blast
  from Cons.IH [of q] q show ?case by auto
qed simp

lemma handshake_sends:
  assumes "inbox p = junk @ 0x5f # rest" and "0x5f \<notin> set junk"
  shows "\<exists>q. host_handshake se p = Some (Inr (), q) \<and> inbox q = [] \<and>
    outbox q = outbox p @ replicate (Suc (length junk)) 0xa0 @ [0x0a, 0x50, 0x05]"
proof -
  from sync_loop_reads [OF assms] obtain q1 where q1: "sync_loop se p = Some (Inr (), q1)" "inbox q1 = rest"
    "outbox q1 = outbox p @ replicate (Suc (length junk)) 0xa0" by blast
  obtain q2 where q2: "write_all_bytes se [0x0a, 0x50, 0x05] q1 = (Inr (), q2)" "outbox q2 = outbox q1 @ [0x0a, 0x50, 0x05]"
    using write_all_bytes_sends by blast
  obtain q3 where "se_clear se q2 = (True, q3)" "inbox q3 = []" "outbox q3 = outbox q2"
    using clear_law by blast
  with q1 q2 show ?thesis by (simp add: host_handshake_def)
qed

end

text \<open>A serial port over the scripted queues.\<close>

definition script_serial :: "queues serial" where
  "script_serial = \<lparr>se_ops = script_ops, se_flush = Pair True, se_clear = (\<lambda>q. (True, q\<lparr>q_in := []\<rparr>)),
     se_read_some = (\<lambda>q n. (True, q\<lparr>q_in := drop (min n (length (q_in q))) (q_in q)\<rparr>))\<rparr>"

interpretation script_serial: serial_port script_serial q_in q_out
  using script.fifo_port_axioms
  by (intro serial_port.intro serial_port_axioms.intro) (auto simp: script_serial_def)

section \<open>Properties\<close>

text \<open>C26: The handshake ends as soon as the device has answered \<open>0x5f\<close>: it sends one sync byte per
  answer read, however many other bytes come first, then the three bytes that finish it, and
  leaves no input behind.\<close>

theorem handshake_synchronises:
  assumes "serial_port se inbox outbox" and "inbox p = junk @ 0x5f # rest" and "0x5f \<notin> set junk"
  shows "\<exists>q. host_handshake se p = Some (Inr (), q) \<and> inbox q = [] \<and>
    outbox q = outbox p @ replicate (Suc (length junk)) 0xa0 @ [0x0a, 0x50, 0x05]"
  using serial_port.handshake_sends [OF assms] .

lemma handshake_synchronises_witness:
  "\<exists>q. host_handshake script_serial \<lparr>q_in = [0x52, 0x45] @ 0x5f # [0xf5, 0xaf, 0xfa], q_out = []\<rparr> = Some (Inr (), q) \<and>
     q_out q = [0xa0, 0xa0, 0xa0, 0x0a, 0x50, 0x05]"
  using handshake_synchronises [OF script_serial.serial_port_axioms, where junk = "[0x52, 0x45]" and
      rest = "[0xf5, 0xaf, 0xfa]" and p = "\<lparr>q_in = [0x52, 0x45] @ 0x5f # [0xf5, 0xaf, 0xfa], q_out = []\<rparr>"]
  by auto

end
