(* ===== verification/Inject.thy ===== *)
theory Inject
  imports Session
begin

text \<open>
  \<open>inject_params\<close> of \<open>boot/rpc/selector.rs\<close> against the view the payload has of its parameters:
  the parameters the host writes into the binary are those the payload reads there.
\<close>

section \<open>The view of the payload\<close>

text \<open>\<open>PARAMS\<close> of \<open>payloads/rpc/src/setup.rs\<close> as the bytes it lies in.\<close>

definition blacklist_mode_of :: "u32 \<Rightarrow> BlacklistMode" where
  "blacklist_mode_of v = (if v = 0 then ModeNone else if v = 1 then ForbiddenReloc else ForbiddenDL)"

definition blacklist_range_of :: "u8 list \<Rightarrow> BlacklistRange" where
  "blacklist_range_of bs =
     \<lparr>bl_range = memory_range_new (word_at bs 0) (word_at bs 4), bl_mode = blacklist_mode_of (word_at bs 8)\<rparr>"

definition payload_view :: "(u8 list \<Rightarrow> SoC) \<Rightarrow> u8 list \<Rightarrow> PayloadParams" where
  "payload_view soc_of bs =
     \<lparr>pp_magic = word_at bs 0, pp_version = word_at bs 4,
      pp_memory = memory_range_new (word_at bs 8) (word_at bs 12),
      pp_blacklist = map (\<lambda>i. blacklist_range_of (drop (16 + 12 * i) bs)) [0..<12],
      pp_ptr_dl = word_at bs 160, pp_ptr_ul = word_at bs 164, pp_soc = soc_of (drop 168 bs)\<rparr>"

text \<open>\<open>memmem::find\<close>: the first occurrence.\<close>

definition occurs_at :: "u8 list \<Rightarrow> u8 list \<Rightarrow> nat \<Rightarrow> bool" where
  "occurs_at haystack needle i \<longleftrightarrow> i + length needle \<le> length haystack \<and> take (length needle) (drop i haystack) = needle"

definition find_ok :: "(u8 list \<Rightarrow> u8 list \<Rightarrow> nat option) \<Rightarrow> bool" where
  "find_ok search \<longleftrightarrow> (\<forall>haystack needle i. search haystack needle = Some i \<longleftrightarrow>
     occurs_at haystack needle i \<and> (\<forall>j < i. \<not> occurs_at haystack needle j))"

section \<open>Words of the parameters\<close>

lemma word_at_append_right: "length xs \<le> k \<Longrightarrow> word_at (xs @ ys) k = word_at ys (k - length xs)"
  by (simp add: word_at_def)

lemma blacklist_range_roundtrip: "blacklist_range_of (blacklist_range_bytes b @ rest) = b"
  by (cases b, cases "bl_range b")
    (simp add: blacklist_range_of_def blacklist_range_bytes_def word_at_append_right word_at_le32
      memory_range_new_def blacklist_mode_of_def blacklist_mode_u32_def split: BlacklistMode.split)

lemma length_blacklist_range_bytes [simp]: "length (blacklist_range_bytes b) = 12"
  by (simp add: blacklist_range_bytes_def)

lemma drop_concat_ranges:
  "i < length bl \<Longrightarrow> drop (12 * i) (concat (map blacklist_range_bytes bl) @ rest) =
     blacklist_range_bytes (bl ! i) @ drop (12 * Suc i) (concat (map blacklist_range_bytes bl) @ rest)"
proof (induction bl arbitrary: i)
  case (Cons b bl)
  then show ?case by (cases i) simp_all
qed simp

lemma length_concat_ranges: "length (concat (map blacklist_range_bytes bl)) = 12 * length bl"
  by (induction bl) simp_all

lemma payload_view_params:
  assumes "length (pp_blacklist p) = 12" and "\<And>r. soc_of (soc_bytes (pp_soc p) @ r) = pp_soc p"
  shows "payload_view soc_of (params_bytes soc_bytes p @ rest) = p"
proof -
  define tl where "tl = le32 (pp_ptr_dl p) @ le32 (pp_ptr_ul p) @ soc_bytes (pp_soc p) @ rest"
  define bl where "bl = concat (map blacklist_range_bytes (pp_blacklist p))"
  define hd where "hd = le32 (pp_magic p) @ le32 (pp_version p) @ le32 (mr_start (pp_memory p)) @ le32 (mr_end (pp_memory p))"
  have bs: "params_bytes soc_bytes p @ rest = hd @ bl @ tl" by (simp add: params_bytes_def hd_def bl_def tl_def)
  have len: "length hd = 16" "length bl = 144" using assms(1) by (simp_all add: hd_def bl_def length_concat_ranges)
  have head: "word_at (hd @ xs) 0 = pp_magic p" "word_at (hd @ xs) 4 = pp_version p"
    "word_at (hd @ xs) 8 = mr_start (pp_memory p)" "word_at (hd @ xs) 12 = mr_end (pp_memory p)" for xs
    by (simp_all add: hd_def word_at_append_right word_at_le32)
  have tail: "word_at (hd @ bl @ tl) 160 = pp_ptr_dl p" "word_at (hd @ bl @ tl) 164 = pp_ptr_ul p"
    "soc_of (drop 168 (hd @ bl @ tl)) = pp_soc p"
    using len assms(2) by (simp_all add: word_at_append_right tl_def word_at_le32)
  have "map (\<lambda>i. blacklist_range_of (drop (16 + 12 * i) (hd @ bl @ tl))) [0..<12] = pp_blacklist p"
  proof (rule nth_equalityI)
    fix i assume "i < length (map (\<lambda>i. blacklist_range_of (drop (16 + 12 * i) (hd @ bl @ tl))) [0..<12])"
    then have i: "i < 12" by simp
    have "drop (16 + 12 * i) (hd @ bl @ tl) = drop (12 * i) (bl @ tl)" using len(1) by simp
    also have "\<dots> = blacklist_range_bytes (pp_blacklist p ! i) @ drop (12 * Suc i) (bl @ tl)"
      unfolding bl_def by (rule drop_concat_ranges) (use i assms(1) in simp)
    finally show "map (\<lambda>i. blacklist_range_of (drop (16 + 12 * i) (hd @ bl @ tl))) [0..<12] ! i = pp_blacklist p ! i"
      using i by (simp add: blacklist_range_roundtrip)
  qed (use assms(1) in simp)
  then show ?thesis
    unfolding bs payload_view_def head tail by (simp only: memory_range_new_def) simp
qed

section \<open>Properties\<close>

text \<open>C25: Injecting the parameters puts them where the payload looks for its own, at the first
  occurrence of the magic: there the payload reads exactly the parameters of the host, every other
  byte of the binary and its length are what they were, and the magic is still found at the same
  place, so that a second injection replaces the first.\<close>

theorem inject_params_roundtrip:
  assumes "find_ok (ot_find ot)" and "\<And>r. soc_of (ot_soc_bytes ot (pp_soc params) @ r) = pp_soc params"
    and "length (pp_blacklist params) = 12" and "pp_magic params = MAGIC"
    and "ot_find ot payload (le32 MAGIC) = Some start"
    and "start + length (params_bytes (ot_soc_bytes ot) params) \<le> length payload"
  shows "\<exists>out. inject_params ot params payload = Inr out \<and> length out = length payload \<and>
    payload_view soc_of (drop start out) = params \<and>
    take start out = take start payload \<and>
    drop (start + length (params_bytes (ot_soc_bytes ot) params)) out =
      drop (start + length (params_bytes (ot_soc_bytes ot) params)) payload \<and>
    ot_find ot out (le32 MAGIC) = Some start"
proof -
  define new where "new = params_bytes (ot_soc_bytes ot) params"
  define out where "out = take start payload @ new @ drop (start + length new) payload"
  note fits = assms(6) [folded new_def]
  have out: "inject_params ot params payload = Inr out"
    using assms(5) fits by (simp add: inject_params_def new_def [symmetric] out_def Let_def)
  have len: "length out = length payload" and tk: "take start out = take start payload"
    and dr: "drop (start + length new) out = drop (start + length new) payload"
    using fits by (simp_all add: out_def)
  have at: "drop start out = new @ drop (start + length new) payload"
    using fits by (simp add: out_def)
  from assms(1,5) have first: "occurs_at payload (le32 MAGIC) start" "\<And>j. j < start \<Longrightarrow> \<not> occurs_at payload (le32 MAGIC) j"
    unfolding find_ok_def by blast+
  have new4: "take 4 new = le32 MAGIC" "4 \<le> length new"
    using assms(4) by (simp_all add: new_def params_bytes_def)
  have prefix: "take (start + 4) out = take (start + 4) payload"
  proof -
    have "take 4 (drop start out) = take 4 (drop start payload)"
      using first(1) new4 at by (simp add: occurs_at_def)
    with tk show ?thesis by (simp add: take_add)
  qed
  have "\<not> occurs_at out (le32 MAGIC) j" if "j < start" for j
  proof -
    have same: "take 4 (drop j xs) = take 4 (drop j (take (start + 4) xs))" for xs :: "u8 list"
      using that by (simp add: drop_take)
    have "take 4 (drop j out) = take 4 (drop j payload)" using same [of out] same [of payload] prefix by simp
    with first(2) [OF that] len show ?thesis by (simp add: occurs_at_def)
  qed
  moreover have "occurs_at out (le32 MAGIC) start"
    using new4 at fits len by (simp add: occurs_at_def)
  ultimately have "ot_find ot out (le32 MAGIC) = Some start"
    using assms(1) unfolding find_ok_def by blast
  moreover have "payload_view soc_of (drop start out) = params"
    unfolding at new_def by (rule payload_view_params) (use assms(2,3) in auto)
  ultimately show ?thesis using out len tk dr by (auto simp: new_def)
qed

text \<open>A search of the first occurrence, a chip of four bytes, and a small binary.\<close>

fun sample_search :: "u8 list \<Rightarrow> u8 list \<Rightarrow> nat option" where
  "sample_search [] needle = (if needle = [] then Some 0 else None)"
| "sample_search (b # bs) needle =
     (if take (length needle) (b # bs) = needle then Some 0 else map_option Suc (sample_search bs needle))"

lemma sample_search_occurs:
  "sample_search haystack needle = Some i \<longleftrightarrow>
     occurs_at haystack needle i \<and> (\<forall>j < i. \<not> occurs_at haystack needle j)"
proof (induction haystack arbitrary: i)
  case Nil
  show ?case by (cases i) (auto simp: occurs_at_def)
next
  case (Cons b bs)
  have at0: "occurs_at (b # bs) needle 0 \<longleftrightarrow> take (length needle) (b # bs) = needle"
    unfolding occurs_at_def by (auto simp: min_def split: if_splits dest: arg_cong [where f = length])
  have atS: "occurs_at (b # bs) needle (Suc j) \<longleftrightarrow> occurs_at bs needle j" for j
    by (simp add: occurs_at_def)
  show ?case
  proof (cases i)
    case 0
    then show ?thesis using at0 by auto
  next
    case (Suc k)
    then show ?thesis using at0 atS Cons.IH [of k] by (auto simp: less_Suc_eq_0_disj)
  qed
qed

definition sample_soc_bytes :: "SoC \<Rightarrow> u8 list" where
  "sample_soc_bytes s = le32 (case s of MT6572 \<Rightarrow> 0 | MT6582 \<Rightarrow> 1 | MT6595 \<Rightarrow> 2 | OtherSoC n \<Rightarrow> 3)"

definition sample_outside :: outside where
  "sample_outside =
     \<lparr>ot_analysis = \<lparr>an_dlul = Some (0x201001, 0x201101), an_bldr_jump = Some (0x202000, 0x80001000),
        an_generic_read = Some 0x81E10000, an_get_partition = Some 0x81E10100, an_get_part = None\<rparr>,
      ot_mkbootimg = (\<lambda>zimage ramdisk. Some (zimage @ ramdisk)),
      ot_brom_payload = None, ot_pl_payload = None, ot_find = sample_search, ot_soc_bytes = sample_soc_bytes,
      ot_soc_of_hwcode = (\<lambda>c. if c = 0x6572 then Some MT6572 else None),
      ot_l2_sram = (\<lambda>_. (0x2000000, 0x2020000)), ot_dram_start = (\<lambda>_. 0x80000000)\<rparr>"

definition sample_binary :: "u8 list" where
  "sample_binary = [0xEA] @ le32 MAGIC @ replicate 200 0"

lemma inject_params_roundtrip_witness:
  "\<exists>out. inject_params sample_outside params_default sample_binary = Inr out \<and>
     payload_view (\<lambda>_. MT6572) (drop 1 out) = params_default"
proof -
  have bl: "length (pp_blacklist params_default) = 12" "pp_magic params_default = MAGIC" "pp_soc params_default = MT6572"
    by (simp_all add: params_default_def)
  have find: "ot_find sample_outside sample_binary (le32 MAGIC) = Some 1"
    by (simp add: sample_outside_def sample_binary_def le32_def MAGIC_def)
  have len: "1 + length (params_bytes (ot_soc_bytes sample_outside) params_default) \<le> length sample_binary"
    using bl by (simp add: params_bytes_def length_concat_ranges sample_binary_def sample_outside_def sample_soc_bytes_def)
  have ok: "find_ok (ot_find sample_outside)"
    using sample_search_occurs by (simp add: find_ok_def sample_outside_def)
  from inject_params_roundtrip [OF ok _ bl(1,2) find len, where soc_of = "\<lambda>_. MT6572"] bl(3)
  show ?thesis by auto
qed

end
