(* ===== verification/Boot.thy ===== *)
theory Boot
  imports Inject
begin

text \<open>
  Sessions end to end: the host of theory \<open>Session\<close> on a link to the device of theory \<open>Device\<close>, which
  takes its turns as the host waits for answers. The lemmas give the effect of every request of a
  session on the device; the properties say what is in the device's memory and which call it is in
  when the host is done.
\<close>

section \<open>One request\<close>

lemma request_turn:
  assumes "idle e p" and "calls_keep_port e" and "\<not> moves_data m"
    and h: "\<And>x. handle_message e ((pr_io p)\<lparr>dv_proto := x\<rparr>) m = Some (r, d1\<lparr>dv_proto := x\<rparr>)"
  shows "\<exists>p1 p2. send_message (linked_ops e) (ev_codecs e) p m = (Inr (), p1) \<and>
    read_response (linked_ops e) (ev_codecs e) p1 = (Inr r, p2) \<and> idle e p2 \<and> same_but_port d1 (pr_io p2)"
proof -
  note p = idleD [OF assms(1)]
  from link_send [OF p(3), of e m] obtain p1 where
    p1: "send_message (linked_ops e) (ev_codecs e) p m = (Inr (), p1)"
      "pr_io p1 = feed (mframe (ev_codecs e) m) (pr_io p)" "length (pr_buf p1) = length (pr_buf p)"
    by (auto simp: send_message_def)
  define d where "d = pr_io p1"
  have q: "q_in (pr_io (dv_proto d)) = mframe (ev_codecs e) m @ [] @ []" and o: "q_out (dv_queues d) = []"
    and ok: "proto_ok e d"
    using p by (simp_all add: d_def p1(2) flip: dv_queues_def)
  have pay: "length ([] :: u8 list) = payload_size m" using assms(3) by (cases m) auto
  have dm: "d\<lparr>dv_proto := x\<rparr> = (pr_io p)\<lparr>dv_proto := x\<rparr>" for x by (simp add: d_def p1(2) feed_def set_io_def)
  have ans: "answer_data mm m = []" for mm using assms(3) by (cases m) auto
  from usb.handler_step_serves [OF p(1) assms(2) ok q pay] consider
    (turn) d0 d1' r' d' where "d0 = d\<lparr>dv_proto := dv_proto d0\<rparr>" "handle_message e d0 m = Some (r', d1')"
      "handler_step e d = Continue d'" "d' = d1'\<lparr>dv_proto := dv_proto d'\<rparr>" "proto_ok e d'"
      "q_in (pr_io (dv_proto d')) = []" "q_out (pr_io (dv_proto d')) = rframe (ev_codecs e) r'"
    | (left) "handler_step e d = Left"
    using o unfolding ans dv_queues_def by auto
  then show ?thesis
  proof cases
    case left
    from p(3,5) have "codec_ok (message_codec (ev_codecs e)) (length (pr_buf (dv_proto d)))"
      "length (pr_buf (dv_proto d)) < 2 ^ 32" using ok by (simp_all add: proto_ok_def codecs_ok_def)
    from usb.read_data_frame [OF this(1) le_refl this(2), of m "[]"] q obtain x where
      "read_message (usb_ops queue_recv queue_send) (ev_codecs e) (dv_proto d) = (Inr m, x)"
      by (auto simp: read_message_def)
    with left p(1) h [of x] have False
      by (auto simp: handler_step_def dm split: prod.splits sum.splits)
    then show ?thesis ..
  next
    case turn
    from turn(1,2) h [of "dv_proto d0"] have r: "r' = r" "d1' = d1\<lparr>dv_proto := dv_proto d0\<rparr>"
      unfolding dm by (metis option.inject prod.inject)+
    from turn r have same: "same_but_port d1 d'" by (simp add: same_but_port_def)
    have "read_response (linked_ops e) (ev_codecs e) p1 = read_response (linked_ops e) (ev_codecs e) (p1\<lparr>pr_io := d'\<rparr>)"
      unfolding read_response_def
      by (rule read_data_turn) (use turn o in \<open>simp_all add: d_def [symmetric] frame_def dv_queues_def\<close>)
    moreover from link_receive [of "response_codec (ev_codecs e)" "p1\<lparr>pr_io := d'\<rparr>" r "[]" e] p(4,5) p1(3) turn(7) r
    obtain p3 where p3: "read_response (linked_ops e) (ev_codecs e) (p1\<lparr>pr_io := d'\<rparr>) = (Inr r, p3)"
      "pr_io p3 = drained (length (rframe (ev_codecs e) r)) d'" "length (pr_buf p3) = length (pr_buf p)"
      by (auto simp: read_response_def dv_queues_def)
    moreover have "idle e p3" using assms(1) p3 turn(5,6,7) r by (simp add: idle_def flip: dv_queues_def)
    moreover have "same_but_port d1 (pr_io p3)"
      using same_but_port_trans [OF same] p3(2) by (simp add: same_but_port_link)
    ultimately show ?thesis using p1(1) by metis
  qed
qed

section \<open>Steps of a session\<close>

lemma bindS_ok: "m s = (Inr a, s') \<Longrightarrow> bindS m f s = f a s'"
  by (simp add: bindS_def)

lemma bindS_err: "m s = (Inl e, s') \<Longrightarrow> bindS m f s = (Inl e, s')"
  by (simp add: bindS_def)

lemma bindS_returnS [simp]: "bindS (returnS a) f = f a"
  by (rule ext) (simp add: bindS_def returnS_def)

lemmas step_defs = returnS_def failS_def liftE_def some_or_def

text \<open>The state of an idle link whose device is known up to its transport.\<close>

definition linked :: "queues env \<Rightarrow> queues device \<Rightarrow> queues device protocol \<Rightarrow> bool" where
  "linked e d p \<longleftrightarrow> idle e p \<and> same_but_port d (pr_io p)"

lemma linked_parts: "linked e d p \<Longrightarrow> dv_params (pr_io p) = dv_params d \<and> dv_icept (pr_io p) = dv_icept d \<and>
     dv_preloader (pr_io p) = dv_preloader d \<and> dv_lk (pr_io p) = dv_lk d \<and> dv_addr (pr_io p) = dv_addr d"
  using same_but_port_simps unfolding linked_def by blast

lemma linked_port: "linked e d p \<Longrightarrow> (pr_io p)\<lparr>dv_proto := x\<rparr> = d\<lparr>dv_proto := x\<rparr>"
  unfolding linked_def same_but_port_def by (metis device.surjective device.update_convs(2))

lemma request_linked:
  assumes "linked e d p" and "calls_keep_port e" and "\<not> moves_data m"
    and "\<And>x. handle_message e (d\<lparr>dv_proto := x\<rparr>) m = Some (r, d1\<lparr>dv_proto := x\<rparr>)"
  shows "\<exists>p1 p2. send (linked_ops e) (ev_codecs e) m p = (Inr (), p1) \<and>
    read_response (linked_ops e) (ev_codecs e) p1 = (Inr r, p2) \<and> linked e d1 p2"
proof -
  have "idle e p" using assms(1) by (simp add: linked_def)
  from request_turn [OF this assms(2,3)] assms(4) linked_port [OF assms(1)] show ?thesis
    by (fastforce simp: linked_def send_def liftE_def)
qed

lemma send_acked_linked:
  assumes "linked e d p" and "calls_keep_port e" and "\<not> moves_data m"
    and "\<And>x. handle_message e (d\<lparr>dv_proto := x\<rparr>) m = Some (r, d1\<lparr>dv_proto := x\<rparr>)"
  shows "\<exists>p'. send_acked (linked_ops e) (ev_codecs e) err m p = (if r = RAck then Inr () else Inl err, p') \<and> linked e d1 p'"
  using request_linked [OF assms] by (auto simp: send_acked_def receive_ok_def bindS_def step_defs)

definition set_params :: "PayloadParams \<Rightarrow> 'p device \<Rightarrow> 'p device" where
  "set_params ps d = d\<lparr>dv_params := ps\<rparr>"

lemma blacklist_linked:
  assumes "linked e d p" and "calls_keep_port e" and "blacklist_dl (dv_params d) (a, a + n + 1) = Inr ps"
  shows "\<exists>p'. blacklist (linked_ops e) (ev_codecs e) err a n p = (Inr (), p') \<and> linked e (set_params ps d) p'"
proof -
  have "handle_message e (d\<lparr>dv_proto := x\<rparr>) (MBlacklistRange (a, a + n + 1)) = Some (RAck, (set_params ps d)\<lparr>dv_proto := x\<rparr>)" for x
    using assms(3) by (simp add: handle_message_def do_blacklist_def set_params_def)
  from send_acked_linked [OF assms(1,2) _ this, of err] show ?thesis by (simp add: blacklist_def)
qed

lemma upload_linked:
  assumes "linked e d p"
  shows "\<exists>p'. upload_to (linked_ops e) (ev_codecs e) a bs p = (Inr (), p') \<and>
    linked e (set_mem (store_bytes (dv_mem d) a bs) d) p'"
proof -
  have "idle e p" and same: "same_but_port d (pr_io p)" using assms by (simp_all add: linked_def)
  from upload_stores [OF this(1), of a bs] obtain p' where
    p': "upload (linked_ops e) (ev_codecs e) a bs p = (Inr (), p')" "idle e p'"
      "same_but_port (set_mem (store_bytes (dv_mem (pr_io p)) a bs) (pr_io p)) (pr_io p')" by blast
  have "same_but_port (set_mem (store_bytes (dv_mem d) a bs) d) (pr_io p')"
    using same_but_port_trans [OF same_but_port_set_mem [OF same]] p'(3) linked_parts [OF assms] by simp
  with p' show ?thesis by (simp add: upload_to_def liftE_def linked_def)
qed

lemma free_range_linked:
  assumes "linked e d p" and "calls_keep_port e"
  shows "\<exists>p'. free_range (linked_ops e) (ev_codecs e) n p =
      (case find_unused_range (dv_params d) n of None \<Rightarrow> Inl (ErrFreeRange n) | Some r \<Rightarrow> Inr (fst r), p') \<and> linked e d p'"
proof -
  have "handle_message e (d\<lparr>dv_proto := x\<rparr>) (MGetFreeRange n) =
      Some (RRange (map_option fst (find_unused_range (dv_params d) n)), d\<lparr>dv_proto := x\<rparr>)" for x
    by (simp add: handle_message_def do_free_range_def)
  from request_linked [OF assms _ this] show ?thesis
    by (auto simp: free_range_def receive_def bindS_def step_defs split: option.split)
qed

text \<open>A jump the device leaves through: the host's read fails, and it takes that for success.\<close>

lemma jump_linked:
  assumes "linked e d p" and "ev_pl e" and "dv_preloader d = Some pl"
    and "\<And>d. ev_call e (ptr_bldr_jump pl OR 1) [addr, unwrap_or_default r0, unwrap_or_default r1] d = None"
  shows "\<exists>p'. send_jump (linked_ops e) (ev_codecs e) addr r0 r1 p = (Inr (), p') \<and>
    handler_step e (pr_io p') = Left \<and> q_in (dv_queues (pr_io p')) = mframe (ev_codecs e) (MJump addr r0 r1) \<and>
    same_but_port d (pr_io p')"
proof -
  have "idle e p" and same: "same_but_port d (pr_io p)" using assms(1) by (simp_all add: linked_def)
  note p = idleD [OF this(1)]
  let ?m = "MJump addr r0 r1"
  from link_send [OF p(3), of e ?m] obtain p1 where
    p1: "send_message (linked_ops e) (ev_codecs e) p ?m = (Inr (), p1)"
      "pr_io p1 = feed (mframe (ev_codecs e) ?m) (pr_io p)" by (auto simp: send_message_def)
  define d1 where "d1 = pr_io p1"
  have q: "q_in (pr_io (dv_proto d1)) = mframe (ev_codecs e) ?m @ []" and o: "q_out (dv_queues d1) = []"
    and ok: "proto_ok e d1" and pl: "dv_preloader d1 = Some pl"
    using p assms(3) linked_parts [OF assms(1)]
    by (simp_all add: d1_def p1(2) flip: dv_queues_def) (simp add: feed_def)
  from ok have "codec_ok (message_codec (ev_codecs e)) (length (pr_buf (dv_proto d1)))"
    "length (pr_buf (dv_proto d1)) < 2 ^ 32" by (simp_all add: proto_ok_def codecs_ok_def)
  from usb.read_data_frame [OF this(1) le_refl this(2) q] obtain x where
    "read_message (usb_ops queue_recv queue_send) (ev_codecs e) (dv_proto d1) = (Inr ?m, x)"
    by (auto simp: read_message_def)
  then have left: "handler_step e d1 = Left"
    using p(1) pl assms(2,4) by (simp add: handler_step_def handle_message_def do_jump_def)
  then have "link_read e d1 4 = (None, d1)" using o by (simp add: link_read_def link_pump_def)
  then have "read_response (linked_ops e) (ev_codecs e) p1 = (Inl Transport, p1)"
    by (cases p1) (simp add: read_response_def read_data_def linked_ops_def d1_def)
  moreover have "same_but_port d d1"
    using same_but_port_trans [OF same] by (simp add: d1_def p1(2) same_but_port_link)
  ultimately show ?thesis using p1 left q
    by (auto simp: send_jump_def send_def receive_ok_def bindS_def step_defs d1_def dv_queues_def)
qed

section \<open>Images\<close>

definition store_files :: "mem \<Rightarrow> upload_file list \<Rightarrow> mem" where
  "store_files m fs = foldl (\<lambda>m f. store_bytes m (fst f) (snd f)) m fs"

definition file_range :: "upload_file \<Rightarrow> u32 \<times> u32" where
  "file_range f = (fst f, fst f + word_of_nat (length (snd f)) + 1)"

text \<open>No image overlaps another or wraps around the address space.\<close>

fun files_apart :: "upload_file list \<Rightarrow> bool" where
  "files_apart [] \<longleftrightarrow> True"
| "files_apart (f # fs) \<longleftrightarrow>
     (\<forall>g \<in> set fs. apart (fst f) (length (snd f)) (fst g) (length (snd g))) \<and> files_apart fs"

definition file_fits :: "upload_file \<Rightarrow> bool" where
  "file_fits f \<longleftrightarrow> unat (fst f) + length (snd f) + 1 < 2 ^ 32"

lemma store_files_append: "store_files m (fs @ gs) = store_files (store_files m fs) gs"
  by (simp add: store_files_def)

lemma load_store_files_apart:
  "\<forall>g \<in> set fs. apart a n (fst g) (length (snd g)) \<and> file_fits g \<Longrightarrow>
   load_bytes (store_files m fs) a n = load_bytes m a n"
proof (induction fs arbitrary: m)
  case (Cons f fs)
  have "load_bytes (store_bytes m (fst f) (snd f)) a n = load_bytes m a n"
    using Cons.prems by (intro ram.load_store_apart) (auto simp: file_fits_def)
  with Cons show ?case by (simp add: store_files_def)
qed (simp add: store_files_def)

lemma load_stored_file:
  "f \<in> set fs \<Longrightarrow> files_apart fs \<Longrightarrow> \<forall>g \<in> set fs. file_fits g \<Longrightarrow>
   load_bytes (store_files m fs) (fst f) (length (snd f)) = snd f"
proof (induction fs arbitrary: m)
  case (Cons g fs)
  show ?case
  proof (cases "f \<in> set fs")
    case True
    with Cons show ?thesis by (simp add: store_files_def)
  next
    case False
    with Cons.prems have f: "f = g" by simp
    have "load_bytes (store_files (store_bytes m (fst g) (snd g)) fs) (fst g) (length (snd g)) =
        load_bytes (store_bytes m (fst g) (snd g)) (fst g) (length (snd g))"
      using Cons.prems f by (intro load_store_files_apart) auto
    also have "\<dots> = snd g" using Cons.prems by (intro ram.load_store_same) (auto simp: file_fits_def)
    finally show ?thesis by (simp add: f store_files_def)
  qed
qed simp

lemma blacklist_dl_free:
  assumes "0 < free_slots ps"
  shows "\<exists>qs. blacklist_dl ps r = Inr qs \<and> reserved qs = insert r (reserved ps) \<and>
    free_slots ps = Suc (free_slots qs) \<and> pp_memory qs = pp_memory ps"
proof (cases "blacklist_dl ps r")
  case (Inl e)
  with assms free_slots_blacklist_with [of ForbiddenDL ps r] show ?thesis by (simp add: blacklist_dl_def)
next
  case (Inr qs)
  then have b: "blacklist_with ForbiddenDL ps r = Inr qs" by (simp add: blacklist_dl_def)
  with Inr free_slots_blacklist_with [of ForbiddenDL ps r] reserved_blacklist_with [OF b] blacklist_with_frame(1) [OF b]
  show ?thesis by simp
qed

lemma set_simps [simp]:
  "dv_params (set_params ps d) = ps" "dv_icept (set_params ps d) = dv_icept d"
  "dv_preloader (set_params ps d) = dv_preloader d" "dv_lk (set_params ps d) = dv_lk d"
  "set_mem m (set_params ps d) = set_params ps (set_mem m d)" "set_params ps (set_params qs d) = set_params ps d"
  by (simp_all add: set_params_def set_mem_def)

lemma upload_image_linked:
  assumes "linked e d p" and "calls_keep_port e" and "0 < free_slots (dv_params d)"
  shows "\<exists>p' ps. upload_image (linked_ops e) (ev_codecs e) f p = (Inr (), p') \<and>
    linked e (set_params ps (set_mem (store_bytes (dv_mem d) (fst f) (snd f)) d)) p' \<and>
    reserved ps = insert (file_range f) (reserved (dv_params d)) \<and>
    free_slots (dv_params d) = Suc (free_slots ps) \<and> pp_memory ps = pp_memory (dv_params d)"
proof -
  from upload_linked [OF assms(1)] obtain p1 where
    p1: "upload_to (linked_ops e) (ev_codecs e) (fst f) (snd f) p = (Inr (), p1)"
      "linked e (set_mem (store_bytes (dv_mem d) (fst f) (snd f)) d) p1" by blast
  from blacklist_dl_free [OF assms(3)] obtain ps where
    ps: "blacklist_dl (dv_params d) (file_range f) = Inr ps" "reserved ps = insert (file_range f) (reserved (dv_params d))"
      "free_slots (dv_params d) = Suc (free_slots ps)" "pp_memory ps = pp_memory (dv_params d)" by blast
  from blacklist_linked [OF p1(2) assms(2), of "fst f" "word_of_nat (length (snd f))" ps "ErrBlacklist (fst f)"] p1 ps
  show ?thesis by (auto simp: upload_image_def bindS_def file_range_def)
qed

lemma upload_images_linked:
  "linked e d p \<Longrightarrow> calls_keep_port e \<Longrightarrow> length fs \<le> free_slots (dv_params d) \<Longrightarrow>
   \<exists>p' ps. upload_images (linked_ops e) (ev_codecs e) fs p = (Inr (), p') \<and>
     linked e (set_params ps (set_mem (store_files (dv_mem d) fs) d)) p' \<and>
     reserved ps = reserved (dv_params d) \<union> set (map file_range fs) \<and>
     free_slots (dv_params d) = free_slots ps + length fs \<and> pp_memory ps = pp_memory (dv_params d)"
proof (induction fs arbitrary: d p)
  case Nil
  then show ?case
    by (intro exI [of _ p] exI [of _ "dv_params d"]) (simp add: store_files_def set_params_def set_mem_def step_defs)
next
  case (Cons f fs)
  from Cons.prems(3) have "0 < free_slots (dv_params d)" by auto
  from upload_image_linked [OF Cons.prems(1,2) this, of f] obtain p1 ps1 where
    p1: "upload_image (linked_ops e) (ev_codecs e) f p = (Inr (), p1)"
      "linked e (set_params ps1 (set_mem (store_bytes (dv_mem d) (fst f) (snd f)) d)) p1"
      "reserved ps1 = insert (file_range f) (reserved (dv_params d))"
      "free_slots (dv_params d) = Suc (free_slots ps1)" "pp_memory ps1 = pp_memory (dv_params d)" by blast
  from Cons.IH [OF p1(2) Cons.prems(2)] Cons.prems(3) p1(4) obtain p2 ps2 where
    p2: "upload_images (linked_ops e) (ev_codecs e) fs p1 = (Inr (), p2)"
      "linked e (set_params ps2 (set_mem (store_files (store_bytes (dv_mem d) (fst f) (snd f)) fs) d)) p2"
      "reserved ps2 = reserved ps1 \<union> set (map file_range fs)"
      "free_slots ps1 = free_slots ps2 + length fs" "pp_memory ps2 = pp_memory ps1" by auto
  show ?case
    using p1 p2 by (intro exI [of _ p2] exI [of _ ps2]) (simp add: bindS_def store_files_def)
qed

section \<open>The start of a session, and LK\<close>

definition set_preloader :: "u32 \<Rightarrow> 'p device \<Rightarrow> 'p device" where
  "set_preloader bldr_jump d = d\<lparr>dv_preloader := Some \<lparr>ptr_bldr_jump = bldr_jump\<rparr>\<rparr>"

lemma set_preloader_simps [simp]:
  "dv_params (set_preloader b d) = dv_params d" "dv_icept (set_preloader b d) = dv_icept d"
  "dv_preloader (set_preloader b d) = Some \<lparr>ptr_bldr_jump = b\<rparr>"
  by (simp_all add: set_preloader_def)

lemma preloader_params_linked:
  assumes "linked e d p" and "calls_keep_port e" and "ev_pl e" and "b \<noteq> 0"
  shows "\<exists>p'. send_acked (linked_ops e) (ev_codecs e) err (MSetParams (ParamsPreloader \<lparr>ptr_bldr_jump = b\<rparr>)) p = (Inr (), p') \<and>
    linked e (set_preloader b d) p'"
proof -
  let ?m = "MSetParams (ParamsPreloader \<lparr>ptr_bldr_jump = b\<rparr>)"
  have "handle_message e (d\<lparr>dv_proto := x\<rparr>) ?m = Some (RAck, (set_preloader b d)\<lparr>dv_proto := x\<rparr>)" for x
    using assms(3,4) by (simp add: handle_message_def do_set_params_def preloader_params_valid_def set_preloader_def)
  from send_acked_linked [OF assms(1,2) _ this, of err] show ?thesis by simp
qed

text \<open>Preloader pointer and images: where every session over the preloader starts.\<close>

lemma session_start_linked:
  assumes "linked e d p" and "calls_keep_port e" and "ev_pl e" and "b \<noteq> 0"
    and "length (st_upload st) \<le> free_slots (dv_params d)"
  shows "\<exists>p' ps. rpc_session ot (linked_ops e) (ev_codecs e) repl st b p =
      bindS (upload_lk (linked_ops e) (ev_codecs e) st) (\<lambda>(bootarg_base, bootarg_size).
      bindS (select_jump ot (linked_ops e) (ev_codecs e) st) (\<lambda>jump.
        case jump of
          None \<Rightarrow> repl
        | Some addr \<Rightarrow> send_jump (linked_ops e) (ev_codecs e) addr (Some bootarg_base) (Some bootarg_size))) p' \<and>
    linked e (set_params ps (set_mem (store_files (dv_mem d) (st_upload st)) (set_preloader b d))) p' \<and>
    reserved ps = reserved (dv_params d) \<union> set (map file_range (st_upload st)) \<and>
    free_slots (dv_params d) = free_slots ps + length (st_upload st) \<and> pp_memory ps = pp_memory (dv_params d)"
proof -
  from preloader_params_linked [OF assms(1-4), of ErrPreloaderParams] obtain p1 where
    p1: "send_acked (linked_ops e) (ev_codecs e) ErrPreloaderParams
        (MSetParams (ParamsPreloader \<lparr>ptr_bldr_jump = b\<rparr>)) p = (Inr (), p1)"
      "linked e (set_preloader b d) p1" by blast
  from upload_images_linked [OF p1(2) assms(2), of "st_upload st"] assms(5) obtain p2 ps where
    p2: "upload_images (linked_ops e) (ev_codecs e) (st_upload st) p1 = (Inr (), p2)"
      "linked e (set_params ps (set_mem (store_files (dv_mem d) (st_upload st)) (set_preloader b d))) p2"
      "reserved ps = reserved (dv_params d) \<union> set (map file_range (st_upload st))"
      "free_slots (dv_params d) = free_slots ps + length (st_upload st)" "pp_memory ps = pp_memory (dv_params d)" by auto
  show ?thesis
    using p1(1) p2 by (intro exI [of _ p2] exI [of _ ps]) (simp add: rpc_session_def bindS_def)
qed

text \<open>A range the search finds keeps clear of every reserved range.\<close>

lemma found_range_fresh:
  assumes "find_unused_range ps n = Some (a, b)" and "mr_end (pp_memory ps) \<noteq> 0xFFFFFFFF" and "r \<in> reserved ps"
  shows "bytes_of (a, a + n) \<inter> bytes_of r = {}"
proof -
  have inv: "bounded_memory ps" using assms(2) by (simp add: bounded_memory_def)
  note sound = find_unused_range_sound [OF inv assms(1)]
  have "unat (a + n) \<le> unat b"
    using sound(1) unat_u32_lt [of b] by (auto simp: aligned_size_def word_nat)
  then have "bytes_of (a, a + n) \<subseteq> bytes_of (a, b)" by (auto simp: bytes_of_def)
  with sound(4) bytes_of_taken [OF assms(3)] show ?thesis by blast
qed

text \<open>The \<open>k\<close> bytes at \<open>x\<close> lie in a reserved range. What the search finds keeps clear of them.\<close>

definition protected :: "PayloadParams \<Rightarrow> u32 \<Rightarrow> nat \<Rightarrow> bool" where
  "protected ps x k \<longleftrightarrow> (\<exists>r \<in> reserved ps. unat (fst r) \<le> unat x \<and> unat x + k \<le> unat (snd r))"

lemma protected_mono: "protected ps x k \<Longrightarrow> reserved ps \<subseteq> reserved qs \<Longrightarrow> protected qs x k"
  by (auto simp: protected_def)

lemma found_range_avoids:
  assumes "find_unused_range ps n = Some (a, b)" and "mr_end (pp_memory ps) \<noteq> 0xFFFFFFFF" and "protected ps x k"
  shows "apart x k a (unat n)"
proof -
  have inv: "bounded_memory ps" using assms(2) by (simp add: bounded_memory_def)
  note sound = find_unused_range_sound [OF inv assms(1)]
  from assms(3) obtain r where r: "r \<in> reserved ps" "unat (fst r) \<le> unat x" "unat x + k \<le> unat (snd r)"
    by (auto simp: protected_def)
  have top: "unat x + k < 2 ^ 32" using le_less_trans [OF r(3) unat_u32_lt] by simp
  have le: "unat n \<le> aligned_size n" by (rule aligned_size_ge)
  have b: "unat a + aligned_size n < 2 ^ 32" using sound(1) unat_u32_lt [of b] by simp
  have "{unat x..<unat x + k} \<subseteq> bytes_of r" using r by (auto simp: bytes_of_def)
  moreover have "bytes_of (a, b) = {unat a..<unat a + aligned_size n}" using sound(1) by (simp add: bytes_of_def)
  ultimately have disj: "{unat a..<unat a + aligned_size n} \<inter> {unat x..<unat x + k} = {}"
    using sound(4) bytes_of_taken [OF r(1)] by blast
  show ?thesis
  proof (cases "unat n = 0 \<or> k = 0")
    case True
    then show ?thesis by (auto simp: apart_def)
  next
    case False
    with le have pos: "0 < aligned_size n" "0 < k" by auto
    have "unat x + k \<le> unat a \<or> unat a + aligned_size n \<le> unat x"
    proof (rule ccontr)
      assume "\<not> ?thesis"
      then have "max (unat a) (unat x) \<in> {unat a..<unat a + aligned_size n} \<inter> {unat x..<unat x + k}"
        using pos by (auto simp: max_def)
      with disj show False by blast
    qed
    then show ?thesis
    proof
      assume "unat x + k \<le> unat a"
      then show ?thesis using le b by (intro apart_below) simp_all
    next
      assume "unat a + aligned_size n \<le> unat x"
      then show ?thesis using le top by (intro apart_above) simp_all
    qed
  qed
qed

lemma file_protected:
  assumes "file_range f \<in> reserved ps" and "file_fits f"
  shows "protected ps (fst f) (Suc (length (snd f)))"
proof -
  have fits: "unat (fst f) + length (snd f) + 1 < 2 ^ 32" using assms(2) by (simp add: file_fits_def)
  then have "unat (fst f + word_of_nat (length (snd f))) = unat (fst f) + length (snd f)" by (intro unat_add_small) simp
  moreover from this fits have "unat (fst f + word_of_nat (length (snd f)) + 1) = unat (fst f) + length (snd f) + 1"
    by (subst unat_u32_add_nowrap) simp_all
  ultimately show ?thesis using assms(1) by (auto simp: protected_def file_range_def intro!: bexI [of _ "file_range f"])
qed

text \<open>A part of a protected block is protected.\<close>

lemma protected_part:
  assumes "protected ps x k" and "unat x \<le> unat y" and "unat y + j \<le> unat x + k"
  shows "protected ps y j"
  using assms unfolding protected_def by (meson le_trans)

lemma found_range_apart:
  assumes "find_unused_range ps n = Some (a, b)" and "mr_end (pp_memory ps) \<noteq> 0xFFFFFFFF"
    and "file_range f \<in> reserved ps" and "file_fits f"
  shows "apart (fst f) (length (snd f)) a (unat n)"
  using found_range_avoids [OF assms(1,2) protected_part [OF file_protected [OF assms(3,4)]]] by simp

lemma length_as_bytes:
  assumes "get_for_soc soc mode sz n = Some arg"
  shows "length (as_bytes arg) < 2 ^ 32"
proof -
  have len: "length (struct_bytes fs) = sum_list (map field_align fs)" if "packed fs" for fs
    using struct_bytes_packed [OF that] by (simp add: length_concat_fields)
  show ?thesis
    using assms len [OF packed6572] len [OF packed6582] len [OF packed6595]
    by (auto simp: get_for_soc_def as_bytes_def argument_fields argument_values mblock_fields_def mem_desc_fields_def
        vcore_fields_def split: SoC.splits)
qed

text \<open>The final request: the device leaves through the preloader.\<close>

lemma final_jump_linked:
  assumes "linked e (set_params ps (set_mem m (set_preloader b d))) p" and "ev_pl e"
    and "\<And>d. ev_call e (b OR 1) [addr, base, sz] d = None"
  shows "\<exists>p'. send_jump (linked_ops e) (ev_codecs e) addr (Some base) (Some sz) p = (Inr (), p') \<and>
    handler_step e (pr_io p') = Left \<and>
    q_in (dv_queues (pr_io p')) = mframe (ev_codecs e) (MJump addr (Some base) (Some sz)) \<and> dv_mem (pr_io p') = m"
proof -
  have pl: "dv_preloader (set_params ps (set_mem m (set_preloader b d))) = Some \<lparr>ptr_bldr_jump = b\<rparr>" by simp
  from jump_linked [OF assms(1,2) pl, of addr "Some base" "Some sz"] assms(3) obtain p' where
    p': "send_jump (linked_ops e) (ev_codecs e) addr (Some base) (Some sz) p = (Inr (), p')"
      "handler_step e (pr_io p') = Left" "q_in (dv_queues (pr_io p')) = mframe (ev_codecs e) (MJump addr (Some base) (Some sz))"
      "same_but_port (set_params ps (set_mem m (set_preloader b d))) (pr_io p')"
    by (auto simp: unwrap_or_default_def)
  with same_but_port_simps [OF p'(4)] show ?thesis by simp
qed

text \<open>LK and its boot argument: either there is no range for the argument, or both are in memory.\<close>

lemma upload_lk_linked:
  assumes "linked e d p" and "calls_keep_port e" and "st_lk st = Some lk"
    and arg: "get_for_soc (st_soc st) (st_lk_mode st) (st_dram_size_per_rank st) (st_dram_ranks st) = Some arg"
    and "2 \<le> free_slots (dv_params d)"
  shows "(\<exists>p'. upload_lk (linked_ops e) (ev_codecs e) st p = (Inl (ErrFreeRange (word_of_nat (length (as_bytes arg)))), p')) \<or>
    (\<exists>p' ps ps' start stop. upload_lk (linked_ops e) (ev_codecs e) st p = (Inr (start, word_of_nat (length (as_bytes arg))), p') \<and>
      linked e (set_params ps' (set_mem (store_bytes (store_bytes (dv_mem d) (fst lk) (snd lk)) start (as_bytes arg)) d)) p' \<and>
      find_unused_range ps (word_of_nat (length (as_bytes arg))) = Some (start, stop) \<and>
      reserved ps = insert (file_range lk) (reserved (dv_params d)) \<and> pp_memory ps = pp_memory (dv_params d) \<and>
      reserved ps' = insert (start, start + word_of_nat (length (as_bytes arg)) + 1) (reserved ps) \<and>
      pp_memory ps' = pp_memory ps \<and> free_slots (dv_params d) = free_slots ps' + 2)"
proof -
  let ?n = "word_of_nat (length (as_bytes arg)) :: u32"
  let ?m = "store_bytes (dv_mem d) (fst lk) (snd lk)"
  have "0 < free_slots (dv_params d)" using assms(5) by simp
  from upload_image_linked [OF assms(1,2) this, of lk] obtain p1 ps where
    p1: "upload_image (linked_ops e) (ev_codecs e) lk p = (Inr (), p1)" "linked e (set_params ps (set_mem ?m d)) p1"
      "reserved ps = insert (file_range lk) (reserved (dv_params d))"
      "free_slots (dv_params d) = Suc (free_slots ps)" "pp_memory ps = pp_memory (dv_params d)" by blast
  from free_range_linked [OF p1(2) assms(2), of ?n] obtain p2 where
    p2: "free_range (linked_ops e) (ev_codecs e) ?n p1 =
        (case find_unused_range ps ?n of None \<Rightarrow> Inl (ErrFreeRange ?n) | Some r \<Rightarrow> Inr (fst r), p2)"
      "linked e (set_params ps (set_mem ?m d)) p2" by auto
  note unfold = upload_lk_def assms(3) arg Let_def some_or_def returnS_def
  show ?thesis
  proof (cases "find_unused_range ps ?n")
    case None
    with p1(1) p2(1) show ?thesis by (simp add: unfold bindS_def)
  next
    case (Some r)
    obtain start stop where r: "r = (start, stop)" by (rule prod.exhaust)
    have "0 < free_slots (dv_params (set_params ps (set_mem ?m d)))" using assms(5) p1(4) by simp
    from blacklist_dl_free [OF this, of "(start, start + ?n + 1)"] obtain ps' where
      ps': "blacklist_dl (dv_params (set_params ps (set_mem ?m d))) (start, start + ?n + 1) = Inr ps'"
      and rest: "reserved ps' = insert (start, start + ?n + 1) (reserved ps)" "free_slots ps = Suc (free_slots ps')"
        "pp_memory ps' = pp_memory ps" by auto
    from blacklist_linked [OF p2(2) assms(2) ps', of "ErrBlacklist (fst lk)"] obtain p3 where
      p3: "blacklist (linked_ops e) (ev_codecs e) (ErrBlacklist (fst lk)) start ?n p2 = (Inr (), p3)"
        "linked e (set_params ps' (set_mem ?m d)) p3" by auto
    from upload_linked [OF p3(2), of start "as_bytes arg"] obtain p4 where
      p4: "upload_to (linked_ops e) (ev_codecs e) start (as_bytes arg) p3 = (Inr (), p4)"
        "linked e (set_params ps' (set_mem (store_bytes ?m start (as_bytes arg)) d)) p4" by auto
    have "upload_lk (linked_ops e) (ev_codecs e) st p = (Inr (start, ?n), p4)"
      using p1(1) p2(1) p3(1) p4(1) Some r by (simp add: unfold bindS_def)
    with p4(2) Some r p1(3-5) rest show ?thesis by fastforce
  qed
qed

section \<open>Properties\<close>

text \<open>A session in preloader mode, end to end. On an idle link to the preloader's payload with a
  free slot for every image, the session uploads all images, reserves them, and succeeds; then the device
  has left through the preloader's jump function, called for the jump address, and its memory
  is the old one with the images stored in order, so that images that do not overlap are all there.\<close>

theorem preloader_session_boots_images:
  assumes "idle e p" and "calls_keep_port e" and "ev_pl e" and "bldr_jump \<noteq> 0"
    and "st_mode st = BootPreloader" and "st_lk st = None"
    and "length (st_upload st) \<le> free_slots (dv_params (pr_io p))"
    and "\<And>d. ev_call e (bldr_jump OR 1) [st_jump_addr st, 0, 0] d = None"
  shows "\<exists>p'. rpc_session ot (linked_ops e) (ev_codecs e) repl st bldr_jump p = (Inr (), p') \<and>
    handler_step e (pr_io p') = Left \<and>
    q_in (dv_queues (pr_io p')) = mframe (ev_codecs e) (MJump (st_jump_addr st) (Some 0) (Some 0)) \<and>
    dv_mem (pr_io p') = store_files (dv_mem (pr_io p)) (st_upload st) \<and>
    (files_apart (st_upload st) \<longrightarrow> (\<forall>f \<in> set (st_upload st). file_fits f) \<longrightarrow>
      (\<forall>f \<in> set (st_upload st). load_bytes (dv_mem (pr_io p')) (fst f) (length (snd f)) = snd f))"
proof -
  have "linked e (pr_io p) p" using assms(1) by (simp add: linked_def same_but_port_def)
  from session_start_linked [OF this assms(2-4,7), of ot repl] obtain p1 ps where
    p1: "rpc_session ot (linked_ops e) (ev_codecs e) repl st bldr_jump p =
        send_jump (linked_ops e) (ev_codecs e) (st_jump_addr st) (Some 0) (Some 0) p1"
      "linked e (set_params ps (set_mem (store_files (dv_mem (pr_io p)) (st_upload st)) (set_preloader bldr_jump (pr_io p)))) p1"
    by (auto simp: upload_lk_def select_jump_def assms(5,6) returnS_def bindS_def)
  from final_jump_linked [OF p1(2) assms(3,8)] p1(1) load_stored_file show ?thesis by auto
qed

text \<open>With LK, the boot argument and everything uploaded before it survive to the jump. The session
  fails only when the device finds no range for the argument; otherwise the device has left
  through the preloader's jump function, called for LK with address and size of the argument, the
  argument is at that address, and LK and every image are still intact, since the range the
  device hands out avoids all it was told to reserve, before the session too.\<close>

theorem lk_session_keeps_images:
  assumes "idle e p" and "calls_keep_port e" and "ev_pl e" and "bldr_jump \<noteq> 0"
    and "st_mode st = BootPreloader" and "st_lk st = Some lk"
    and "get_for_soc (st_soc st) (st_lk_mode st) (st_dram_size_per_rank st) (st_dram_ranks st) = Some arg"
    and "length (st_upload st) + 2 \<le> free_slots (dv_params (pr_io p))"
    and "mr_end (pp_memory (dv_params (pr_io p))) \<noteq> 0xFFFFFFFF"
    and "files_apart (st_upload st @ [lk])" and "\<forall>f \<in> set (st_upload st @ [lk]). file_fits f"
    and "\<And>d base sz. ev_call e (bldr_jump OR 1) [fst lk, base, sz] d = None"
  shows "\<exists>r p'. rpc_session ot (linked_ops e) (ev_codecs e) repl st bldr_jump p = (r, p') \<and>
    (r = Inl (ErrFreeRange (word_of_nat (length (as_bytes arg)))) \<or>
     (\<exists>start. r = Inr () \<and> handler_step e (pr_io p') = Left \<and>
       q_in (dv_queues (pr_io p')) =
         mframe (ev_codecs e) (MJump (fst lk) (Some start) (Some (word_of_nat (length (as_bytes arg))))) \<and>
       (\<forall>r \<in> reserved (dv_params (pr_io p)).
         bytes_of (start, start + word_of_nat (length (as_bytes arg))) \<inter> bytes_of r = {}) \<and>
       load_bytes (dv_mem (pr_io p')) start (length (as_bytes arg)) = as_bytes arg \<and>
       (\<forall>f \<in> set (st_upload st @ [lk]). load_bytes (dv_mem (pr_io p')) (fst f) (length (snd f)) = snd f)))"
proof -
  let ?n = "word_of_nat (length (as_bytes arg)) :: u32" and ?m = "store_files (dv_mem (pr_io p)) (st_upload st)"
  have n: "unat ?n = length (as_bytes arg)" using length_as_bytes [OF assms(7)] by (simp add: unat_of_nat)
  have "linked e (pr_io p) p" using assms(1) by (simp add: linked_def same_but_port_def)
  from session_start_linked [OF this assms(2-4), of st ot repl] assms(8) obtain p1 ps1 where
    p1: "rpc_session ot (linked_ops e) (ev_codecs e) repl st bldr_jump p =
        bindS (upload_lk (linked_ops e) (ev_codecs e) st) (\<lambda>(bootarg_base, bootarg_size).
          send_jump (linked_ops e) (ev_codecs e) (fst lk) (Some bootarg_base) (Some bootarg_size)) p1"
      "linked e (set_params ps1 (set_mem ?m (set_preloader bldr_jump (pr_io p)))) p1"
      "reserved ps1 = reserved (dv_params (pr_io p)) \<union> set (map file_range (st_upload st))"
      "2 \<le> free_slots ps1" "pp_memory ps1 = pp_memory (dv_params (pr_io p))"
    by (auto simp: select_jump_def assms(5,6))
  from upload_lk_linked [OF p1(2) assms(2,6,7)] p1(4) consider
    (full) p2 where "upload_lk (linked_ops e) (ev_codecs e) st p1 = (Inl (ErrFreeRange ?n), p2)"
    | (placed) p2 ps ps' start stop where "upload_lk (linked_ops e) (ev_codecs e) st p1 = (Inr (start, ?n), p2)"
      "linked e (set_params ps' (set_mem (store_bytes (store_bytes ?m (fst lk) (snd lk)) start (as_bytes arg))
        (set_preloader bldr_jump (pr_io p)))) p2"
      "find_unused_range ps ?n = Some (start, stop)" "reserved ps = insert (file_range lk) (reserved ps1)"
      "pp_memory ps = pp_memory ps1"
    by auto
  then show ?thesis
  proof cases
    case full
    then show ?thesis using p1(1) by (simp add: bindS_err)
  next
    case placed
    have files: "store_files m (st_upload st @ [lk]) = store_bytes (store_files m (st_upload st)) (fst lk) (snd lk)" for m
      by (simp add: store_files_def)
    from final_jump_linked [OF placed(2) assms(3), of "fst lk" start ?n] assms(12) obtain p3 where
      p3: "send_jump (linked_ops e) (ev_codecs e) (fst lk) (Some start) (Some ?n) p2 = (Inr (), p3)"
        "handler_step e (pr_io p3) = Left" "q_in (dv_queues (pr_io p3)) = mframe (ev_codecs e) (MJump (fst lk) (Some start) (Some ?n))"
        "dv_mem (pr_io p3) = store_bytes (store_files (dv_mem (pr_io p)) (st_upload st @ [lk])) start (as_bytes arg)"
      unfolding files by auto
    have "load_bytes (dv_mem (pr_io p3)) (fst f) (length (snd f)) = snd f" if f: "f \<in> set (st_upload st @ [lk])" for f
    proof -
      have "file_range f \<in> reserved ps" using f placed(4) p1(3) by auto
      with found_range_apart [OF placed(3), of f] placed(5) p1(5) assms(9,11) f n
      have "apart (fst f) (length (snd f)) start (length (as_bytes arg))" by auto
      then have "load_bytes (dv_mem (pr_io p3)) (fst f) (length (snd f)) =
          load_bytes (store_files (dv_mem (pr_io p)) (st_upload st @ [lk])) (fst f) (length (snd f))"
        unfolding p3(4) using length_as_bytes [OF assms(7)] by (intro ram.load_store_apart) auto
      then show ?thesis using load_stored_file [OF f assms(10,11)] by simp
    qed
    moreover have "bytes_of (start, start + ?n) \<inter> bytes_of r = {}" if "r \<in> reserved (dv_params (pr_io p))" for r
      using found_range_fresh [OF placed(3)] that placed(4,5) p1(3,5) assms(9) by simp
    moreover have "load_bytes (dv_mem (pr_io p3)) start (length (as_bytes arg)) = as_bytes arg"
      unfolding p3(4) using length_as_bytes [OF assms(7)] by (intro ram.load_store_same) simp
    moreover have "rpc_session ot (linked_ops e) (ev_codecs e) repl st bldr_jump p = (Inr (), p3)"
      using p1(1) placed(1) p3(1) by (simp add: bindS_ok)
    ultimately show ?thesis using p3(2,3) by blast
  qed
qed

text \<open>A host with one image, and LK behind it.\<close>

definition sample_state :: host_state where
  "sample_state =
     \<lparr>st_soc = MT6572, st_mode = BootPreloader, st_lk_mode = Normal, st_dram_size_per_rank = 0x20000000, st_dram_ranks = 1,
      st_upload = [(0x80200000, [1, 2, 3])], st_preloader = (0x2007500, [9]), st_lk = None, st_kernel = None,
      st_ramdisk = None, st_jump_addr = 0x80200000, st_params = params_default\<rparr>"

lemma sample_slots: "free_slots (dv_params (pr_io sample_host)) = 11"
  by (simp add: sample_host_def protocol_new_def sample_device_def sample_params_def free_slots_def
      blacklist_range_default_def replicate_numeral_unfold)

lemma fresh_device_idle:
  assumes "dv_proto d = protocol_new 24 \<lparr>q_in = [], q_out = []\<rparr>"
  shows "idle (sample_env pl) (protocol_new 24 d)"
proof -
  have "dv_proto d = dv_proto (sample_device [])" using assms by (simp add: sample_device_def)
  then show ?thesis
    using sample_host_idle [of pl] by (simp add: idle_def sample_host_def protocol_new_def proto_ok_def dv_queues_def)
qed

lemma preloader_session_boots_images_witness:
  "\<exists>p'. rpc_session sample_outside (linked_ops (sample_env True)) sample_codecs (Pair (Inr ())) sample_state 0x202000 sample_host = (Inr (), p') \<and>
     handler_step (sample_env True) (pr_io p') = Left \<and> load_bytes (dv_mem (pr_io p')) 0x80200000 3 = [1, 2, 3]"
proof -
  have c: "ev_codecs (sample_env True) = sample_codecs" "ev_pl (sample_env True)" "ev_call (sample_env True) a as d = None" for a as d
    by (simp_all add: sample_env_def)
  have st: "st_mode sample_state = BootPreloader" "st_lk sample_state = None" "st_upload sample_state = [(0x80200000, [1, 2, 3])]"
    by (simp_all add: sample_state_def)
  from preloader_session_boots_images [OF sample_host_idle sample_env_ok(2) c(2) _ st(1,2), of "0x202000" sample_outside "Pair (Inr ())"]
  show ?thesis by (auto simp: st(3) sample_slots c file_fits_def numeral_3_eq_3)
qed

lemma lk_session_keeps_images_witness:
  "\<exists>r p'. rpc_session sample_outside (linked_ops (sample_env True)) sample_codecs (Pair (Inr ()))
      (sample_state\<lparr>st_lk := Some (0x81E00000, [5, 6])\<rparr>) 0x202000 sample_host = (r, p') \<and>
    (r = Inr () \<longrightarrow> load_bytes (dv_mem (pr_io p')) 0x81E00000 2 = [5, 6] \<and>
      load_bytes (dv_mem (pr_io p')) 0x80200000 3 = [1, 2, 3])"
proof -
  let ?st = "sample_state\<lparr>st_lk := Some (0x81E00000, [5, 6])\<rparr>"
  have c: "ev_codecs (sample_env True) = sample_codecs" "ev_pl (sample_env True)" "ev_call (sample_env True) a as d = None" for a as d
    by (simp_all add: sample_env_def)
  have st: "st_mode ?st = BootPreloader" "st_lk ?st = Some (0x81E00000, [5, 6])" "st_upload ?st = [(0x80200000, [1, 2, 3])]"
    by (simp_all add: sample_state_def)
  have arg: "get_for_soc (st_soc ?st) (st_lk_mode ?st) (st_dram_size_per_rank ?st) (st_dram_ranks ?st) =
      Some (Arg6572 (lk6572 Normal 0x20000000 1))"
    by (simp add: sample_state_def get_for_soc_def)
  have mem: "mr_end (pp_memory (dv_params (pr_io sample_host))) \<noteq> 0xFFFFFFFF"
    by (simp add: sample_host_def protocol_new_def sample_device_def sample_params_def params_new_def memory_range_new_def)
  have "apart 0x80200000 3 0x81E00000 2" by (rule apart_below) simp_all
  then have apart: "apart 0x80200000 (Suc (Suc (Suc 0))) 0x81E00000 (Suc (Suc 0))"
    by (simp add: numeral_3_eq_3 numeral_2_eq_2)
  have files: "files_apart (st_upload ?st @ [(0x81E00000, [5, 6])])"
    "\<forall>f \<in> set (st_upload ?st @ [(0x81E00000, [5, 6])]). file_fits f"
    using apart by (simp_all add: st(3) file_fits_def)
  have nz: "(0x202000 :: u32) \<noteq> 0" and slots: "length (st_upload ?st) + 2 \<le> free_slots (dv_params (pr_io sample_host))"
    by (simp_all add: st(3) sample_slots)
  from lk_session_keeps_images [OF sample_host_idle sample_env_ok(2) c(2) nz st(1,2) arg slots mem files c(3), of sample_outside "Pair (Inr ())"]
  show ?thesis unfolding c(1) st(3) by (auto simp flip: numeral_2_eq_2)
qed

text \<open>The boot ROM mode uploads its images and stops there. Whatever jump address the command line
  gave, the run is the same; the images are stored and reserved, and the device is left idle in its
  loop, with no request outstanding.\<close>

theorem bootrom_mode_never_jumps:
  assumes "st_mode st = BootROM" and "st_upload st \<noteq> []"
    and "idle e p" and "calls_keep_port e" and "length (st_upload st) \<le> free_slots (dv_params (pr_io p))"
  shows "run_brom sg (st\<lparr>st_jump_addr := j\<rparr>) mode q ps =
      map_option (\<lambda>(r, q, s). (r, q, s\<lparr>st_jump_addr := j\<rparr>)) (run_brom sg st mode q ps) \<and>
    (\<exists>p'. brom_images (linked_ops e) (ev_codecs e) st p = (Inr (), p') \<and> idle e p' \<and>
      dv_mem (pr_io p') = store_files (dv_mem (pr_io p)) (st_upload st))"
proof
  show "run_brom sg (st\<lparr>st_jump_addr := j\<rparr>) mode q ps =
      map_option (\<lambda>(r, q, s). (r, q, s\<lparr>st_jump_addr := j\<rparr>)) (run_brom sg st mode q ps)"
    using assms(1) by (simp add: run_brom_def brom_params_def brom_images_def Let_def split: sum.split prod.split)
  have "linked e (pr_io p) p" using assms(3) by (simp add: linked_def same_but_port_def)
  from upload_images_linked [OF this assms(4,5)] obtain p' ps' where
    p': "upload_images (linked_ops e) (ev_codecs e) (st_upload st) p = (Inr (), p')"
      "linked e (set_params ps' (set_mem (store_files (dv_mem (pr_io p)) (st_upload st)) (pr_io p))) p'" by blast
  with linked_parts [OF p'(2)] assms(2)
  show "\<exists>p'. brom_images (linked_ops e) (ev_codecs e) st p = (Inr (), p') \<and> idle e p' \<and>
      dv_mem (pr_io p') = store_files (dv_mem (pr_io p)) (st_upload st)"
    by (auto simp: brom_images_def linked_def)
qed

lemma bootrom_mode_never_jumps_witness:
  "\<exists>p'. brom_images (linked_ops (sample_env False)) sample_codecs (sample_state\<lparr>st_mode := BootROM\<rparr>) sample_host = (Inr (), p') \<and>
     idle (sample_env False) p'"
proof -
  let ?st = "sample_state\<lparr>st_mode := BootROM\<rparr>"
  have c: "ev_codecs (sample_env False) = sample_codecs" by (simp add: sample_env_def)
  have "st_mode ?st = BootROM" "st_upload ?st \<noteq> []" "length (st_upload ?st) \<le> free_slots (dv_params (pr_io sample_host))"
    by (simp_all add: sample_state_def sample_slots)
  from conjunct2 [OF bootrom_mode_never_jumps [OF this(1,2) sample_host_idle [of False] sample_env_ok(2) this(3)]]
  show ?thesis unfolding c by blast
qed

end
