(* ===== verification/Hooks.thy ===== *)
theory Hooks
  imports Device
begin

text \<open>
  The hook on LK's partition reader, \<open>payloads/rpc/src/hooks.rs\<close>, which serves reads of the boot
  partition from memory. The partition lookup of LK is an argument. The lemmas say exactly which
  reads are served from memory, and what they return.
\<close>

text \<open>A read is served from memory and returns a size, goes to the original function (its
  address and arguments), or panics.\<close>

datatype hooked_read = Served u32 mem | Original u32 u32 u64 u32 u32 mem | Panicked

definition BOOTIMG :: "u8 list" where "BOOTIMG = [0x42, 0x4F, 0x4F, 0x54, 0x49, 0x4D, 0x47, 0]"
definition boot :: "u8 list" where "boot = [0x62, 0x6F, 0x6F, 0x74, 0]"

text \<open>The entry of the boot partition and the offset of its start block in it.\<close>

definition boot_entry :: "(u32 \<Rightarrow> u8 list \<Rightarrow> u32) \<Rightarrow> u32 \<Rightarrow> u32 \<times> u32" where
  "boot_entry get_partition f =
     (let part = get_partition f BOOTIMG
      in if part = 0 then (get_partition f boot, 0) else (part, 12))"

definition boot_address :: "mem \<Rightarrow> u32 \<times> u32 \<Rightarrow> u64" where
  "boot_address m entry = push_bit 9 (ucast (read32_unchecked m (fst entry + snd entry)))"

definition mt_part_generic_read :: "(u32 \<Rightarrow> u8 list \<Rightarrow> u32) \<Rightarrow> LKRunnerParams option \<Rightarrow> u32 \<times> 'h istate \<Rightarrow>
    u32 \<Rightarrow> u64 \<Rightarrow> u32 \<Rightarrow> u32 \<Rightarrow> hooked_read" where
  "mt_part_generic_read get_partition lk hook dev src dst sz =
     (case lk of
        None \<Rightarrow> Panicked
      | Some params \<Rightarrow>
          let m = is_mem (snd hook);
              entry = boot_entry get_partition (ptr_mt_part_get_partition params OR 1);
              delta = ucast (src - boot_address m entry) :: u32
          in if fst entry \<noteq> 0 \<and> delta \<le> 0x1000
             then Served sz (copy_nonoverlapping m (bootimg_scratch_addr params + delta) dst (unat sz))
             else Original (hook_original hook OR 1) dev src dst sz m)"

definition served_from_memory :: "hooked_read \<Rightarrow> bool" where
  "served_from_memory r = (case r of Served _ _ \<Rightarrow> True | _ \<Rightarrow> False)"

lemma unat_ucast_u64: "unat (ucast (x :: u64) :: u32) = unat x mod 2 ^ 32"
  by (simp add: unsigned_ucast_eq take_bit_eq_mod)

section \<open>Properties\<close>

text \<open>C21: What the hook does with every read. Without parameters it panics. It serves a read exactly when the boot
  partition is known and the distance of the read from the start of the partition, reduced modulo
  \<open>2 ^ 32\<close>, is at most a page (4096 included); then the destination holds the bytes of the image in memory at
  that reduced distance and no other byte changes. Any other read goes to the original function with unchanged arguments.
  So a read that lies a multiple of 4 GiB further away is served from memory too.\<close>

theorem boot_reads_come_from_memory:
  "case lk of
     None \<Rightarrow> mt_part_generic_read get_partition lk hook dev src dst sz = Panicked
   | Some params \<Rightarrow>
       let m = is_mem (snd hook); entry = boot_entry get_partition (ptr_mt_part_get_partition params OR 1);
           delta = unat (src - boot_address m entry) mod 2 ^ 32
       in if fst entry \<noteq> 0 \<and> delta \<le> 0x1000
          then \<exists>m'. mt_part_generic_read get_partition lk hook dev src dst sz = Served sz m' \<and>
            load_bytes m' dst (unat sz) = load_bytes m (bootimg_scratch_addr params + word_of_nat delta) (unat sz) \<and>
            (\<forall>x. unat sz \<le> unat (x - dst) \<longrightarrow> m' x = m x)
          else mt_part_generic_read get_partition lk hook dev src dst sz = Original (hook_original hook OR 1) dev src dst sz m"
proof (cases lk)
  case (Some params)
  define m where "m = is_mem (snd hook)"
  define entry where "entry = boot_entry get_partition (ptr_mt_part_get_partition params OR 1)"
  define delta where "delta = unat (src - boot_address m entry) mod 2 ^ 32"
  define d where "d = (ucast (src - boot_address m entry) :: u32)"
  have d: "unat d = delta" by (simp add: d_def delta_def unat_ucast_u64)
  then have le: "d \<le> 0x1000 \<longleftrightarrow> delta \<le> 0x1000" and dw: "d = word_of_nat delta"
    by (simp_all add: word_le_nat_alt flip: d)
  let ?bs = "load_bytes m (bootimg_scratch_addr params + d) (unat sz)"
  have read: "mt_part_generic_read get_partition lk hook dev src dst sz =
      (if fst entry \<noteq> 0 \<and> delta \<le> 0x1000 then Served sz (store_bytes m dst ?bs)
       else Original (hook_original hook OR 1) dev src dst sz m)"
    unfolding le [symmetric] by (simp add: mt_part_generic_read_def Some Let_def copy_nonoverlapping_def d_def entry_def m_def)
  have "load_bytes (store_bytes m dst ?bs) dst (unat sz) = ?bs"
    using ram.load_store_same [of ?bs m dst] by (simp add: less_imp_le)
  moreover have "store_bytes m dst ?bs x = m x" if "unat sz \<le> unat (x - dst)" for x
    using that store_bytes_apply [of ?bs m dst x] unat_u32_lt [of sz] by simp
  ultimately show ?thesis
    using read dw unfolding Some option.case Let_def m_def [symmetric] entry_def [symmetric] delta_def [symmetric] by auto
qed (simp add: mt_part_generic_read_def)

text \<open>A read four gigabytes behind the start of the boot partition is served from memory
  as if it were a read of the partition, because the distance is cut to 32 bits before it is compared.\<close>

theorem far_read_served_from_memory:
  assumes "lk = Some params" and "fst (boot_entry get_partition (ptr_mt_part_get_partition params OR 1)) \<noteq> 0"
    and "src = boot_address (is_mem (snd hook)) (boot_entry get_partition (ptr_mt_part_get_partition params OR 1)) + 0x100000000"
  shows "served_from_memory (mt_part_generic_read get_partition lk hook dev src dst sz)"
proof -
  have "ucast (0x100000000 :: u64) = (0 :: u32)" by (simp add: word_unat_eq_iff unat_ucast_u64)
  with assms show ?thesis by (simp add: mt_part_generic_read_def Let_def served_from_memory_def)
qed

definition sample_lk :: LKRunnerParams where
  "sample_lk = lk_params_new 0x81E00000 0x81E01000 0x84000000"

lemma far_read_served_from_memory_witness:
  "served_from_memory (mt_part_generic_read (\<lambda>f name. if name = boot then 0x81F00000 else 0) (Some sample_lk)
     (0, sample_istate) 0 0x100000000 0x80200000 16)"
  by (rule far_read_served_from_memory [OF refl])
    (simp_all add: boot_entry_def boot_address_def sample_istate_def read32_unchecked_def load_bytes_def upt_rec
      of_le32_def boot_def BOOTIMG_def)

lemma boot_reads_come_from_memory_witness:
  "\<exists>m'. mt_part_generic_read (\<lambda>f name. if name = boot then 0x81F00000 else 0) (Some sample_lk)
     (0, sample_istate) 0 0x800 0x80200000 16 = Served 16 m' \<and>
     load_bytes m' 0x80200000 16 = load_bytes (\<lambda>_. 0) 0x84000800 16 \<and> m' 0x80200010 = 0"
proof -
  let ?g = "\<lambda>f name. if name = boot then 0x81F00000 else 0 :: u32"
  have e: "boot_entry ?g (ptr_mt_part_get_partition sample_lk OR 1) = (0x81F00000, 0)"
    by (simp add: boot_entry_def boot_def BOOTIMG_def)
  have m: "is_mem (snd (0 :: u32, sample_istate)) = (\<lambda>_. 0)" by (simp add: sample_istate_def)
  have "boot_address (\<lambda>_. 0) (0x81F00000, 0) = 0"
    by (simp add: boot_address_def read32_unchecked_def load_bytes_def upt_rec of_le32_def)
  moreover note boot_reads_come_from_memory [where lk = "Some sample_lk" and get_partition = ?g and hook = "(0, sample_istate)" and
      dev = 0 and src = "0x800" and dst = "0x80200000" and sz = 16, unfolded option.case Let_def e m]
  ultimately obtain m' where "mt_part_generic_read ?g (Some sample_lk) (0, sample_istate) 0 0x800 0x80200000 16 = Served 16 m'"
    "load_bytes m' 0x80200000 16 = load_bytes (\<lambda>_. 0) (bootimg_scratch_addr sample_lk + 0x800) 16"
    "\<forall>x. 16 \<le> unat (x - 0x80200000) \<longrightarrow> m' x = 0" by auto
  then show ?thesis by (auto simp: sample_lk_def lk_params_new_def)
qed

end
