(* ===== verification/LkMode.thy ===== *)
theory LkMode
  imports Boot Hooks
begin

text \<open>
  The LK mode end to end: \<open>boot/rpc/selector.rs\<close> on the host drives \<open>rpc/src/usb.rs\<close> on the device until
  LK is hooked and started, and \<open>rpc/src/hooks.rs\<close> then answers LK's reads of the boot partition. The
  lemmas say what each step of the session adds to the device and what it leaves alone; the property
  is that LK boots the image the host sent.
\<close>

section \<open>What is in memory stays there\<close>

text \<open>From one state to the next reservations grow and no protected byte changes.\<close>

definition grows :: "PayloadParams \<Rightarrow> mem \<Rightarrow> PayloadParams \<Rightarrow> mem \<Rightarrow> bool" where
  "grows ps m qs m' \<longleftrightarrow> reserved ps \<subseteq> reserved qs \<and> pp_memory qs = pp_memory ps \<and>
     (\<forall>x k. protected ps x k \<longrightarrow> load_bytes m' x k = load_bytes m x k)"

text \<open>A file in protected memory, and one that is clear of everything protected.\<close>

definition placed :: "PayloadParams \<Rightarrow> mem \<Rightarrow> upload_file \<Rightarrow> bool" where
  "placed ps m f \<longleftrightarrow> protected ps (fst f) (length (snd f)) \<and> load_bytes m (fst f) (length (snd f)) = snd f"

definition fresh :: "PayloadParams \<Rightarrow> upload_file \<Rightarrow> bool" where
  "fresh ps f \<longleftrightarrow> (\<forall>x k. protected ps x k \<longrightarrow> apart x k (fst f) (length (snd f)))"

lemma grows_refl [simp]: "grows ps m ps m"
  by (simp add: grows_def)

lemma grows_trans: "grows ps m qs m' \<Longrightarrow> grows qs m' rs m'' \<Longrightarrow> grows ps m rs m''"
  unfolding grows_def using protected_mono by fastforce

lemma grows_protected: "grows ps m qs m' \<Longrightarrow> protected ps x k \<Longrightarrow> protected qs x k"
  using protected_mono by (auto simp: grows_def)

lemma placed_grows: "placed ps m f \<Longrightarrow> grows ps m qs m' \<Longrightarrow> placed qs m' f"
  using grows_protected [of ps m qs m'] by (simp add: placed_def grows_def)

lemma fresh_grows: "fresh qs f \<Longrightarrow> grows ps m qs m' \<Longrightarrow> fresh ps f"
  using grows_protected [of ps m qs m'] by (auto simp: fresh_def)

text \<open>Storing at a range the search found, and reserving it.\<close>

lemma store_found:
  assumes "find_unused_range ps (word_of_nat (length bs)) = Some (a, b)" and "mr_end (pp_memory ps) \<noteq> 0xFFFFFFFF"
    and "length bs < 2 ^ 32" and "reserved qs = insert (file_range (a, bs)) (reserved ps)" and "pp_memory qs = pp_memory ps"
  shows "grows ps m qs (store_bytes m a bs) \<and> placed qs (store_bytes m a bs) (a, bs) \<and> fresh ps (a, bs)"
proof -
  have n: "unat (word_of_nat (length bs) :: u32) = length bs" using assms(3) by (simp add: unat_of_nat)
  have fresh: "fresh ps (a, bs)"
    using found_range_avoids [OF assms(1,2)] by (simp add: fresh_def n)
  have inv: "bounded_memory ps" using assms(2) by (simp add: bounded_memory_def)
  note sound = find_unused_range_sound [OF inv assms(1)]
  have "unat (mr_end (pp_memory ps)) \<noteq> 4294967295" using assms(2) unat_u32_eq_max by blast
  with unat_u32_lt [of "mr_end (pp_memory ps)"] have "unat (mr_end (pp_memory ps)) < 4294967295" by linarith
  then have "file_fits (a, bs)"
    using sound(1,3) aligned_size_ge [of "word_of_nat (length bs)"] by (simp add: file_fits_def n)
  then have p: "protected qs a (length bs)"
    using protected_part [OF file_protected [of "(a, bs)" qs]] assms(4) by simp
  have le: "length bs \<le> 2 ^ 32" using assms(3) by simp
  from p have "placed qs (store_bytes m a bs) (a, bs)" by (simp add: placed_def ram.load_store_same [OF le])
  moreover have "grows ps m qs (store_bytes m a bs)"
    using fresh ram.load_store_apart [OF le] assms(4,5) by (auto simp: grows_def fresh_def)
  ultimately show ?thesis using fresh by simp
qed

section \<open>The steps of the LK mode\<close>

text \<open>LK and its boot argument, which touches nothing that is protected by then.\<close>

lemma upload_lk_placed:
  assumes "linked e d p" and "calls_keep_port e" and "st_lk st = Some lk"
    and "get_for_soc (st_soc st) (st_lk_mode st) (st_dram_size_per_rank st) (st_dram_ranks st) = Some arg"
    and "2 \<le> free_slots (dv_params d)" and "mr_end (pp_memory (dv_params d)) \<noteq> 0xFFFFFFFF"
  shows "(\<exists>p'. upload_lk (linked_ops e) (ev_codecs e) st p = (Inl (ErrFreeRange (word_of_nat (length (as_bytes arg)))), p')) \<or>
    (\<exists>p' ps ps' m' start. upload_lk (linked_ops e) (ev_codecs e) st p = (Inr (start, word_of_nat (length (as_bytes arg))), p') \<and>
      linked e (set_params ps' (set_mem m' d)) p' \<and> reserved ps = insert (file_range lk) (reserved (dv_params d)) \<and>
      grows ps (store_bytes (dv_mem d) (fst lk) (snd lk)) ps' m' \<and> placed ps' m' (start, as_bytes arg) \<and>
      fresh ps (start, as_bytes arg) \<and> free_slots (dv_params d) = free_slots ps' + 2 \<and> pp_memory ps' = pp_memory (dv_params d))"
proof -
  from upload_lk_linked [OF assms(1-5)] show ?thesis
  proof (elim disjE exE conjE)
    fix p' ps ps' start stop
    assume a: "upload_lk (linked_ops e) (ev_codecs e) st p = (Inr (start, word_of_nat (length (as_bytes arg))), p')"
      "linked e (set_params ps' (set_mem (store_bytes (store_bytes (dv_mem d) (fst lk) (snd lk)) start (as_bytes arg)) d)) p'"
      "find_unused_range ps (word_of_nat (length (as_bytes arg))) = Some (start, stop)"
      "reserved ps = insert (file_range lk) (reserved (dv_params d))" "pp_memory ps = pp_memory (dv_params d)"
      "reserved ps' = insert (start, start + word_of_nat (length (as_bytes arg)) + 1) (reserved ps)"
      "pp_memory ps' = pp_memory ps" "free_slots (dv_params d) = free_slots ps' + 2"
    have "mr_end (pp_memory ps) \<noteq> 0xFFFFFFFF" using assms(6) a(5) by simp
    from store_found [OF a(3) this length_as_bytes [OF assms(4)], of ps'] a(6,7)
    have "grows ps m ps' (store_bytes m start (as_bytes arg)) \<and> placed ps' (store_bytes m start (as_bytes arg)) (start, as_bytes arg) \<and>
        fresh ps (start, as_bytes arg)" for m by (simp add: file_range_def)
    with a show ?thesis by (intro disjI2) (metis (no_types, lifting))
  qed blast
qed

text \<open>What LK boots: the image made from kernel and ramdisk, or the first one uploaded.\<close>

definition boot_content :: "outside \<Rightarrow> host_state \<Rightarrow> u8 list option" where
  "boot_content ot st =
     (case st_kernel st of
        Some zimage \<Rightarrow> ot_mkbootimg ot zimage (case st_ramdisk st of Some ramdisk \<Rightarrow> ramdisk | None \<Rightarrow> replicate 1024 0)
      | None \<Rightarrow> (case st_upload st of [] \<Rightarrow> None | f # _ \<Rightarrow> Some (snd f)))"

lemma boot_image_placed:
  assumes "linked e d p" and "calls_keep_port e" and "boot_content ot st = Some img" and "length img < 2 ^ 32"
    and "0 < free_slots (dv_params d)" and "mr_end (pp_memory (dv_params d)) \<noteq> 0xFFFFFFFF"
    and "\<forall>f \<in> set (st_upload st). placed (dv_params d) (dv_mem d) f"
  shows "(\<exists>n p'. boot_image ot (linked_ops e) (ev_codecs e) st p = (Inl (ErrFreeRange n), p')) \<or>
    (\<exists>a p' ps m. boot_image ot (linked_ops e) (ev_codecs e) st p = (Inr a, p') \<and> linked e (set_params ps (set_mem m d)) p' \<and>
      grows (dv_params d) (dv_mem d) ps m \<and> placed ps m (a, img) \<and> ((a, img) \<in> set (st_upload st) \<or>
        fresh (dv_params d) (a, img) \<and> mr_start (pp_memory (dv_params d)) \<le> a))"
proof (cases "st_kernel st")
  case None
  with assms(3) obtain a fs where up: "st_upload st = (a, img) # fs" by (auto simp: boot_content_def split: list.splits)
  have "linked e (set_params (dv_params d) (set_mem (dv_mem d) d)) p" using assms(1) by (simp add: set_params_def set_mem_def)
  moreover have "boot_image ot (linked_ops e) (ev_codecs e) st p = (Inr a, p)"
    by (simp add: boot_image_def None up some_or_def returnS_def)
  ultimately show ?thesis using assms(7) up grows_refl
    by (intro disjI2 exI [of _ a] exI [of _ p] exI [of _ "dv_params d"] exI [of _ "dv_mem d"]) simp
next
  case (Some zimage)
  let ?n = "word_of_nat (length img) :: u32"
  have mk: "ot_mkbootimg ot zimage (case st_ramdisk st of Some ramdisk \<Rightarrow> ramdisk | None \<Rightarrow> replicate 1024 0) = Some img"
    using assms(3) Some by (simp add: boot_content_def)
  from free_range_linked [OF assms(1,2), of ?n] obtain p1 where
    p1: "free_range (linked_ops e) (ev_codecs e) ?n p =
        (case find_unused_range (dv_params d) ?n of None \<Rightarrow> Inl (ErrFreeRange ?n) | Some r \<Rightarrow> Inr (fst r), p1)"
      "linked e d p1" by blast
  note unfold = boot_image_def Some Let_def some_or_def mk
  show ?thesis
  proof (cases "find_unused_range (dv_params d) ?n")
    case None
    with p1(1) show ?thesis by (simp add: unfold bindS_def)
  next
    case f: (Some r)
    obtain a b where r: "r = (a, b)" by (rule prod.exhaust)
    from upload_linked [OF p1(2), of a img] obtain p2 where
      p2: "upload_to (linked_ops e) (ev_codecs e) a img p1 = (Inr (), p2)"
        "linked e (set_mem (store_bytes (dv_mem d) a img) d) p2" by blast
    have "0 < free_slots (dv_params (set_mem (store_bytes (dv_mem d) a img) d))" using assms(5) by (simp add: set_mem_def)
    from blacklist_dl_free [OF this, of "(a, a + ?n + 1)"] obtain ps where
      ps: "blacklist_dl (dv_params (set_mem (store_bytes (dv_mem d) a img) d)) (a, a + ?n + 1) = Inr ps"
        "reserved ps = insert (file_range (a, img)) (reserved (dv_params d))" "pp_memory ps = pp_memory (dv_params d)"
      by (auto simp: file_range_def set_mem_def)
    from blacklist_linked [OF p2(2) assms(2) ps(1), of ErrBlacklistBootImg] obtain p3 where
      p3: "blacklist (linked_ops e) (ev_codecs e) ErrBlacklistBootImg a ?n p2 = (Inr (), p3)"
        "linked e (set_params ps (set_mem (store_bytes (dv_mem d) a img) d)) p3" by blast
    have "boot_image ot (linked_ops e) (ev_codecs e) st p = (Inr a, p3)"
      using p1(1) p2(1) p3(1) f r by (simp add: unfold bindS_def step_defs)
    moreover have "mr_start (pp_memory (dv_params d)) \<le> a"
      using find_unused_range_sound(2) [OF _ f [unfolded r]] assms(6) by (simp add: bounded_memory_def word_le_nat_alt)
    ultimately show ?thesis
      using store_found [OF f [unfolded r] assms(6,4) ps(2,3), of "dv_mem d"] p3(2) by blast
  qed
qed

text \<open>LK's pointers and the hook: the device stores the pointers and patches LK.\<close>

definition hook_memory :: "u32 \<Rightarrow> u32 \<Rightarrow> u32 \<Rightarrow> mem \<Rightarrow> mem" where
  "hook_memory code t body m =
     store_bytes (store_bytes m code (code_bytes (trampoline_code m t))) t (code_bytes (patch_code t body))"

lemma odd_or_1: "(g OR 1) AND 1 = (1 :: u32)" "(g OR 1) OR 1 = (g OR 1 :: u32)"
  by (rule bit_word_eqI, auto simp: bit_simps)+

lemma lk_hooks_linked:
  assumes "linked e d p" and "calls_keep_port e" and "ev_pl e"
    and "an_generic_read (ot_analysis ot) = Some g" and "get_partition_ptr (ot_analysis ot) (st_soc st) = Inr gp"
    and "start \<noteq> 0" and "bump_inv hi (is_heap (dv_icept d))"
    and "alloc (is_heap (dv_icept d)) \<lparr>ly_size = 64, ly_align = 4\<rparr> = (code, h)"
    and "window_apart (unmask_thumb2 (g OR 1)) code"
  shows "\<exists>p' s. lk_hooks ot (linked_ops e) (ev_codecs e) st start p = (Inr (), p') \<and>
    linked e (d\<lparr>dv_lk := Some (lk_params_new (g OR 1) (gp OR 1) start), dv_addr := g OR 1, dv_icept := s\<rparr>) p' \<and>
    is_mem s = hook_memory code (unmask_thumb2 (g OR 1)) (ev_body e) (dv_mem d)"
proof -
  let ?l = "lk_params_new (g OR 1) (gp OR 1) start"
  define d1 where "d1 = d\<lparr>dv_lk := Some ?l\<rparr>"
  have nz: "x OR 1 \<noteq> (0 :: u32)" for x using odd_or_1(1) [of x] by (intro notI) simp
  have odd: "(g OR 1) AND 1 \<noteq> 0" by (simp add: odd_or_1)
  have "handle_message e (d\<lparr>dv_proto := x\<rparr>) (MSetParams (ParamsLK ?l)) = Some (RAck, d1\<lparr>dv_proto := x\<rparr>)" for x
    using assms(3,6) nz by (simp add: handle_message_def do_set_params_def lk_params_valid_def lk_params_new_def d1_def)
  from send_acked_linked [OF assms(1,2) _ this, of ErrLkParams] obtain p1 where
    p1: "send_acked (linked_ops e) (ev_codecs e) ErrLkParams (MSetParams (ParamsLK ?l)) p = (Inr (), p1)" "linked e d1 p1"
    by auto
  from replace_odd [where allocate = alloc and f = "ev_body e" and s = "dv_icept d",
      OF odd refl assms(8) bump_block_aligned [OF assms(7,8)] assms(9)]
  obtain s where s: "replace alloc (g OR 1) (ev_body e) (dv_icept d) = Some (Inr (), s)"
    "is_mem s = hook_memory code (unmask_thumb2 (g OR 1)) (ev_body e) (dv_mem d)"
    by (auto simp: hook_memory_def)
  let ?d = "d1\<lparr>dv_addr := g OR 1, dv_icept := s\<rparr>"
  have "handle_message e (d1\<lparr>dv_proto := x\<rparr>) (MHook MtPartGenericRead) = Some (RAck, ?d\<lparr>dv_proto := x\<rparr>)" for x
    using assms(3) s(1) by (simp add: handle_message_def do_hook_def d1_def lk_params_new_def odd_or_1 hook_replace_def)
  from request_linked [OF p1(2) assms(2) _ this] obtain p2 p3 where
    p3: "send (linked_ops e) (ev_codecs e) (MHook MtPartGenericRead) p1 = (Inr (), p2)"
      "read_response (linked_ops e) (ev_codecs e) p2 = (Inr RAck, p3)" "linked e ?d p3" by auto
  have "lk_hooks ot (linked_ops e) (ev_codecs e) st start p = (Inr (), p3)"
    using p1(1) p3(1,2)
    by (simp add: lk_hooks_def assms(4,5) some_or_def bindS_def receive_def step_defs response_is_ack_def)
  with p3(3) s(2) show ?thesis unfolding d1_def by auto
qed

text \<open>Patching LK changes the block on the heap and the first ten bytes of the function.\<close>

lemma hook_memory_outside:
  assumes "64 \<le> unat (x - code)" and "10 \<le> unat (x - t)"
  shows "hook_memory code t body m x = m x"
  using assms length_trampoline_code [of m t] length_patch_code [of t body]
  by (simp add: hook_memory_def store_bytes_apply)

lemma hook_memory_apart:
  "apart x k code 64 \<Longrightarrow> apart x k t 10 \<Longrightarrow> load_bytes (hook_memory code t body m) x k = load_bytes m x k"
  by (simp add: load_bytes_def apart_def hook_memory_outside)

lemma hook_memory_patch:
  "load_bytes (hook_memory code t body m) t (length (code_bytes (patch_code t body))) = code_bytes (patch_code t body)"
  using length_patch_code [of t body] unfolding hook_memory_def by (intro ram.load_store_same) simp

section \<open>LK reads\<close>

lemma load_bytes_part:
  assumes "i + j \<le> n"
  shows "load_bytes m (a + word_of_nat i) j = take j (drop i (load_bytes m a n))"
  using assms by (intro nth_equalityI) (simp_all add: load_bytes_def add.assoc)

text \<open>A read of the boot partition within a page of its start gets the bytes at the scratch address.\<close>

lemma read_served:
  assumes "fst (boot_entry get_partition (ptr_mt_part_get_partition l OR 1)) \<noteq> 0"
    and "src - boot_address (is_mem s) (boot_entry get_partition (ptr_mt_part_get_partition l OR 1)) = word_of_nat i"
    and "i \<le> 0x1000" and "i + unat sz \<le> length img"
    and "load_bytes (is_mem s) (bootimg_scratch_addr l) (length img) = img"
  shows "\<exists>m'. mt_part_generic_read get_partition (Some l) (addr, s) dev src dst sz = Served sz m' \<and>
    load_bytes m' dst (unat sz) = take (unat sz) (drop i img)"
proof -
  have d: "(ucast (word_of_nat i :: u64) :: u32) = word_of_nat i"
    using assms(3) by (simp add: word_unat_eq_iff unat_ucast_u64 unat_of_nat)
  have le: "(word_of_nat i :: u32) \<le> 0x1000" using assms(3) by (simp add: word_le_nat_alt unat_of_nat)
  from load_bytes_part [OF assms(4), of "is_mem s" "bootimg_scratch_addr l"] assms(5)
  have "load_bytes (is_mem s) (bootimg_scratch_addr l + word_of_nat i) (unat sz) = take (unat sz) (drop i img)" by simp
  moreover have "length (load_bytes m a (unat sz)) \<le> 2 ^ 32" for m a by (simp add: less_imp_le)
  ultimately show ?thesis
    using assms(1-3) d le ram.load_store_same [of "take (unat sz) (drop i img)" "is_mem s" dst] assms(4)
    by (simp add: mt_part_generic_read_def Let_def copy_nonoverlapping_def)
qed

section \<open>The session\<close>

lemma select_lk_linked:
  assumes "linked e d p" and "calls_keep_port e" and "ev_pl e" and "st_mode st = BootLK" and "st_lk st = Some lk"
    and "boot_content ot st = Some img" and "length img < 2 ^ 32" and "0 < free_slots (dv_params d)"
    and "mr_end (pp_memory (dv_params d)) \<noteq> 0xFFFFFFFF" and "mr_start (pp_memory (dv_params d)) \<noteq> 0"
    and "\<forall>f \<in> set (st_upload st). placed (dv_params d) (dv_mem d) f \<and> fst f \<noteq> 0"
    and "an_generic_read (ot_analysis ot) = Some g" and "get_partition_ptr (ot_analysis ot) (st_soc st) = Inr gp"
    and "bump_inv hi (is_heap (dv_icept d))" and "alloc (is_heap (dv_icept d)) \<lparr>ly_size = 64, ly_align = 4\<rparr> = (code, h)"
    and "window_apart (unmask_thumb2 (g OR 1)) code"
  shows "(\<exists>n p'. select_jump ot (linked_ops e) (ev_codecs e) st p = (Inl (ErrFreeRange n), p')) \<or>
    (\<exists>a p' ps m s. select_jump ot (linked_ops e) (ev_codecs e) st p = (Inr (Some (fst lk)), p') \<and>
      linked e ((set_params ps (set_mem m d))
        \<lparr>dv_lk := Some (lk_params_new (g OR 1) (gp OR 1) a), dv_addr := g OR 1, dv_icept := s\<rparr>) p' \<and>
      grows (dv_params d) (dv_mem d) ps m \<and> placed ps m (a, img) \<and>
      ((a, img) \<in> set (st_upload st) \<or> fresh (dv_params d) (a, img)) \<and>
      is_mem s = hook_memory code (unmask_thumb2 (g OR 1)) (ev_body e) m)"
proof -
  have "\<forall>f \<in> set (st_upload st). placed (dv_params d) (dv_mem d) f" using assms(11) by blast
  from boot_image_placed [OF assms(1,2,6-9) this] consider
    (full) n p' where "boot_image ot (linked_ops e) (ev_codecs e) st p = (Inl (ErrFreeRange n), p')"
    | (image) a p1 ps m where "boot_image ot (linked_ops e) (ev_codecs e) st p = (Inr a, p1)"
      "linked e (set_params ps (set_mem m d)) p1" "grows (dv_params d) (dv_mem d) ps m" "placed ps m (a, img)"
      "(a, img) \<in> set (st_upload st) \<or> fresh (dv_params d) (a, img) \<and> mr_start (pp_memory (dv_params d)) \<le> a"
    by blast
  then show ?thesis
  proof cases
    case full
    then show ?thesis by (simp add: select_jump_def assms(4,5) bindS_def)
  next
    case image
    have "a \<noteq> 0" using image(5) assms(10,11) by auto
    from lk_hooks_linked [OF image(2) assms(2,3,12,13) this _ _ assms(16), of hi h] assms(14,15) obtain p2 s where
      "lk_hooks ot (linked_ops e) (ev_codecs e) st a p1 = (Inr (), p2)"
      "linked e ((set_params ps (set_mem m d))
        \<lparr>dv_lk := Some (lk_params_new (g OR 1) (gp OR 1) a), dv_addr := g OR 1, dv_icept := s\<rparr>) p2"
      "is_mem s = hook_memory code (unmask_thumb2 (g OR 1)) (ev_body e) m"
      by (auto simp: set_mem_def)
    with image show ?thesis by (intro disjI2) (auto simp: select_jump_def assms(4,5) bindS_def step_defs)
  qed
qed

lemma files_placed:
  assumes "f \<in> set fs" and "files_apart fs" and "\<forall>g \<in> set fs. file_fits g" and "set (map file_range fs) \<subseteq> reserved ps"
  shows "placed ps (store_files m fs) f"
proof -
  have "protected ps (fst f) (Suc (length (snd f)))" using assms by (intro file_protected) auto
  then have "protected ps (fst f) (length (snd f))" by (rule protected_part) simp_all
  with load_stored_file [OF assms(1-3)] show ?thesis by (simp add: placed_def)
qed

lemma files_apart_last: "files_apart (fs @ [g]) \<Longrightarrow> f \<in> set fs \<Longrightarrow> apart (fst f) (length (snd f)) (fst g) (length (snd g))"
  by (induction fs) auto

text \<open>A block apart from a file is apart from any part of it.\<close>

lemma apart_inside:
  assumes "apart a n b k" and "k \<le> 2 ^ 32" and "unat b \<le> unat t" and "unat t + j \<le> unat b + k" and "n \<le> 2 ^ 32"
  shows "apart a n t j"
proof -
  have "t = b + word_of_nat (unat t - unat b)" using assms(3) by (simp add: word_unat_eq_iff of_nat_diff)
  moreover have "apart (b + word_of_nat (unat t - unat b)) j a n"
    by (rule apart_part [OF apart_sym [OF assms(1,2)]]) (use assms(3,4) in simp_all)
  ultimately have "apart t j a n" by simp
  then show ?thesis using assms(5) by (rule apart_sym)
qed

text \<open>The device as the session leaves it: what is still in memory, and what the hook will answer.\<close>

definition lk_hooked :: "'p env \<Rightarrow> u32 \<Rightarrow> upload_file \<Rightarrow> 'p device \<Rightarrow> bool" where
  "lk_hooked e g lk d \<longleftrightarrow>
     (let t = unmask_thumb2 (g OR 1); patch = code_bytes (patch_code t (ev_body e))
      in dv_addr d = g OR 1 \<and> load_bytes (dv_mem d) t (length patch) = patch \<and>
         (\<forall>i < length (snd lk). 10 \<le> unat (fst lk + word_of_nat i - t) \<longrightarrow> dv_mem d (fst lk + word_of_nat i) = snd lk ! i))"

lemma hooked_device:
  assumes "placed ps m lk" and "apart (fst lk) (length (snd lk)) code 64"
    and "dv_addr d = g OR 1" and "dv_mem d = hook_memory code (unmask_thumb2 (g OR 1)) (ev_body e) m"
  shows "lk_hooked e g lk d"
proof -
  have "m (fst lk + word_of_nat i) = snd lk ! i" if "i < length (snd lk)" for i
  proof -
    have "load_bytes m (fst lk) (length (snd lk)) ! i = snd lk ! i" using assms(1) by (simp add: placed_def)
    with that show ?thesis by (simp add: load_bytes_def)
  qed
  moreover have "64 \<le> unat (fst lk + word_of_nat i - code)" if "i < length (snd lk)" for i
    using assms(2) that by (simp add: apart_def)
  ultimately show ?thesis
    using hook_memory_patch [of code "unmask_thumb2 (g OR 1)" "ev_body e" m]
    by (auto simp: lk_hooked_def Let_def assms(3,4) hook_memory_outside)
qed

text \<open>Everything up to the \<open>match\<close> over the mode: the images, LK and the boot argument are in place.\<close>

lemma lk_uploaded:
  assumes "linked e d p" and "calls_keep_port e" and "ev_pl e" and "b \<noteq> 0" and "st_lk st = Some lk"
    and "get_for_soc (st_soc st) (st_lk_mode st) (st_dram_size_per_rank st) (st_dram_ranks st) = Some arg"
    and "length (st_upload st) + 3 \<le> free_slots (dv_params d)" and "mr_end (pp_memory (dv_params d)) \<noteq> 0xFFFFFFFF"
    and "files_apart (st_upload st @ [lk])" and "\<forall>f \<in> set (st_upload st @ [lk]). file_fits f"
  defines "n \<equiv> word_of_nat (length (as_bytes arg))"
  shows "(\<exists>p'. rpc_session ot (linked_ops e) (ev_codecs e) repl st b p = (Inl (ErrFreeRange n), p')) \<or>
    (\<exists>p' ps0 ps m start. rpc_session ot (linked_ops e) (ev_codecs e) repl st b p =
        bindS (select_jump ot (linked_ops e) (ev_codecs e) st) (\<lambda>jump. case jump of None \<Rightarrow> repl
          | Some addr \<Rightarrow> send_jump (linked_ops e) (ev_codecs e) addr (Some start) (Some n)) p' \<and>
      linked e (set_params ps (set_mem m (set_preloader b d))) p' \<and>
      reserved (dv_params d) \<union> set (map file_range (st_upload st @ [lk])) \<subseteq> reserved ps0 \<and>
      (\<forall>f \<in> set (st_upload st @ [lk, (start, as_bytes arg)]). placed ps m f) \<and> fresh ps0 (start, as_bytes arg) \<and>
      (\<forall>f. fresh ps f \<longrightarrow> fresh ps0 f) \<and> 0 < free_slots ps \<and> pp_memory ps = pp_memory (dv_params d))"
proof -
  let ?M = "store_files (dv_mem d) (st_upload st)"
  from session_start_linked [OF assms(1-4), of st ot repl] assms(7) obtain p1 ps1 where
    p1: "rpc_session ot (linked_ops e) (ev_codecs e) repl st b p =
        bindS (upload_lk (linked_ops e) (ev_codecs e) st) (\<lambda>(bootarg_base, bootarg_size).
        bindS (select_jump ot (linked_ops e) (ev_codecs e) st) (\<lambda>jump. case jump of None \<Rightarrow> repl
          | Some addr \<Rightarrow> send_jump (linked_ops e) (ev_codecs e) addr (Some bootarg_base) (Some bootarg_size))) p1"
    and d1: "linked e (set_params ps1 (set_mem ?M (set_preloader b d))) p1"
    and ps1: "reserved ps1 = reserved (dv_params d) \<union> set (map file_range (st_upload st))"
      "3 \<le> free_slots ps1" "pp_memory ps1 = pp_memory (dv_params d)" by auto
  let ?d1 = "set_params ps1 (set_mem ?M (set_preloader b d))"
  have "2 \<le> free_slots (dv_params ?d1)" "mr_end (pp_memory (dv_params ?d1)) \<noteq> 0xFFFFFFFF" using ps1 assms(8) by simp_all
  from upload_lk_placed [OF d1 assms(2,5,6) this] consider
    (full) p2 where "upload_lk (linked_ops e) (ev_codecs e) st p1 = (Inl (ErrFreeRange n), p2)"
    | (up) p2 ps ps2 m2 start where "upload_lk (linked_ops e) (ev_codecs e) st p1 = (Inr (start, n), p2)"
      "linked e (set_params ps2 (set_mem m2 ?d1)) p2" "reserved ps = insert (file_range lk) (reserved ps1)"
      "grows ps (store_bytes ?M (fst lk) (snd lk)) ps2 m2" "placed ps2 m2 (start, as_bytes arg)"
      "fresh ps (start, as_bytes arg)" "0 < free_slots ps2" "pp_memory ps2 = pp_memory ps1"
    using ps1(2) by (auto simp: n_def)
  then show ?thesis
  proof cases
    case full
    then show ?thesis using p1 by (simp add: bindS_err)
  next
    case up
    have "placed ps (store_files (dv_mem d) (st_upload st @ [lk])) f" if "f \<in> set (st_upload st @ [lk])" for f
      using that assms(9,10) up(3) ps1(1) by (intro files_placed) auto
    then have placed: "\<forall>f \<in> set (st_upload st @ [lk, (start, as_bytes arg)]). placed ps2 m2 f"
      using placed_grows [OF _ up(4)] up(5) by (auto simp: store_files_def)
    have res: "reserved (dv_params d) \<union> set (map file_range (st_upload st @ [lk])) \<subseteq> reserved ps"
      using up(3) ps1(1) by auto
    have "linked e (set_params ps2 (set_mem m2 (set_preloader b d))) p2" using up(2) by simp
    moreover have "\<forall>f. fresh ps2 f \<longrightarrow> fresh ps f" using fresh_grows [OF _ up(4)] by blast
    moreover have "pp_memory ps2 = pp_memory (dv_params d)" using up(8) ps1(3) by simp
    moreover have "rpc_session ot (linked_ops e) (ev_codecs e) repl st b p =
        bindS (select_jump ot (linked_ops e) (ev_codecs e) st) (\<lambda>jump. case jump of None \<Rightarrow> repl
          | Some addr \<Rightarrow> send_jump (linked_ops e) (ev_codecs e) addr (Some start) (Some n)) p2"
      using p1 up(1) by (simp add: bindS_ok)
    ultimately show ?thesis using up(6,7) placed res by blast
  qed
qed

text \<open>The whole session, from the first request to LK's start.\<close>

lemma lk_mode_session:
  assumes "idle e p" and "calls_keep_port e" and "ev_pl e" and "b \<noteq> 0"
    and "st_mode st = BootLK" and "st_lk st = Some lk" and "boot_content ot st = Some img" and "length img < 2 ^ 32"
    and "get_for_soc (st_soc st) (st_lk_mode st) (st_dram_size_per_rank st) (st_dram_ranks st) = Some arg"
    and "an_generic_read (ot_analysis ot) = Some g" and "get_partition_ptr (ot_analysis ot) (st_soc st) = Inr gp"
    and "length (st_upload st) + 3 \<le> free_slots (dv_params (pr_io p))"
    and "mr_end (pp_memory (dv_params (pr_io p))) \<noteq> 0xFFFFFFFF" and "mr_start (pp_memory (dv_params (pr_io p))) \<noteq> 0"
    and "files_apart (st_upload st @ [lk])" and "\<forall>f \<in> set (st_upload st @ [lk]). file_fits f" and "\<forall>f \<in> set (st_upload st). fst f \<noteq> 0"
    and "bump_inv hi (is_heap (dv_icept (pr_io p)))"
    and "alloc (is_heap (dv_icept (pr_io p))) \<lparr>ly_size = 64, ly_align = 4\<rparr> = (code, h)"
    and "window_apart (unmask_thumb2 (g OR 1)) code"
    and "\<And>d base sz. ev_call e (b OR 1) [fst lk, base, sz] d = None"
  shows "\<exists>r p'. rpc_session ot (linked_ops e) (ev_codecs e) repl st b p = (r, p') \<and>
    ((\<exists>n. r = Inl (ErrFreeRange n)) \<or>
     (\<exists>start a ps0 ps m. r = Inr () \<and> handler_step e (pr_io p') = Left \<and>
       q_in (dv_queues (pr_io p')) = mframe (ev_codecs e) (MJump (fst lk) (Some start) (Some (word_of_nat (length (as_bytes arg))))) \<and>
       reserved (dv_params (pr_io p)) \<union> set (map file_range (st_upload st @ [lk])) \<subseteq> reserved ps0 \<and>
       (\<forall>f \<in> set (st_upload st @ [lk, (start, as_bytes arg), (a, img)]). placed ps m f) \<and>
       (\<forall>f \<in> {(start, as_bytes arg), (a, img)}. f \<in> set (st_upload st) \<or> fresh ps0 f) \<and>
       dv_addr (pr_io p') = g OR 1 \<and> dv_lk (pr_io p') = Some (lk_params_new (g OR 1) (gp OR 1) a) \<and>
       dv_mem (pr_io p') = hook_memory code (unmask_thumb2 (g OR 1)) (ev_body e) m))"
proof -
  let ?n = "word_of_nat (length (as_bytes arg)) :: u32"
  have "linked e (pr_io p) p" using assms(1) by (simp add: linked_def same_but_port_def)
  from lk_uploaded [OF this assms(2-4,6,9,12,13,15,16), of ot repl] consider
    (full) p' where "rpc_session ot (linked_ops e) (ev_codecs e) repl st b p = (Inl (ErrFreeRange ?n), p')"
    | (up) p2 ps0 ps m start where "rpc_session ot (linked_ops e) (ev_codecs e) repl st b p =
        bindS (select_jump ot (linked_ops e) (ev_codecs e) st) (\<lambda>jump. case jump of None \<Rightarrow> repl
          | Some addr \<Rightarrow> send_jump (linked_ops e) (ev_codecs e) addr (Some start) (Some ?n)) p2"
      "linked e (set_params ps (set_mem m (set_preloader b (pr_io p)))) p2"
      "reserved (dv_params (pr_io p)) \<union> set (map file_range (st_upload st @ [lk])) \<subseteq> reserved ps0"
      "\<forall>f \<in> set (st_upload st @ [lk, (start, as_bytes arg)]). placed ps m f" "fresh ps0 (start, as_bytes arg)"
      "\<forall>f. fresh ps f \<longrightarrow> fresh ps0 f" "0 < free_slots ps" "pp_memory ps = pp_memory (dv_params (pr_io p))"
    by blast
  then show ?thesis
  proof cases
    case full
    then show ?thesis by blast
  next
    case up
    let ?d = "set_params ps (set_mem m (set_preloader b (pr_io p)))"
    have d: "dv_params ?d = ps" "dv_mem ?d = m" "is_heap (dv_icept ?d) = is_heap (dv_icept (pr_io p))"
      by (simp_all add: set_mem_def)
    have pre: "0 < free_slots (dv_params ?d)" "mr_end (pp_memory (dv_params ?d)) \<noteq> 0xFFFFFFFF"
        "mr_start (pp_memory (dv_params ?d)) \<noteq> 0" "bump_inv hi (is_heap (dv_icept ?d))"
        "alloc (is_heap (dv_icept ?d)) \<lparr>ly_size = 64, ly_align = 4\<rparr> = (code, h)"
      unfolding d using up(7,8) assms(13,14,18,19) by simp_all
    have "\<forall>f \<in> set (st_upload st). placed (dv_params ?d) (dv_mem ?d) f \<and> fst f \<noteq> 0"
      unfolding d using up(4) assms(17) by simp
    from select_lk_linked [OF up(2) assms(2,3,5-8) pre(1-3) this assms(10,11) pre(4,5) assms(20), unfolded d] consider
      (none) n p3 where "select_jump ot (linked_ops e) (ev_codecs e) st p2 = (Inl (ErrFreeRange n), p3)"
    | (ok) a p3 ps3 m3 s where "select_jump ot (linked_ops e) (ev_codecs e) st p2 = (Inr (Some (fst lk)), p3)"
      "linked e ((set_params ps3 (set_mem m3 ?d))
        \<lparr>dv_lk := Some (lk_params_new (g OR 1) (gp OR 1) a), dv_addr := g OR 1, dv_icept := s\<rparr>) p3"
      "grows ps m ps3 m3" "placed ps3 m3 (a, img)" "(a, img) \<in> set (st_upload st) \<or> fresh ps (a, img)"
      "is_mem s = hook_memory code (unmask_thumb2 (g OR 1)) (ev_body e) m3"
      by blast
    then show ?thesis
    proof cases
      case none
      with up(1) show ?thesis by (auto simp: bindS_def)
    next
      case ok
      from jump_linked [OF ok(2) assms(3), of "\<lparr>ptr_bldr_jump = b\<rparr>" "fst lk" "Some start" "Some ?n"] assms(21)
      obtain p4 where p4: "send_jump (linked_ops e) (ev_codecs e) (fst lk) (Some start) (Some ?n) p3 = (Inr (), p4)"
        "handler_step e (pr_io p4) = Left" "q_in (dv_queues (pr_io p4)) = mframe (ev_codecs e) (MJump (fst lk) (Some start) (Some ?n))"
        "same_but_port ((set_params ps3 (set_mem m3 ?d))
          \<lparr>dv_lk := Some (lk_params_new (g OR 1) (gp OR 1) a), dv_addr := g OR 1, dv_icept := s\<rparr>) (pr_io p4)"
        by (auto simp: unwrap_or_default_def set_mem_def set_params_def set_preloader_def)
      have "rpc_session ot (linked_ops e) (ev_codecs e) repl st b p = (Inr (), p4)"
        using up(1) ok(1) p4(1) by (simp add: bindS_def)
      moreover have "\<forall>f \<in> set (st_upload st @ [lk, (start, as_bytes arg), (a, img)]). placed ps3 m3 f"
        using up(4) placed_grows [OF _ ok(3)] ok(4) by auto
      moreover have "\<forall>f \<in> {(start, as_bytes arg), (a, img)}. f \<in> set (st_upload st) \<or> fresh ps0 f"
        using up(5,6) ok(5) by blast
      moreover have "dv_addr (pr_io p4) = g OR 1" "dv_lk (pr_io p4) = Some (lk_params_new (g OR 1) (gp OR 1) a)"
        "dv_mem (pr_io p4) = hook_memory code (unmask_thumb2 (g OR 1)) (ev_body e) m3"
        using same_but_port_simps [OF p4(4)] ok(6) by simp_all
      ultimately show ?thesis using p4(2,3) up(3) by blast
    qed
  qed
qed

text \<open>When the hook's block is reserved and the function lies inside LK, everything sent but those ten
  bytes of LK is in memory, and the hook gives LK the image.\<close>

lemma lk_mode_boots:
  assumes "idle e p" and "calls_keep_port e" and "ev_pl e" and "b \<noteq> 0"
    and "st_mode st = BootLK" and "st_lk st = Some lk" and "boot_content ot st = Some img" and "length img < 2 ^ 32"
    and "get_for_soc (st_soc st) (st_lk_mode st) (st_dram_size_per_rank st) (st_dram_ranks st) = Some arg"
    and "an_generic_read (ot_analysis ot) = Some g" and "get_partition_ptr (ot_analysis ot) (st_soc st) = Inr gp"
    and "length (st_upload st) + 3 \<le> free_slots (dv_params (pr_io p))"
    and "mr_end (pp_memory (dv_params (pr_io p))) \<noteq> 0xFFFFFFFF" and "mr_start (pp_memory (dv_params (pr_io p))) \<noteq> 0"
    and "files_apart (st_upload st @ [lk])" and "\<forall>f \<in> set (st_upload st @ [lk]). file_fits f" and "\<forall>f \<in> set (st_upload st). fst f \<noteq> 0"
    and "bump_inv hi (is_heap (dv_icept (pr_io p)))"
    and "alloc (is_heap (dv_icept (pr_io p))) \<lparr>ly_size = 64, ly_align = 4\<rparr> = (code, h)"
    and "window_apart (unmask_thumb2 (g OR 1)) code"
    and "\<And>d base sz. ev_call e (b OR 1) [fst lk, base, sz] d = None"
    and code: "protected (dv_params (pr_io p)) code 64" "\<forall>f \<in> set (st_upload st @ [lk]). apart (fst f) (length (snd f)) code 64"
    and inside: "unat (fst lk) \<le> unat (unmask_thumb2 (g OR 1))" "unat (unmask_thumb2 (g OR 1)) + 10 \<le> unat (fst lk) + length (snd lk)"
  shows "\<exists>r p'. rpc_session ot (linked_ops e) (ev_codecs e) repl st b p = (r, p') \<and>
    ((\<exists>n. r = Inl (ErrFreeRange n)) \<or>
     (\<exists>start a. r = Inr () \<and> handler_step e (pr_io p') = Left \<and>
       q_in (dv_queues (pr_io p')) = mframe (ev_codecs e) (MJump (fst lk) (Some start) (Some (word_of_nat (length (as_bytes arg))))) \<and>
       (\<forall>f \<in> set (st_upload st @ [(start, as_bytes arg), (a, img)]). load_bytes (dv_mem (pr_io p')) (fst f) (length (snd f)) = snd f) \<and>
       lk_hooked e g lk (pr_io p') \<and> dv_lk (pr_io p') = Some (lk_params_new (g OR 1) (gp OR 1) a)))"
proof -
  let ?t = "unmask_thumb2 (g OR 1)"
  from lk_mode_session [OF assms(1-21), of repl] show ?thesis
  proof (elim exE conjE disjE)
    fix r p' start a ps0 ps m
    assume s: "rpc_session ot (linked_ops e) (ev_codecs e) repl st b p = (r, p')" "r = Inr ()" "handler_step e (pr_io p') = Left"
      "q_in (dv_queues (pr_io p')) = mframe (ev_codecs e) (MJump (fst lk) (Some start) (Some (word_of_nat (length (as_bytes arg)))))"
      and res: "reserved (dv_params (pr_io p)) \<union> set (map file_range (st_upload st @ [lk])) \<subseteq> reserved ps0"
      and placed: "\<forall>f \<in> set (st_upload st @ [lk, (start, as_bytes arg), (a, img)]). placed ps m f"
      and fresh: "\<forall>f \<in> {(start, as_bytes arg), (a, img)}. f \<in> set (st_upload st) \<or> fresh ps0 f"
      and d: "dv_addr (pr_io p') = g OR 1" "dv_lk (pr_io p') = Some (lk_params_new (g OR 1) (gp OR 1) a)"
        "dv_mem (pr_io p') = hook_memory code ?t (ev_body e) m"
    have "protected ps0 code 64" using protected_mono [OF code(1)] res by blast
    moreover have "protected ps0 ?t 10"
      using protected_part [OF file_protected [of lk ps0] inside(1)] inside(2) res assms(16) by simp
    moreover have small: "length (snd f) \<le> 2 ^ 32" if "f \<in> set (st_upload st @ [lk])" for f
      using assms(16) that by (auto simp: file_fits_def)
    moreover have "length (as_bytes arg) \<le> 2 ^ 32" "length img \<le> 2 ^ 32" using length_as_bytes [OF assms(9)] assms(8) by simp_all
    ultimately have "apart (fst f) (length (snd f)) code 64 \<and> apart (fst f) (length (snd f)) ?t 10"
      if "f \<in> set (st_upload st @ [(start, as_bytes arg), (a, img)])" for f
      using that fresh code(2) apart_inside [OF files_apart_last [OF assms(15)] small inside small]
      by (auto simp: fresh_def intro: apart_sym)
    then have "load_bytes (dv_mem (pr_io p')) (fst f) (length (snd f)) = snd f"
      if "f \<in> set (st_upload st @ [(start, as_bytes arg), (a, img)])" for f
      using that placed by (auto simp: d(3) hook_memory_apart placed_def)
    moreover have "lk_hooked e g lk (pr_io p')" using placed code(2) by (intro hooked_device [OF _ _ d(1,3)]) auto
    ultimately show ?thesis using s d(2) by blast
  qed blast
qed

text \<open>The payload starts with an empty pool and a heap that it has reserved.\<close>

lemma started_heap:
  assumes "app img params base m = Some (RunMain sp q m1)" and "main_pl n port q m1 = Some d"
    and "mr_end (pp_memory params) \<noteq> 0xFFFFFFFF" and "mr_start (pp_memory params) \<noteq> 0"
    and "alloc (is_heap (dv_icept d)) \<lparr>ly_size = 64, ly_align = 4\<rparr> = (code, h)"
  shows "\<exists>hi. bump_inv hi (is_heap (dv_icept d)) \<and> protected (dv_params d) code 64"
proof -
  from started_claims [OF assms(1,2)] obtain p1 stack heap where
    p1: "blacklist_dl params (base, base + (image_end img - image_start img)) = Inr p1"
      "claim find_unused_range blacklist_dl p1 0x1000 = Some (stack, q)"
    and heap: "claim find_unused_range blacklist_dl q HEAP_SIZE = Some (heap, dv_params d)"
      "is_heap (dv_icept d) = bump_new (fst heap) HEAP_SIZE" by metis
  have mem: "pp_memory q = pp_memory params" using claim_blacklist(2) [OF p1(2)] blacklist_dl_effect(2) [OF p1(1)] by simp
  have inv: "bounded_memory q" using mem assms(3) by (simp add: bounded_memory_def)
  from heap(1) have f: "find_unused_range q HEAP_SIZE = Some (fst heap, snd heap)" by (auto elim: dl.claim_cases)
  note sound = find_unused_range_sound [OF inv f]
  have h: "unat (snd heap) = unat (fst heap) + 0x100000" "fst heap \<noteq> 0"
    using sound(1,2) mem assms(4) by (auto simp: aligned_size_def HEAP_SIZE_def word_unat_eq_iff)
  then have bounds: "unat (fst heap) + unat HEAP_SIZE < 2 ^ 32" using unat_u32_lt [of "snd heap"] by (simp add: HEAP_SIZE_def)
  note binv = bump_inv_new [OF h(2) bounds]
  have "alloc (bump_new (fst heap) HEAP_SIZE) \<lparr>ly_size = 64, ly_align = 4\<rparr> = (code, h)" using assms(5) heap(2) by simp
  moreover have r: "unat (fst heap) \<le> round_up 2 (unat (fst heap))" "round_up 2 (unat (fst heap)) \<le> unat (fst heap) + 3"
    using round_up_bounds [where n = "unat (fst heap)" and k = 2] by simp_all
  ultimately have "code = word_of_nat (round_up 2 (unat (fst heap)))"
    using alloc_spec [OF binv, of "\<lparr>ly_size = 64, ly_align = 4\<rparr>" 2 "fst heap"]
    by (simp add: bump_new_def HEAP_SIZE_def split: if_splits)
  moreover from this bounds r have "unat code = round_up 2 (unat (fst heap))" by (simp add: unat_of_nat HEAP_SIZE_def)
  moreover have "heap \<in> reserved (dv_params d)" using claim_blacklist(1) [OF heap(1)] by simp
  ultimately have "protected (dv_params d) code 64"
    using h(1) r by (auto simp: protected_def intro!: bexI [of _ heap])
  with binv heap(2) show ?thesis by auto
qed

end
