(* ===== verification/BromMode.thy ===== *)
theory BromMode
  imports Boot
begin

text \<open>
  The boot ROM mode end to end: \<open>boot/bootrom.rs\<close> on the host, \<open>rpc/src/setup.rs\<close> and \<open>brom.rs\<close> on the
  device. The host reserves every image before it sends the payload and again after each upload, out of
  the twelve slots of one parameter block; the properties count how many images that allows, here and in the
  run over the preloader that the other modes add (\<open>boot/preloader.rs\<close>), where these reservations are still held.
\<close>

section \<open>Slots\<close>

lemma blacklist_dl_full: "free_slots ps = 0 \<Longrightarrow> \<exists>x. blacklist_dl ps r = Inl x"
  using blacklist_dl_effect(3) [of ps r] by (cases "blacklist_dl ps r") auto

lemma reserve_files_slots:
  "reserve_files fs ps = Inr qs \<Longrightarrow> free_slots ps = free_slots qs + length fs"
proof (induction fs arbitrary: ps)
  case (Cons f fs)
  obtain addr data where f: "f = (addr, data)" by (rule prod.exhaust)
  with Cons.prems obtain ps1 where ps1: "blacklist_reloc ps (addr, addr + word_of_nat (length data) + 1) = Inr ps1"
    "reserve_files fs ps1 = Inr qs" by (auto split: sum.splits)
  then have "blacklist_with ForbiddenReloc ps (addr, addr + word_of_nat (length data) + 1) = Inr ps1"
    by (simp add: blacklist_reloc_def)
  with free_slots_blacklist_with [of ForbiddenReloc ps "(addr, addr + word_of_nat (length data) + 1)"]
  have "free_slots ps = Suc (free_slots ps1)" by simp
  with Cons.IH [OF ps1(2)] show ?case by simp
qed simp

lemma free_slots_brom_params: "free_slots (brom_params ot st) = free_slots (st_params st)"
  by (simp add: brom_params_def Let_def free_slots_def)

text \<open>The payload takes two slots, for its image and its stack.\<close>

lemma app_slots: "app img params base m = Some (RunMain sp q m1) \<Longrightarrow> free_slots params = free_slots q + 2"
  by (erule app_claims) (auto simp: claim_blacklist blacklist_dl_effect)

section \<open>Uploads without a slot\<close>

lemma blacklist_linked_full:
  assumes "linked e d p" and "calls_keep_port e" and "free_slots (dv_params d) = 0"
  shows "\<exists>p'. blacklist (linked_ops e) (ev_codecs e) err a n p = (Inl err, p') \<and> linked e d p'"
proof -
  obtain x where "blacklist_dl (dv_params d) (a, a + n + 1) = Inl x" using blacklist_dl_full [OF assms(3)] by blast
  then have "handle_message e (d\<lparr>dv_proto := y\<rparr>) (MBlacklistRange (a, a + n + 1)) = Some (RNack NotSupported, d\<lparr>dv_proto := y\<rparr>)" for y
    by (simp add: handle_message_def do_blacklist_def)
  from send_acked_linked [OF assms(1,2) _ this, of err] show ?thesis by (auto simp: blacklist_def)
qed

lemma upload_images_full:
  "linked e d p \<Longrightarrow> calls_keep_port e \<Longrightarrow> free_slots (dv_params d) < length fs \<Longrightarrow>
   \<exists>p'. upload_images (linked_ops e) (ev_codecs e) fs p = (Inl (ErrBlacklist (fst (fs ! free_slots (dv_params d)))), p')"
proof (induction fs arbitrary: d p)
  case (Cons f fs)
  show ?case
  proof (cases "free_slots (dv_params d)")
    case 0
    from upload_linked [OF Cons.prems(1), of "fst f" "snd f"] obtain p1 where
      p1: "upload_to (linked_ops e) (ev_codecs e) (fst f) (snd f) p = (Inr (), p1)"
        "linked e (set_mem (store_bytes (dv_mem d) (fst f) (snd f)) d) p1" by blast
    have "free_slots (dv_params (set_mem (store_bytes (dv_mem d) (fst f) (snd f)) d)) = 0" using 0 by (simp add: set_mem_def)
    from blacklist_linked_full [OF p1(2) Cons.prems(2) this, of "ErrBlacklist (fst f)" "fst f" "word_of_nat (length (snd f))"] p1(1) 0
    show ?thesis by (auto simp: upload_image_def bindS_def)
  next
    case (Suc k)
    then have "0 < free_slots (dv_params d)" by simp
    from upload_image_linked [OF Cons.prems(1,2) this, of f] obtain p1 ps where
      p1: "upload_image (linked_ops e) (ev_codecs e) f p = (Inr (), p1)"
        "linked e (set_params ps (set_mem (store_bytes (dv_mem d) (fst f) (snd f)) d)) p1"
        "free_slots (dv_params d) = Suc (free_slots ps)" by blast
    from Cons.IH [OF p1(2) Cons.prems(2)] Cons.prems(3) p1(1,3) Suc show ?thesis by (auto simp: bindS_def)
  qed
qed simp

section \<open>Properties\<close>


text \<open>Five images of one byte, one too many; the payload starts at the bottom of the SRAM.\<close>

definition sample_five :: host_state where
  "sample_five = sample_state\<lparr>st_mode := BootROM,
     st_upload := [(0x80000000, [1]), (0x80001000, [2]), (0x80002000, [3]), (0x80003000, [4]), (0x80004000, [5])]\<rparr>"

definition sample_reservations :: "u32 \<Rightarrow> u32 \<Rightarrow> PayloadParams" where
  "sample_reservations start stop =
     (let b = (\<lambda>a e. \<lparr>bl_range = \<lparr>mr_start = a, mr_end = e\<rparr>, bl_mode = ForbiddenReloc\<rparr>)
      in params_default\<lparr>pp_memory := memory_range_new start stop, pp_ptr_dl := 0x40B9C5, pp_ptr_ul := 0x40BA4B,
        pp_blacklist := [b 0x80000000 0x80000002, b 0x80001000 0x80001002, b 0x80002000 0x80002002, b 0x80003000 0x80003002,
          b 0x80004000 0x80004002, b 0x2007500 0x2007502] @ replicate 6 blacklist_range_default\<rparr>)"

lemma sample_reserved:
  "reserve_files (st_upload sample_five @ [st_preloader sample_five]) (brom_params sample_outside sample_five) =
     Inr (sample_reservations 0x2000000 0x2020000)"
  by (simp add: sample_reservations_def sample_five_def sample_state_def sample_outside_def brom_params_def params_eval params_default_def)

lemma sample_five_slots: "free_slots (st_params sample_five) = 12"
  by (simp add: sample_five_def sample_state_def free_slots_def params_default_def blacklist_range_default_def)


section \<open>The preloader run behind it\<close>

text \<open>In the other modes the boot ROM run goes on with the preloader. The reservations of the host are
  still in the parameters it injects then.\<close>

definition same_blacklist :: "PayloadParams \<Rightarrow> PayloadParams \<Rightarrow> bool" where
  "same_blacklist ps qs \<longleftrightarrow> pp_blacklist ps = pp_blacklist qs"

lemma same_blacklist_slots: "same_blacklist ps qs \<Longrightarrow> free_slots ps = free_slots qs"
  by (simp add: same_blacklist_def free_slots_def)

lemma run_preloader_session:
  assumes "run_preloader sg st mode p ps = Some (r, q, st')"
  shows "same_blacklist (st_params st') (st_params st)" and "st' = st\<lparr>st_params := st_params st'\<rparr>"
    and "r = Inr () \<Longrightarrow> \<exists>b a q0 pr q1 pr'. start_payload sg (ot_pl_payload (sg_out sg)) a (st_params st') q0 = (Inr pr, q1) \<and>
      rpc_session (sg_out sg) (sg_ops sg) (sg_codecs sg) (sg_repl sg) st' b pr = (Inr (), pr')"
  using assms
  by (auto simp: run_preloader_def run_rpc_preloader_def Let_def same_blacklist_def
      split: if_splits option.splits prod.splits sum.splits) blast+

lemma run_brom_continues:
  assumes "run_brom sg st DevBrom p ps = Some (r, q, st')" and "st_mode st \<noteq> BootROM"
    and "reserve_files (st_upload st @ [st_preloader st]) (brom_params (sg_out sg) st) = Inr hp"
  shows "(st' = st\<lparr>st_params := hp\<rparr> \<and> r \<noteq> Inr ()) \<or>
    (\<exists>mode p ps. run_preloader sg (st\<lparr>st_params := hp\<rparr>) mode p ps = Some (r, q, st'))"
  using assms
  by (auto simp: run_brom_def Let_def split: if_splits option.splits prod.splits sum.splits list.splits)

lemma run_brom_session:
  assumes "run_brom sg st DevBrom p ps = Some (r, q, st')" and "st_mode st \<noteq> BootROM"
    and "reserve_files (st_upload st @ [st_preloader st]) (brom_params (sg_out sg) st) = Inr hp"
  shows "same_blacklist (st_params st') hp" and "st' = st\<lparr>st_params := st_params st'\<rparr>"
    and "r = Inr () \<Longrightarrow> \<exists>b a q0 pr q1 pr'. start_payload sg (ot_pl_payload (sg_out sg)) a (st_params st') q0 = (Inr pr, q1) \<and>
      rpc_session (sg_out sg) (sg_ops sg) (sg_codecs sg) (sg_repl sg) st' b pr = (Inr (), pr')"
proof -
  note continued = run_brom_continues [OF assms] run_preloader_session [where st = "st\<lparr>st_params := hp\<rparr>"]
  show "same_blacklist (st_params st') hp" using continued(1,2) by (auto simp: same_blacklist_def)
  show "st' = st\<lparr>st_params := st_params st'\<rparr>" using continued(1,3) by auto
  show "r = Inr () \<Longrightarrow> \<exists>b a q0 pr q1 pr'. start_payload sg (ot_pl_payload (sg_out sg)) a (st_params st') q0 = (Inr pr, q1) \<and>
      rpc_session (sg_out sg) (sg_ops sg) (sg_codecs sg) (sg_repl sg) st' b pr = (Inr (), pr')"
    using continued(1,4) by auto
qed

lemma session_start_full:
  assumes "linked e d p" and "calls_keep_port e" and "ev_pl e" and "b \<noteq> 0"
    and "free_slots (dv_params d) < length (st_upload st)"
  shows "\<exists>p'. rpc_session ot (linked_ops e) (ev_codecs e) repl st b p =
    (Inl (ErrBlacklist (fst (st_upload st ! free_slots (dv_params d)))), p')"
proof -
  from preloader_params_linked [OF assms(1-4), of ErrPreloaderParams] obtain p1 where
    p1: "send_acked (linked_ops e) (ev_codecs e) ErrPreloaderParams
        (MSetParams (ParamsPreloader \<lparr>ptr_bldr_jump = b\<rparr>)) p = (Inr (), p1)"
      "linked e (set_preloader b d) p1" by blast
  from upload_images_full [OF p1(2) assms(2), of "st_upload st"] assms(5) p1(1) show ?thesis by (auto simp: rpc_session_def bindS_def)
qed

text \<open>C18: The preloader mode entered from the boot ROM. Whatever happens in between, the parameters the host
  injects into the second payload still hold its reservations for the first; a run that succeeds has injected them and
  gone through the session with them. A device whose payload started with them takes up to four images and
  leaves for the jump address with all of them stored; with five to eight the session fails at the first image for which there is
  no slot, although the same command line may succeed when the device is already in its preloader.\<close>

theorem preloader_mode_after_bootrom:
  assumes "free_slots (st_params st) = 12" and "st_mode st = BootPreloader" and "st_lk st = None"
    and "reserve_files (st_upload st @ [st_preloader st]) (brom_params (sg_out sg) st) = Inr hp"
    and "run_brom sg st DevBrom q0 ps = Some (r, q1, st')"
    and "same_blacklist params (st_params st')"
    and "app img params base m = Some (RunMain sp q m1)" and "main_pl k port q m1 = Some d"
    and "idle e p" and "same_but_port d (pr_io p)" and "calls_keep_port e" and "ev_pl e" and "bldr_jump \<noteq> 0"
    and "\<And>d. ev_call e (bldr_jump OR 1) [st_jump_addr st, 0, 0] d = None"
    and "files_apart (st_upload st)" and "\<forall>f \<in> set (st_upload st). file_fits f"
  defines "n \<equiv> length (st_upload st)"
  shows "(r = Inr () \<longrightarrow> (\<exists>b a q0 pr q1 pr'. start_payload sg (ot_pl_payload (sg_out sg)) a (st_params st') q0 = (Inr pr, q1) \<and>
      rpc_session (sg_out sg) (sg_ops sg) (sg_codecs sg) (sg_repl sg) st' b pr = (Inr (), pr'))) \<and>
    (\<exists>p'. if n \<le> 4
      then rpc_session ot (linked_ops e) (ev_codecs e) repl st' bldr_jump p = (Inr (), p') \<and>
        handler_step e (pr_io p') = Left \<and>
        q_in (dv_queues (pr_io p')) = mframe (ev_codecs e) (MJump (st_jump_addr st) (Some 0) (Some 0)) \<and>
        (\<forall>f \<in> set (st_upload st). load_bytes (dv_mem (pr_io p')) (fst f) (length (snd f)) = snd f)
      else n \<le> 8 \<and> rpc_session ot (linked_ops e) (ev_codecs e) repl st' bldr_jump p =
        (Inl (ErrBlacklist (fst (st_upload st ! (8 - n)))), p'))"
proof -
  have mode: "st_mode st \<noteq> BootROM" using assms(2) by simp
  note run = run_brom_session [OF assms(5) mode assms(4)]
  have st': "st_upload st' = st_upload st" "st_mode st' = BootPreloader" "st_lk st' = None" "st_jump_addr st' = st_jump_addr st"
    using assms(2,3) by (subst run(2), simp)+
  have "free_slots params = free_slots hp"
    using same_blacklist_slots [OF assms(6)] same_blacklist_slots [OF run(1)] by simp
  with reserve_files_slots [OF assms(4)] started_params [OF assms(7,8)] assms(1)
  have "free_slots (dv_params d) + n = 8" by (simp add: free_slots_brom_params n_def)
  then have slots: "free_slots (dv_params (pr_io p)) + n = 8" using same_but_port_simps [OF assms(10)] by simp
  show ?thesis
  proof (cases "n \<le> 4")
    case True
    then have "length (st_upload st') \<le> free_slots (dv_params (pr_io p))" using slots by (simp add: n_def st')
    from preloader_session_boots_images [OF assms(9,11,12,13) st'(2,3) this, of ot repl] True assms(14-16) run(3) show ?thesis
      by (auto simp: st')
  next
    case False
    have "linked e (pr_io p) p" using assms(9) by (simp add: linked_def same_but_port_def)
    moreover have "free_slots (dv_params (pr_io p)) < length (st_upload st')" using False slots by (simp add: n_def st')
    ultimately obtain p' where "rpc_session ot (linked_ops e) (ev_codecs e) repl st' bldr_jump p =
        (Inl (ErrBlacklist (fst (st_upload st ! free_slots (dv_params (pr_io p))))), p')"
      unfolding st'(1) [symmetric]
      using session_start_full [OF _ assms(11-13), of _ p st' ot repl] by blast
    moreover have "free_slots (dv_params (pr_io p)) = 8 - n" "n \<le> 8" using slots by simp_all
    ultimately show ?thesis using False run(3) by auto
  qed
qed

text \<open>The five images again, in preloader mode, on a host without payload binaries.\<close>

definition sample_setting :: "queues setting" where
  "sample_setting = \<lparr>sg_out = sample_outside, sg_serial = script_serial, sg_codecs = sample_codecs, sg_buf_size = 24,
     sg_repl = Pair (Inr ())\<rparr>"

lemma preloader_mode_after_bootrom_witness:
  "\<exists>hp sp q m1 d p'. run_brom sample_setting (sample_five\<lparr>st_mode := BootPreloader\<rparr>) DevBrom \<lparr>q_in = [], q_out = []\<rparr> [] =
       Some (Inl ErrNoPayload, \<lparr>q_in = [], q_out = []\<rparr>, sample_five\<lparr>st_mode := BootPreloader, st_params := hp\<rparr>) \<and>
     app (sample_image 0) (hp\<lparr>pp_memory := memory_range_new 0x80000000 0xA0000000\<rparr>) 0x80004008 (\<lambda>_. 0) = Some (RunMain sp q m1) \<and>
     main_pl 24 \<lparr>q_in = [], q_out = []\<rparr> q m1 = Some d \<and>
     rpc_session sample_outside (linked_ops (sample_env True)) sample_codecs (Pair (Inr ()))
       (sample_five\<lparr>st_mode := BootPreloader, st_params := hp\<rparr>) 0x202000 (protocol_new 24 d) = (Inl (ErrBlacklist 0x80003000), p')"
proof -
  have f: "fix_loop b a a m = Some m" for a b m by (subst fix_loop.simps) simp
  let ?st = "sample_five\<lparr>st_mode := BootPreloader\<rparr>" and ?port = "\<lparr>q_in = [], q_out = []\<rparr>"
  define hp where "hp = sample_reservations 0x2000000 0x2020000"
  let ?ps = "hp\<lparr>pp_memory := memory_range_new 0x80000000 0xA0000000\<rparr>"
  have hp: "reserve_files (st_upload ?st @ [st_preloader ?st]) (brom_params (sg_out sample_setting) ?st) = Inr hp"
    using sample_reserved by (simp add: hp_def brom_params_def sample_setting_def)
  have run: "run_brom sample_setting ?st DevBrom ?port [] = Some (Inl ErrNoPayload, ?port, ?st\<lparr>st_params := hp\<rparr>)"
    using hp by (simp add: run_brom_def start_payload_def) (simp add: sample_setting_def sample_outside_def)
  obtain sp q m1 where app: "app (sample_image 0) ?ps 0x80004008 (\<lambda>_. 0) = Some (RunMain sp q m1)"
    and q: "q = (case claims find_unused_range blacklist_dl (projr (blacklist_dl ?ps (0x80004008, 0x80005008))) [0x1000] of Some (_, q) \<Rightarrow> q)"
    by (simp add: setup_eval f hp_def sample_reservations_def params_eval claim_def)
  obtain d :: "queues device" where d: "main_pl 24 ?port q m1 = Some d"
    by (simp add: setup_eval q hp_def sample_reservations_def params_eval claim_def HEAP_SIZE_def)
  have st: "free_slots (st_params ?st) = 12" "st_mode ?st = BootPreloader" "st_lk ?st = None" "same_blacklist ?ps (st_params (?st\<lparr>st_params := hp\<rparr>))"
    by (simp_all add: sample_five_slots same_blacklist_def) (simp add: sample_five_def sample_state_def)
  have env: "ev_codecs (sample_env True) = sample_codecs" "ev_pl (sample_env True)" "ev_call (sample_env True) a as d = None" for a as d
    by (simp_all add: sample_env_def)
  have dev: "dv_proto d = protocol_new 24 ?port" using d by (auto simp: main_pl_def Let_def split: option.splits sum.splits)
  have idle: "idle (sample_env True) (protocol_new 24 d)" by (rule fresh_device_idle) (rule dev)
  have same: "same_but_port d (pr_io (protocol_new 24 d))" by (simp add: protocol_new_def same_but_port_def)
  have up: "st_upload ?st = [(0x80000000, [1]), (0x80001000, [2]), (0x80002000, [3]), (0x80003000, [4]), (0x80004000, [5])]"
    by (simp add: sample_five_def)
  have files: "files_apart (st_upload ?st)" "\<forall>f \<in> set (st_upload ?st). file_fits f"
    by (simp_all add: up file_fits_def apart_below)
  have nz: "(0x202000 :: u32) \<noteq> 0" by simp
  from preloader_mode_after_bootrom [OF st(1-3) hp run st(4) app d idle same sample_env_ok(2) env(2) nz env(3) files,
      of sample_outside "Pair (Inr ())"] obtain p' where
    "rpc_session sample_outside (linked_ops (sample_env True)) sample_codecs (Pair (Inr ()))
       (?st\<lparr>st_params := hp\<rparr>) 0x202000 (protocol_new 24 d) = (Inl (ErrBlacklist 0x80003000), p')"
    by (auto simp: up env(1))
  with run app d show ?thesis by (intro exI conjI) simp_all
qed

end
