(* ===== verification/Uart.thy ===== *)
theory Uart
  imports Prelude
begin

text \<open>
  The serial console of the payload, \<open>payloads/rpc/src/uart.rs\<close>. The status register is what the
  device answers to the successive volatile reads, a sequence; the state is the number of reads so
  far and the words written to the data register. Polling may not end, which is \<open>None\<close>.
\<close>

record uart =
  ua_reads :: nat
  ua_sent :: "u32 list"

definition tx_ready :: "u32 \<Rightarrow> bool" where
  "tx_ready status \<longleftrightarrow> status AND 0x20 \<noteq> 0"

partial_function (option) poll :: "(nat \<Rightarrow> u32) \<Rightarrow> nat \<Rightarrow> nat option" where
  "poll status i = (if tx_ready (status i) then Some (Suc i) else poll status (Suc i))"

definition putc :: "(nat \<Rightarrow> u32) \<Rightarrow> u8 \<Rightarrow> uart \<Rightarrow> uart option" where
  "putc status c s =
     map_option (\<lambda>i. \<lparr>ua_reads = i, ua_sent = ua_sent s @ [ucast c]\<rparr>) (poll status (ua_reads s))"

text \<open>\<open>write_str\<close> and \<open>uart_print!\<close> are the same loop over the bytes.\<close>

fun write_str :: "(nat \<Rightarrow> u32) \<Rightarrow> u8 list \<Rightarrow> uart \<Rightarrow> uart option" where
  "write_str status [] s = Some s"
| "write_str status (c # cs) s = (case putc status c s of None \<Rightarrow> None | Some s \<Rightarrow> write_str status cs s)"

definition uart_println :: "(nat \<Rightarrow> u32) \<Rightarrow> u8 list \<Rightarrow> uart \<Rightarrow> uart option" where
  "uart_println status cs s =
     (case write_str status cs s of
        None \<Rightarrow> None
      | Some s \<Rightarrow> (case putc status 0x0A s of None \<Rightarrow> None | Some s \<Rightarrow> putc status 0x0D s))"

text \<open>The line is ready again and again.\<close>

definition keeps_ready :: "(nat \<Rightarrow> u32) \<Rightarrow> bool" where
  "keeps_ready status \<longleftrightarrow> (\<forall>i. \<exists>j \<ge> i. tx_ready (status j))"

lemma poll_next:
  assumes "tx_ready (status (i + n))"
  shows "\<exists>j. poll status i = Some (Suc j) \<and> i \<le> j \<and> j \<le> i + n \<and> tx_ready (status j)"
  using assms
proof (induction n arbitrary: i)
  case 0
  then show ?case by (simp add: poll.simps)
next
  case (Suc n)
  show ?case
  proof (cases "tx_ready (status i)")
    case True
    then show ?thesis by (simp add: poll.simps)
  next
    case False
    have "tx_ready (status (Suc i + n))" using Suc.prems by simp
    from Suc.IH [OF this] obtain j where "poll status (Suc i) = Some (Suc j)" "Suc i \<le> j" "j \<le> Suc i + n" "tx_ready (status j)"
      by blast
    with False show ?thesis by (auto simp: poll.simps [of status i])
  qed
qed

lemma poll_ready: "keeps_ready status \<Longrightarrow> \<exists>j. poll status i = Some (Suc j) \<and> i \<le> j \<and> tx_ready (status j)"
  using poll_next unfolding keeps_ready_def by (metis le_Suc_ex)

lemma putc_sends:
  "keeps_ready status \<Longrightarrow> \<exists>s'. putc status c s = Some s' \<and> ua_sent s' = ua_sent s @ [ucast c] \<and> ua_reads s < ua_reads s'"
  using poll_ready [of status "ua_reads s"] by (auto simp: putc_def)

lemma write_str_sends:
  "keeps_ready status \<Longrightarrow> \<exists>s'. write_str status cs s = Some s' \<and> ua_sent s' = ua_sent s @ map ucast cs \<and>
     ua_reads s + length cs \<le> ua_reads s'"
proof (induction cs arbitrary: s)
  case (Cons c cs)
  from putc_sends [OF Cons.prems, of c s] obtain s1 where
    s1: "putc status c s = Some s1" "ua_sent s1 = ua_sent s @ [ucast c]" "ua_reads s < ua_reads s1" by blast
  from Cons.IH [OF Cons.prems, of s1] s1 show ?case by auto
qed simp

text \<open>A line that is never ready.\<close>

lemma poll_stuck_below: "poll status i = Some n \<Longrightarrow> \<exists>j. tx_ready (status j)"
  by (rule poll.raw_induct [where P = "\<lambda>status i n. \<exists>j. tx_ready (status j)"]) (auto split: if_splits)

section \<open>Properties\<close>

text \<open>The console neither loses nor reorders anything: as long as the transmitter keeps becoming ready,
  printing a line returns, has written its bytes in order followed by newline and carriage return,
  and has polled at least once for each; when the transmitter is never ready, printing
  anything does not return.\<close>

theorem println_returns:
  assumes "keeps_ready status"
  shows "\<exists>s'. uart_println status cs s = Some s' \<and> ua_sent s' = ua_sent s @ map ucast cs @ [0x0A, 0x0D] \<and>
      ua_reads s + length cs + 2 \<le> ua_reads s' \<and>
    (\<forall>dead. (\<forall>i. \<not> tx_ready (dead i)) \<longrightarrow> uart_println dead cs s = None)"
proof -
  from write_str_sends [OF assms, of cs s] obtain s1 where
    s1: "write_str status cs s = Some s1" "ua_sent s1 = ua_sent s @ map ucast cs" "ua_reads s + length cs \<le> ua_reads s1" by blast
  from putc_sends [OF assms, of "0x0A" s1] obtain s2 where
    s2: "putc status 0x0A s1 = Some s2" "ua_sent s2 = ua_sent s1 @ [ucast (0x0A :: u8)]" "ua_reads s1 < ua_reads s2" by blast
  from putc_sends [OF assms, of "0x0D" s2] obtain s3 where
    s3: "putc status 0x0D s2 = Some s3" "ua_sent s3 = ua_sent s2 @ [ucast (0x0D :: u8)]" "ua_reads s2 < ua_reads s3" by blast
  have "uart_println dead cs s = None" if "\<forall>i. \<not> tx_ready (dead i)" for dead
  proof -
    have "poll dead i = None" for i using poll_stuck_below [of dead i] that by (cases "poll dead i") auto
    then have "putc dead c t = None" for c t by (simp add: putc_def)
    then show ?thesis by (cases cs) (simp_all add: uart_println_def)
  qed
  with s1 s2 s3 show ?thesis by (auto simp: uart_println_def)
qed

lemma sample_ready: "keeps_ready (\<lambda>i. if even i then 0 else 0x60)"
  unfolding keeps_ready_def
proof
  fix i :: nat
  show "\<exists>j \<ge> i. tx_ready (if even j then 0 else 0x60)"
    by (intro exI [of _ "2 * i + 1"]) (simp add: tx_ready_def)
qed

lemma println_returns_witness:
  "\<exists>s'. uart_println (\<lambda>i. if even i then 0 else 0x60) [0x68, 0x69] \<lparr>ua_reads = 0, ua_sent = []\<rparr> = Some s' \<and>
     ua_sent s' = [0x68, 0x69, 0x0A, 0x0D]"
  using println_returns [OF sample_ready, of "[0x68, 0x69]" "\<lparr>ua_reads = 0, ua_sent = []\<rparr>"] by auto

end
