(* ===== verification/Console.thy ===== *)
theory Console
  imports Setup Uart
begin

text \<open>
  The start of the payload with its console: \<open>setup.rs\<close>, \<open>pl.rs\<close>, \<open>brom.rs\<close> and \<open>err.rs\<close> of
  \<open>payloads/rpc\<close> as they print. Theory \<open>Setup\<close> has the same functions without output; the lemmas show that the output
  only reports what they do. Formatting of numbers and chips is done by \<open>ufmt\<close> and \<open>acon\<close>
  and is an argument; polling a transmitter that never becomes ready is \<open>None\<close>.
\<close>

section \<open>Printing\<close>

type_synonym 'a console = "uart \<Rightarrow> ('a \<times> uart) option"

definition returnC :: "'a \<Rightarrow> 'a console" where
  "returnC a s = Some (a, s)"

definition bindC :: "'a console \<Rightarrow> ('a \<Rightarrow> 'b console) \<Rightarrow> 'b console" where
  "bindC m f s = (case m s of None \<Rightarrow> None | Some (a, s') \<Rightarrow> f a s')"

definition liftC :: "'a option \<Rightarrow> 'a console" where
  "liftC x s = map_option (\<lambda>a. (a, s)) x"

definition ascii :: "string \<Rightarrow> u8 list" where
  "ascii = map of_char"

definition print :: "(nat \<Rightarrow> u32) \<Rightarrow> u8 list \<Rightarrow> unit console" where
  "print status cs s = map_option (Pair ()) (write_str status cs s)"

text \<open>\<open>uart_println!\<close>; \<open>uart_printfln!\<close> writes its pieces and then an empty line, the same bytes.\<close>

definition print_line :: "(nat \<Rightarrow> u32) \<Rightarrow> u8 list \<Rightarrow> unit console" where
  "print_line status cs s = map_option (Pair ()) (uart_println status cs s)"

definition uart_printfln :: "(nat \<Rightarrow> u32) \<Rightarrow> u8 list list \<Rightarrow> unit console" where
  "uart_printfln status pieces = bindC (print status (concat pieces)) (\<lambda>_. print_line status [])"

section \<open>The programs\<close>

definition params_error_text :: "ParamsError \<Rightarrow> string" where
  "params_error_text x =
     (case x of
        InvalidMagic \<Rightarrow> ''invalid magic''
      | InvalidVersion \<Rightarrow> ''invalid version''
      | InvalidMemoryRange \<Rightarrow> ''invalid memory range''
      | InvalidFnPtr \<Rightarrow> ''invalid dl/ul fn ptr''
      | RunningInBlacklistedRange \<Rightarrow> ''running in the blacklisted memory range, this is a bad idea'')"

text \<open>How the payload formats: \<open>{:#x}\<close> and the name of a chip.\<close>

record formats =
  fm_hex :: "u32 \<Rightarrow> u8 list"
  fm_soc :: "SoC \<Rightarrow> u8 list"

definition banner :: "(nat \<Rightarrow> u32) \<Rightarrow> formats \<Rightarrow> PayloadParams \<Rightarrow> unit console" where
  "banner status fm params =
     bindC (print_line status []) (\<lambda>_.
       uart_printfln status [ascii ''Hello from Rust and '', fm_soc fm (pp_soc params), ascii '' :)''])"

text \<open>\<open>die\<close> and the panic handler print and then loop for ever; the result is what the caller makes of it.\<close>

definition die :: "(nat \<Rightarrow> u32) \<Rightarrow> string \<Rightarrow> 'a \<Rightarrow> 'a console" where
  "die status why died =
     bindC (print status (ascii ''HALTED: '')) (\<lambda>_. bindC (print_line status (ascii why)) (\<lambda>_. returnC died))"

definition panic_handler :: "(nat \<Rightarrow> u32) \<Rightarrow> 'a \<Rightarrow> 'a console" where
  "panic_handler status died = bindC (print_line status (ascii ''Panic :('')) (\<lambda>_. returnC died)"

definition copy_and_jump_console :: "(nat \<Rightarrow> u32) \<Rightarrow> u32 \<Rightarrow> u32 \<Rightarrow> u32 \<Rightarrow> mem \<Rightarrow> entry console" where
  "copy_and_jump_console status src addr sz m =
     (let m = copy_nonoverlapping m src addr (unat sz)
      in bindC (print_line status (ascii ''jump to relocated image'')) (\<lambda>_. returnC (JumpTo addr m)))"

definition run_in_place_console :: "(nat \<Rightarrow> u32) \<Rightarrow> image \<Rightarrow> PayloadParams \<Rightarrow> u32 \<Rightarrow> u32 \<times> u32 \<Rightarrow> mem \<Rightarrow> entry console" where
  "run_in_place_console status img params runtime_base own m =
     bindC (liftC (fix_got img runtime_base m)) (\<lambda>m.
       let m = clear_bss img runtime_base m
       in case blacklist_dl params own of
            Inl _ \<Rightarrow> die status ''failed to blacklist image'' Died
          | Inr params \<Rightarrow>
              (case find_unused_range params (4 * 1024) of
                 None \<Rightarrow> die status ''can't find free memory range for the stack'' Died
               | Some stack_range \<Rightarrow>
                   (case blacklist_dl params stack_range of
                      Inl _ \<Rightarrow> die status ''failed to blacklist stack'' Died
                    | Inr params \<Rightarrow>
                        bindC (print_line status (ascii ''jump to main''))
                          (\<lambda>_. returnC (RunMain (snd stack_range AND NOT 7) params m)))))"

text \<open>\<open>app\<close>; \<open>pc\<close> is where \<open>verify_params\<close> runs.\<close>

definition app_console :: "(nat \<Rightarrow> u32) \<Rightarrow> formats \<Rightarrow> image \<Rightarrow> PayloadParams \<Rightarrow> u32 \<Rightarrow> u32 \<Rightarrow> mem \<Rightarrow> entry console" where
  "app_console status fm img params pc runtime_base m =
     bindC (uart_printfln status [ascii ''running at '', fm_hex fm runtime_base]) (\<lambda>_.
     bindC (case verify_params pc params of
              Inl x \<Rightarrow> uart_printfln status [ascii ''error on verifying params: '', ascii (params_error_text x)]
            | Inr _ \<Rightarrow> returnC ()) (\<lambda>_.
       let sz = image_end img - image_start img
       in case find_unused_range params sz of
            None \<Rightarrow> die status ''failed to find relocation range'' Died
          | Some reloc_range \<Rightarrow>
              let addr = fst reloc_range;
                  overlaps = addr < runtime_base + sz \<and> runtime_base < addr + sz
              in if addr \<noteq> runtime_base \<and> \<not> overlaps
                 then copy_and_jump_console status runtime_base addr sz m
                 else run_in_place_console status img params runtime_base
                        (if overlaps then (runtime_base, runtime_base + sz) else (addr, addr + sz)) m))"

text \<open>The two mains up to the handler; \<open>None\<close> is \<open>die\<close>.\<close>

definition main_pl_console :: "(nat \<Rightarrow> u32) \<Rightarrow> formats \<Rightarrow> nat \<Rightarrow> 'p \<Rightarrow> PayloadParams \<Rightarrow> mem \<Rightarrow> 'p device option console" where
  "main_pl_console status fm BUF_SIZE port params m =
     bindC (banner status fm params) (\<lambda>_.
       case find_unused_range params HEAP_SIZE of
         None \<Rightarrow> die status ''failed to create heap'' None
       | Some heap \<Rightarrow>
           let allocator = bump_init bump_empty (fst heap) HEAP_SIZE
           in bindC (uart_printfln status [ascii ''heap initialized at '', fm_hex fm (fst heap), ascii '' with '',
                       fm_hex fm HEAP_SIZE, ascii '' bytes'']) (\<lambda>_.
              case blacklist_dl params heap of
                Inl _ \<Rightarrow> die status ''unable to blacklist the heap'' None
              | Inr params \<Rightarrow>
                  bindC (print_line status (ascii ''start usb'')) (\<lambda>_. returnC (Some
                    \<lparr>dv_params = params, dv_proto = protocol_new BUF_SIZE port, dv_preloader = None, dv_lk = None,
                     dv_icept = \<lparr>is_mem = m, is_pool = \<lparr>ip_address = [], ip_trampoline = []\<rparr>,
                                 is_heap = allocator, is_cache = []\<rparr>,
                     dv_addr = 0\<rparr>))))"

definition main_brom_console :: "(nat \<Rightarrow> u32) \<Rightarrow> formats \<Rightarrow> nat \<Rightarrow> 'p \<Rightarrow> PayloadParams \<Rightarrow> mem \<Rightarrow> 'p device console" where
  "main_brom_console status fm BUF_SIZE port params m =
     bindC (banner status fm params) (\<lambda>_.
     bindC (print_line status (ascii ''start usb'')) (\<lambda>_. returnC (main_brom BUF_SIZE port params m)))"

text \<open>The entry in assembly: three instructions and a stack of 128 bytes on the next multiple of
  eight. It hands its own address to \<open>app\<close> in the first register.\<close>

record entry_regs =
  er_r0 :: u32
  er_sp :: u32

definition start_regs :: "u32 \<Rightarrow> entry_regs" where
  "start_regs start = \<lparr>er_r0 = start, er_sp = start + (align_up (3 * 4) 8 + 128)\<rparr>"

section \<open>What a computation says\<close>

text \<open>Whatever the console is busy with, the computation returns \<open>a\<close> and has sent exactly \<open>text\<close>.\<close>

definition says :: "'a console \<Rightarrow> 'a \<Rightarrow> u8 list \<Rightarrow> bool" where
  "says m a text \<longleftrightarrow> (\<forall>s. \<exists>s'. m s = Some (a, s') \<and> ua_sent s' = ua_sent s @ map ucast text)"

definition line :: "u8 list \<Rightarrow> u8 list" where
  "line cs = cs @ [0x0A, 0x0D]"

named_theorems says_rules

lemma says_return [says_rules]: "says (returnC a) a []"
  by (simp add: says_def returnC_def)

lemma says_bind:
  assumes "says m a t" and "says (f a) b u"
  shows "says (bindC m f) b (t @ u)"
  unfolding says_def
proof
  fix s
  from assms(1) obtain s1 where s1: "m s = Some (a, s1)" "ua_sent s1 = ua_sent s @ map ucast t" by (auto simp: says_def)
  from assms(2) obtain s2 where "f a s1 = Some (b, s2)" "ua_sent s2 = ua_sent s1 @ map ucast u" by (auto simp: says_def)
  with s1 show "\<exists>s'. bindC m f s = Some (b, s') \<and> ua_sent s' = ua_sent s @ map ucast (t @ u)" by (simp add: bindC_def)
qed

lemma says_print [says_rules]: "keeps_ready status \<Longrightarrow> says (print status cs) () cs"
  unfolding says_def print_def using write_str_sends by fastforce

lemma says_print_line [says_rules]: "keeps_ready status \<Longrightarrow> says (print_line status cs) () (line cs)"
  unfolding says_def
proof
  fix s
  assume ready: "keeps_ready status"
  from write_str_sends [OF this, of cs s] obtain s1 where
    s1: "write_str status cs s = Some s1" "ua_sent s1 = ua_sent s @ map ucast cs" by blast
  from putc_sends [OF ready, of "0x0A" s1] obtain s2 where
    s2: "putc status 0x0A s1 = Some s2" "ua_sent s2 = ua_sent s1 @ [ucast (0x0A :: u8)]" by blast
  from putc_sends [OF ready, of "0x0D" s2] obtain s3 where
    "putc status 0x0D s2 = Some s3" "ua_sent s3 = ua_sent s2 @ [ucast (0x0D :: u8)]" by blast
  with s1 s2 show "\<exists>s'. print_line status cs s = Some ((), s') \<and> ua_sent s' = ua_sent s @ map ucast (line cs)"
    by (simp add: print_line_def uart_println_def line_def)
qed

lemma says_same: "says m a t \<Longrightarrow> t = u \<Longrightarrow> says m a u"
  by simp

lemma says_printfln [says_rules]: "keeps_ready status \<Longrightarrow> says (uart_printfln status pieces) () (line (concat pieces))"
  unfolding uart_printfln_def by (rule says_same [OF says_bind [OF says_print says_print_line]]) (simp_all add: line_def)

lemma says_die [says_rules]: "keeps_ready status \<Longrightarrow> says (die status why a) a (line (ascii ''HALTED: '' @ ascii why))"
  unfolding die_def
  by (rule says_same [OF says_bind [OF says_print says_bind [OF says_print_line says_return]]]) (simp_all add: line_def)

lemma says_line_bind: "keeps_ready status \<Longrightarrow> says (f ()) b u \<Longrightarrow> says (bindC (print_line status cs) f) b (line cs @ u)"
  by (rule says_bind [OF says_print_line])

lemma says_printfln_bind:
  "keeps_ready status \<Longrightarrow> says (f ()) b u \<Longrightarrow> says (bindC (uart_printfln status ps) f) b (line (concat ps) @ u)"
  by (rule says_bind [OF says_printfln])

text \<open>On a transmitter that is never ready not even an empty line returns.\<close>

lemma dead_putc: "\<forall>i. \<not> tx_ready (status i) \<Longrightarrow> putc status c s = None"
  using poll_stuck_below [of status "ua_reads s"] by (cases "poll status (ua_reads s)") (auto simp: putc_def)

lemma dead_line: "\<forall>i. \<not> tx_ready (status i) \<Longrightarrow> print_line status cs s = None"
  by (cases cs) (simp_all add: print_line_def uart_println_def dead_putc)

lemma dead_printfln: "\<forall>i. \<not> tx_ready (status i) \<Longrightarrow> uart_printfln status ps s = None"
  by (cases "write_str status (concat ps) s") (simp_all add: uart_printfln_def bindC_def print_def dead_line)

section \<open>The start\<close>

text \<open>The start of the preloader payload as a whole, without and with the console.\<close>

datatype 'p started = Moved u32 mem | Halts | Serves u32 "'p device"

definition pl_outcome :: "nat \<Rightarrow> 'p \<Rightarrow> entry \<Rightarrow> 'p started" where
  "pl_outcome BUF_SIZE port x =
     (case x of
        JumpTo addr m \<Rightarrow> Moved addr m
      | RunMain sp params m \<Rightarrow> (case main_pl BUF_SIZE port params m of None \<Rightarrow> Halts | Some d \<Rightarrow> Serves sp d)
      | Died \<Rightarrow> Halts)"

definition pl_start :: "image \<Rightarrow> PayloadParams \<Rightarrow> u32 \<Rightarrow> mem \<Rightarrow> nat \<Rightarrow> 'p \<Rightarrow> 'p started option" where
  "pl_start img params start m BUF_SIZE port =
     map_option (pl_outcome BUF_SIZE port) (app img params (er_r0 (start_regs start)) m)"

definition pl_rest_console :: "(nat \<Rightarrow> u32) \<Rightarrow> formats \<Rightarrow> nat \<Rightarrow> 'p \<Rightarrow> entry \<Rightarrow> 'p started console" where
  "pl_rest_console status fm BUF_SIZE port x =
     (case x of
        JumpTo addr m \<Rightarrow> returnC (Moved addr m)
      | RunMain sp params m \<Rightarrow>
          bindC (main_pl_console status fm BUF_SIZE port params m)
            (\<lambda>d. returnC (case d of None \<Rightarrow> Halts | Some d \<Rightarrow> Serves sp d))
      | Died \<Rightarrow> returnC Halts)"

definition pl_start_console :: "(nat \<Rightarrow> u32) \<Rightarrow> formats \<Rightarrow> image \<Rightarrow> PayloadParams \<Rightarrow> u32 \<Rightarrow> u32 \<Rightarrow> mem \<Rightarrow> nat \<Rightarrow> 'p \<Rightarrow>
    'p started console" where
  "pl_start_console status fm img params pc start m BUF_SIZE port =
     bindC (app_console status fm img params pc (er_r0 (start_regs start)) m) (pl_rest_console status fm BUF_SIZE port)"

section \<open>The console only reports\<close>

lemma bindC_liftC [simp]: "bindC (liftC (Some a)) f = f a" "bindC (liftC None) f s = None"
  by (simp_all add: bindC_def liftC_def fun_eq_iff)

definition error_lines :: "u32 \<Rightarrow> PayloadParams \<Rightarrow> u8 list list" where
  "error_lines pc params =
     (case verify_params pc params of
        Inl x \<Rightarrow> [ascii ''error on verifying params: '' @ ascii (params_error_text x)]
      | Inr _ \<Rightarrow> [])"

text \<open>The last line of \<open>app\<close> for each outcome.\<close>

fun app_last :: "entry \<Rightarrow> u8 list \<Rightarrow> bool" where
  "app_last (JumpTo _ _) l \<longleftrightarrow> l = ascii ''jump to relocated image''"
| "app_last (RunMain _ _ _) l \<longleftrightarrow> l = ascii ''jump to main''"
| "app_last Died l \<longleftrightarrow> (\<exists>why. l = ascii ''HALTED: '' @ ascii why)"

text \<open>A computation that returns what the silent one does, with that last line, or does not return either.\<close>

definition reports :: "entry option \<Rightarrow> entry console \<Rightarrow> bool" where
  "reports r k \<longleftrightarrow> (case r of None \<Rightarrow> \<forall>s. k s = None | Some x \<Rightarrow> \<exists>l. says k x (line l) \<and> app_last x l)"

lemma reports_die: "keeps_ready status \<Longrightarrow> reports (Some Died) (die status why Died)"
  unfolding reports_def using says_die by fastforce

lemma reports_line:
  "keeps_ready status \<Longrightarrow> app_last x cs \<Longrightarrow> reports (Some x) (bindC (print_line status cs) (\<lambda>_. returnC x))"
  unfolding reports_def using says_line_bind [where f = "\<lambda>_. returnC x", OF _ says_return] by fastforce

lemma reports_jump: "keeps_ready status \<Longrightarrow> reports (Some (copy_and_jump src a n m)) (copy_and_jump_console status src a n m)"
  by (simp add: copy_and_jump_console_def copy_and_jump_def Let_def reports_line)

lemma run_in_place_reports:
  assumes "keeps_ready status"
  shows "reports (run_in_place img params b own m) (run_in_place_console status img params b own m)"
proof (cases "fix_got img b m")
  case None
  then show ?thesis by (simp add: run_in_place_def run_in_place_console_def reports_def)
next
  case (Some m1)
  then show ?thesis
    by (auto simp: run_in_place_def run_in_place_console_def Let_def intro: reports_die reports_line assms split: sum.split option.split)
qed

lemma app_says:
  assumes "keeps_ready status"
  shows "case app img params b m of
      None \<Rightarrow> \<forall>s. app_console status fm img params pc b m s = None
    | Some x \<Rightarrow> \<exists>l. app_last x l \<and> says (app_console status fm img params pc b m) x
        (concat (map line ((ascii ''running at '' @ fm_hex fm b) # error_lines pc params @ [l])))"
proof -
  let ?sz = "image_end img - image_start img"
  define k where "k = (case find_unused_range params ?sz of
            None \<Rightarrow> die status ''failed to find relocation range'' Died
          | Some reloc_range \<Rightarrow>
              let addr = fst reloc_range; overlaps = addr < b + ?sz \<and> b < addr + ?sz
              in if addr \<noteq> b \<and> \<not> overlaps then copy_and_jump_console status b addr ?sz m
                 else run_in_place_console status img params b (if overlaps then (b, b + ?sz) else (addr, addr + ?sz)) m)"
  define v where "v = (case verify_params pc params of
              Inl x \<Rightarrow> uart_printfln status [ascii ''error on verifying params: '', ascii (params_error_text x)]
            | Inr _ \<Rightarrow> returnC ())"
  have unfold: "app_console status fm img params pc b m =
      bindC (uart_printfln status [ascii ''running at '', fm_hex fm b]) (\<lambda>_. bindC v (\<lambda>_. k))"
    by (simp add: app_console_def k_def v_def Let_def)
  have v: "says v () (concat (map line (error_lines pc params)))"
    using says_printfln [OF assms, of "[ascii ''error on verifying params: '', ascii (params_error_text x)]" for x] says_return [of "()"]
    by (simp add: v_def error_lines_def split: sum.split)
  have k: "reports (app img params b m) k"
    by (auto simp: app_def k_def Let_def intro: reports_die reports_jump run_in_place_reports assms split: option.split)
  show ?thesis
  proof (cases "app img params b m")
    case None
    with k show ?thesis by (auto simp: reports_def unfold bindC_def split: option.split)
  next
    case (Some x)
    with k obtain l where "says k x (line l)" "app_last x l" by (auto simp: reports_def)
    have "says (app_console status fm img params pc b m) x
        (line (concat [ascii ''running at '', fm_hex fm b]) @ concat (map line (error_lines pc params)) @ line l)"
      unfolding unfold by (rule says_printfln_bind [OF assms], rule says_bind [OF v]) (rule \<open>says k x (line l)\<close>)
    with Some \<open>app_last x l\<close> show ?thesis by auto
  qed
qed

text \<open>The lines of \<open>main\<close>.\<close>

definition hello :: "formats \<Rightarrow> SoC \<Rightarrow> u8 list" where
  "hello fm soc = ascii ''Hello from Rust and '' @ fm_soc fm soc @ ascii '' :)''"

definition heap_line :: "formats \<Rightarrow> u32 \<Rightarrow> u8 list" where
  "heap_line fm heap = ascii ''heap initialized at '' @ fm_hex fm heap @ ascii '' with '' @ fm_hex fm HEAP_SIZE @ ascii '' bytes''"

lemma says_banner_bind:
  assumes "keeps_ready status" and "says (f ()) b u"
  shows "says (bindC (banner status fm params) f) b (line [] @ line (hello fm (pp_soc params)) @ u)"
proof -
  have "says (banner status fm params) () (line [] @ line (hello fm (pp_soc params)))"
    unfolding banner_def hello_def
    by (rule says_same [OF says_line_bind [OF assms(1) says_printfln [OF assms(1)]]]) simp
  from says_bind [where f = f, OF this assms(2)] show ?thesis by simp
qed

definition heap_report :: "(nat \<Rightarrow> u32) \<Rightarrow> formats \<Rightarrow> u32 \<Rightarrow> unit console" where
  "heap_report status fm heap = uart_printfln status
     [ascii ''heap initialized at '', fm_hex fm heap, ascii '' with '', fm_hex fm HEAP_SIZE, ascii '' bytes'']"

lemma says_heap_bind:
  "keeps_ready status \<Longrightarrow> says (f ()) b u \<Longrightarrow> says (bindC (heap_report status fm heap) f) b (line (heap_line fm heap) @ u)"
  unfolding heap_report_def by (rule says_same [OF says_printfln_bind]) (simp_all add: heap_line_def)

lemma main_pl_says:
  assumes "keeps_ready status"
  shows "case main_pl n port params m of
      None \<Rightarrow> \<exists>us why. says (main_pl_console status fm n port params m) None (concat (map line (us @ [ascii ''HALTED: '' @ ascii why])))
    | Some d \<Rightarrow> says (main_pl_console status fm n port params m) (Some d) (concat (map line
        [[], hello fm (pp_soc params), heap_line fm (the (ba_ptr (is_heap (dv_icept d)))), ascii ''start usb'']))"
proof (cases "find_unused_range params HEAP_SIZE")
  case None
  have "main_pl_console status fm n port params m = bindC (banner status fm params) (\<lambda>_. die status ''failed to create heap'' None)"
    by (simp add: main_pl_console_def None)
  then have "says (main_pl_console status fm n port params m) None
      (concat (map line ([[], hello fm (pp_soc params)] @ [ascii ''HALTED: '' @ ascii ''failed to create heap''])))"
    using says_banner_bind [where f = "\<lambda>_. die status ''failed to create heap'' None", OF assms says_die [OF assms]] by simp
  then have "\<exists>us why. says (main_pl_console status fm n port params m) None (concat (map line (us @ [ascii ''HALTED: '' @ ascii why])))"
    by blast
  then show ?thesis by (simp add: main_pl_def None)
next
  case (Some heap)
  show ?thesis
  proof (cases "blacklist_dl params heap")
    case (Inl x)
    have "main_pl_console status fm n port params m = bindC (banner status fm params) (\<lambda>_.
        bindC (heap_report status fm (fst heap)) (\<lambda>_. die status ''unable to blacklist the heap'' None))"
      by (simp add: main_pl_console_def heap_report_def Some Inl Let_def)
    then have "says (main_pl_console status fm n port params m) None (line [] @ line (hello fm (pp_soc params)) @
        line (heap_line fm (fst heap)) @ line (ascii ''HALTED: '' @ ascii ''unable to blacklist the heap''))"
      by (simp only:) (rule says_banner_bind says_heap_bind says_die assms)+
    then have "says (main_pl_console status fm n port params m) None (concat (map line
        ([[], hello fm (pp_soc params), heap_line fm (fst heap)] @ [ascii ''HALTED: '' @ ascii ''unable to blacklist the heap''])))"
      by simp
    then have "\<exists>us why. says (main_pl_console status fm n port params m) None (concat (map line (us @ [ascii ''HALTED: '' @ ascii why])))"
      by blast
    then show ?thesis by (simp add: main_pl_def Some Inl Let_def)
  next
    case (Inr q)
    then obtain d where d: "main_pl n port params m = Some d" "ba_ptr (is_heap (dv_icept d)) = Some (fst heap)"
      by (simp add: main_pl_def Some Let_def bump_init_def)
    have "main_pl_console status fm n port params m = bindC (banner status fm params) (\<lambda>_.
        bindC (heap_report status fm (fst heap)) (\<lambda>_. bindC (print_line status (ascii ''start usb'')) (\<lambda>_. returnC (Some d))))"
      using d(1) by (simp add: main_pl_console_def main_pl_def heap_report_def Some Inr Let_def)
    then have "says (main_pl_console status fm n port params m) (Some d) (line [] @ line (hello fm (pp_soc params)) @
        line (heap_line fm (fst heap)) @ line (ascii ''start usb'') @ [])"
      by (simp only:) (rule says_banner_bind says_heap_bind says_line_bind says_return assms)+
    with d show ?thesis by simp
  qed
qed

lemma main_brom_says:
  assumes "keeps_ready status"
  shows "says (main_brom_console status fm n port params m) (main_brom n port params m)
    (concat (map line [[], hello fm (pp_soc params), ascii ''start usb'']))"
proof -
  have "says (main_brom_console status fm n port params m) (main_brom n port params m)
      (line [] @ line (hello fm (pp_soc params)) @ line (ascii ''start usb'') @ [])"
    unfolding main_brom_console_def by (rule says_banner_bind says_line_bind says_return assms)+
  then show ?thesis by simp
qed

text \<open>The chip in the parameters is never changed.\<close>

lemma blacklist_dl_soc: "blacklist_dl p r = Inr q \<Longrightarrow> pp_soc q = pp_soc p"
  by (drule blacklist_grows) (metis PayloadParams.select_convs(7) PayloadParams.surjective PayloadParams.update_convs(4))

lemma app_soc: "app img params b m = Some (RunMain sp q m1) \<Longrightarrow> pp_soc q = pp_soc params"
  by (erule app_claims) (auto elim!: dl.claim_cases dest!: blacklist_dl_soc)

text \<open>What the lines after the greeting say for each way the start ends.\<close>

fun start_report :: "formats \<Rightarrow> PayloadParams \<Rightarrow> 'p started \<Rightarrow> u8 list list \<Rightarrow> bool" where
  "start_report fm params (Moved _ _) ls \<longleftrightarrow> ls = [ascii ''jump to relocated image'']"
| "start_report fm params (Serves _ d) ls \<longleftrightarrow> ls = [ascii ''jump to main'', [], hello fm (pp_soc params),
     heap_line fm (the (ba_ptr (is_heap (dv_icept d)))), ascii ''start usb'']"
| "start_report fm params Halts ls \<longleftrightarrow> (\<exists>us why. ls = us @ [ascii ''HALTED: '' @ ascii why])"

lemma pl_rest_says:
  assumes "keeps_ready status" and "app img params start m = Some x" and "app_last x l"
  shows "\<exists>ks. start_report fm params (pl_outcome n port x) (l # ks) \<and>
    says (pl_rest_console status fm n port x) (pl_outcome n port x) (concat (map line ks))"
proof (cases x)
  case (RunMain sp q m1)
  let ?f = "\<lambda>d. returnC (case d of None \<Rightarrow> Halts | Some d \<Rightarrow> Serves sp d) :: 'a started console"
  have l: "l = ascii ''jump to main''" using assms(3) RunMain by simp
  have soc: "pp_soc q = pp_soc params" using app_soc assms(2) RunMain by blast
  have rest: "says (pl_rest_console status fm n port x) (case d of None \<Rightarrow> Halts | Some d \<Rightarrow> Serves sp d) (concat (map line ks))"
    if "says (main_pl_console status fm n port q m1) d (concat (map line ks))" for d ks
    using says_bind [where f = ?f, OF that says_return] RunMain by (simp add: pl_rest_console_def)
  show ?thesis
  proof (cases "main_pl n port q m1")
    case None
    with main_pl_says [where n = n and port = port and params = q and m = m1 and fm = fm, OF assms(1)] obtain us why where
      "says (main_pl_console status fm n port q m1) None (concat (map line (us @ [ascii ''HALTED: '' @ ascii why])))" by auto
    from rest [OF this] None RunMain show ?thesis
      by (intro exI [of _ "us @ [ascii ''HALTED: '' @ ascii why]"]) (auto simp: pl_outcome_def intro!: exI [of _ "l # us"])
  next
    case (Some d)
    let ?ks = "[[], hello fm (pp_soc params), heap_line fm (the (ba_ptr (is_heap (dv_icept d)))), ascii ''start usb'']"
    have "says (main_pl_console status fm n port q m1) (Some d) (concat (map line ?ks))"
      using main_pl_says [where n = n and port = port and params = q and m = m1 and fm = fm, OF assms(1)] Some soc by simp
    from rest [OF this] Some RunMain l show ?thesis by (intro exI [of _ ?ks]) (simp add: pl_outcome_def)
  qed
next
  case (JumpTo a m1)
  then show ?thesis using assms(3)
    by (intro exI [of _ "[]"]) (simp add: pl_outcome_def pl_rest_console_def says_return)
next
  case Died
  then show ?thesis using assms(3)
    by (intro exI [of _ "[]"]) (auto simp: pl_outcome_def pl_rest_console_def says_return Cons_eq_append_conv)
qed

lemma pl_start_says:
  assumes "keeps_ready status" and "pl_start img params start m n port = Some x"
  shows "\<exists>ls. start_report fm params x ls \<and> says (pl_start_console status fm img params pc start m n port) x
    (concat (map line ((ascii ''running at '' @ fm_hex fm start) # error_lines pc params @ ls)))"
proof -
  have r0: "er_r0 (start_regs start) = start" by (simp add: start_regs_def)
  from assms(2) obtain y where y: "app img params start m = Some y" and x: "x = pl_outcome n port y"
    by (auto simp: pl_start_def r0)
  with app_says [where img = img and params = params and b = start and m = m and fm = fm and pc = pc, OF assms(1)] obtain l where
    l: "app_last y l" "says (app_console status fm img params pc start m) y
      (concat (map line ((ascii ''running at '' @ fm_hex fm start) # error_lines pc params @ [l])))" by auto
  from pl_rest_says [where fm = fm and n = n and port = port, OF assms(1) y l(1)] obtain ks where
    ks: "start_report fm params x (l # ks)" "says (pl_rest_console status fm n port y) x (concat (map line ks))"
    unfolding x by blast
  from says_bind [where f = "pl_rest_console status fm n port", OF l(2) ks(2)] ks(1) show ?thesis
    by (intro exI [of _ "l # ks"]) (simp add: pl_start_console_def r0)
qed

section \<open>Properties\<close>

text \<open>C16: The console only reports. As long as the transmitter keeps becoming ready, the start of the preloader
  payload with its output ends exactly as it does without: it moves, halts, or reaches the handler with
  the same device, or does not return either. It has then printed its address, the error of the
  parameters if there is one, and the lines of that outcome, a halt being announced last. When the
  transmitter is never ready, the payload does not get past its first line and never starts.\<close>

theorem console_only_reports:
  assumes "keeps_ready status"
  shows "(case pl_start img params start m n port of
      None \<Rightarrow> pl_start_console status fm img params pc start m n port s = None
    | Some x \<Rightarrow> \<exists>ls s'. start_report fm params x ls \<and>
        pl_start_console status fm img params pc start m n port s = Some (x, s') \<and>
        ua_sent s' = ua_sent s @ map ucast (concat (map line ((ascii ''running at '' @ fm_hex fm start) # error_lines pc params @ ls)))) \<and>
    ((\<forall>i. \<not> tx_ready (dead i)) \<longrightarrow> pl_start_console dead fm img params pc start m n port s = None)"
proof (intro conjI impI)
  have r0: "er_r0 (start_regs start) = start" by (simp add: start_regs_def)
  show "pl_start_console dead fm img params pc start m n port s = None" if "\<forall>i. \<not> tx_ready (dead i)"
    using dead_printfln [OF that] by (simp add: pl_start_console_def app_console_def bindC_def)
  show "case pl_start img params start m n port of
      None \<Rightarrow> pl_start_console status fm img params pc start m n port s = None
    | Some x \<Rightarrow> \<exists>ls s'. start_report fm params x ls \<and>
        pl_start_console status fm img params pc start m n port s = Some (x, s') \<and>
        ua_sent s' = ua_sent s @ map ucast (concat (map line ((ascii ''running at '' @ fm_hex fm start) # error_lines pc params @ ls)))"
  proof (cases "pl_start img params start m n port")
    case None
    then have "app img params start m = None" by (simp add: pl_start_def r0)
    with app_says [where img = img and params = params and b = start and m = m and fm = fm and pc = pc, OF assms] None show ?thesis
      by (simp add: pl_start_console_def r0 bindC_def)
  next
    case (Some x)
    from pl_start_says [where fm = fm and pc = pc, OF assms this] obtain ls where
      ls: "start_report fm params x ls" "says (pl_start_console status fm img params pc start m n port) x
        (concat (map line ((ascii ''running at '' @ fm_hex fm start) # error_lines pc params @ ls)))" by blast
    from ls(2) obtain s' where "pl_start_console status fm img params pc start m n port s = Some (x, s')"
      "ua_sent s' = ua_sent s @ map ucast (concat (map line ((ascii ''running at '' @ fm_hex fm start) # error_lines pc params @ ls)))"
      unfolding says_def by blast
    with Some ls(1) show ?thesis by (auto simp del: list.map concat.simps)
  qed
qed

definition sample_formats :: formats where
  "sample_formats = \<lparr>fm_hex = (\<lambda>v. [0x30, 0x78] @ ascii (if v < 10 then ''0'' else ''?'')), fm_soc = (\<lambda>_. ascii ''MT6572'')\<rparr>"

lemma console_only_reports_witness:
  "\<exists>d s'. pl_start (sample_image 0) sample_params 0x80001008 (\<lambda>_. 0) 24 \<lparr>q_in = [], q_out = []\<rparr> = Some (Serves 0x80003008 d) \<and>
     pl_start_console (\<lambda>i. if even i then 0 else 0x60) sample_formats (sample_image 0) sample_params 0x80001100 0x80001008 (\<lambda>_. 0) 24
       \<lparr>q_in = [], q_out = []\<rparr> \<lparr>ua_reads = 0, ua_sent = []\<rparr> = Some (Serves 0x80003008 d, s') \<and>
     ua_sent s' = map ucast (concat (map line ((ascii ''running at '' @ fm_hex sample_formats 0x80001008) #
       error_lines 0x80001100 sample_params @ [ascii ''jump to main'', [], hello sample_formats (pp_soc sample_params),
         heap_line sample_formats (the (ba_ptr (is_heap (dv_icept d)))), ascii ''start usb''])))"
proof -
  let ?p = "\<lparr>q_in = [], q_out = []\<rparr> :: queues"
  obtain q m1 and d :: "queues device" where a: "app (sample_image 0) sample_params 0x80001008 (\<lambda>_. 0) = Some (RunMain 0x80003008 q m1)"
    and d: "main_pl 24 ?p q m1 = Some d" by (rule sample_started)
  have start: "pl_start (sample_image 0) sample_params 0x80001008 (\<lambda>_. 0) 24 ?p = Some (Serves 0x80003008 d)"
    using a d by (simp add: pl_start_def start_regs_def pl_outcome_def)
  from conjunct1 [OF console_only_reports [where img = "sample_image 0" and params = sample_params and start = "0x80001008" and m = "\<lambda>_. 0" and n = 24
      and port = ?p and fm = sample_formats and pc = "0x80001100" and s = "\<lparr>ua_reads = 0, ua_sent = []\<rparr>", OF sample_ready]] start
  show ?thesis by (auto simp del: list.map concat.simps)
qed

end
