(* ===== verification/HandlerConsole.thy ===== *)
theory HandlerConsole
  imports Console Hooks
begin

text \<open>
  The request handler and the hook of the partition read as they print, \<open>payloads/rpc/src/usb.rs\<close> and
  \<open>hooks.rs\<close>. Theories \<open>Device\<close> and \<open>Hooks\<close> have the same functions without output; here every turn is given the
  lines it prints, and the lemmas show that the console shows those lines, in order, and changes nothing else.
\<close>

section \<open>Printing while serving\<close>

text \<open>The handler may stop at a line for ever; \<open>Stuck\<close> has the device as it is then.\<close>

datatype ('d, 'a) progress = Finished 'a uart | Stuck 'd

type_synonym ('d, 'a) serving = "uart \<Rightarrow> ('d, 'a) progress"

definition returnP :: "'a \<Rightarrow> ('d, 'a) serving" where
  "returnP a s = Finished a s"

definition bindP :: "('d, 'a) serving \<Rightarrow> ('a \<Rightarrow> ('d, 'b) serving) \<Rightarrow> ('d, 'b) serving" where
  "bindP m f s = (case m s of Finished a s' \<Rightarrow> f a s' | Stuck d \<Rightarrow> Stuck d)"

text \<open>Output while the device is \<open>d\<close>.\<close>

definition while_at :: "'d \<Rightarrow> 'a console \<Rightarrow> ('d, 'a) serving" where
  "while_at d m s = (case m s of None \<Rightarrow> Stuck d | Some (a, s') \<Rightarrow> Finished a s')"

section \<open>The handler\<close>

definition do_write_console :: "(nat \<Rightarrow> u32) \<Rightarrow> formats \<Rightarrow> 'p env \<Rightarrow> 'p device \<Rightarrow> u32 \<Rightarrow> u32 \<Rightarrow>
    ('p device, (Response \<times> 'p device) option) serving" where
  "do_write_console status fm e d addr sz =
     (let answer = do_write e d addr sz
      in bindP (while_at (snd answer) (uart_printfln status [ascii ''read '', fm_hex fm sz, ascii '' bytes to '', fm_hex fm addr]))
           (\<lambda>_. returnP (Some answer)))"

definition do_hook_console :: "(nat \<Rightarrow> u32) \<Rightarrow> 'p env \<Rightarrow> 'p device \<Rightarrow> HookId \<Rightarrow>
    ('p device, (Response \<times> 'p device) option) serving" where
  "do_hook_console status e d h =
     (if ev_pl e then
        (case h of MtPartGenericRead \<Rightarrow>
          (case dv_lk d of
             Some params \<Rightarrow>
               (case hook_replace alloc (ev_body e) (ptr_mt_part_generic_read params OR 1) (dv_addr d, dv_icept d) of
                  None \<Rightarrow> returnP None
                | Some (_, a, s) \<Rightarrow>
                    let d' = d\<lparr>dv_addr := a, dv_icept := s\<rparr>
                    in bindP (while_at d' (print_line status (ascii ''replaced mt_part_generic_read'')))
                         (\<lambda>_. returnP (Some (RAck, d'))))
           | None \<Rightarrow> returnP (Some (RNack InvalidParams, d))))
      else returnP (Some (RNack NotSupported, d)))"

fun print_ranges :: "(nat \<Rightarrow> u32) \<Rightarrow> formats \<Rightarrow> BlacklistRange list \<Rightarrow> unit console" where
  "print_ranges status fm [] = returnC ()"
| "print_ranges status fm (b # bs) =
     bindC (uart_printfln status [[0x09], fm_hex fm (mr_start (bl_range b)), ascii ''..'', fm_hex fm (mr_end (bl_range b))])
       (\<lambda>_. print_ranges status fm bs)"

definition do_blacklist_console :: "(nat \<Rightarrow> u32) \<Rightarrow> formats \<Rightarrow> 'p device \<Rightarrow> u32 \<times> u32 \<Rightarrow>
    ('p device, (Response \<times> 'p device) option) serving" where
  "do_blacklist_console status fm d r =
     (case blacklist_dl (dv_params d) r of
        Inr params \<Rightarrow> returnP (Some (RAck, d\<lparr>dv_params := params\<rparr>))
      | Inl _ \<Rightarrow>
          bindP (while_at d (print_line status (ascii ''can't blacklist anymore, increase max ranges''))) (\<lambda>_.
          bindP (while_at d (print_line status (ascii ''blacklisted ranges:''))) (\<lambda>_.
          bindP (while_at d (print_ranges status fm (pp_blacklist (dv_params d)))) (\<lambda>_.
            returnP (Some (RNack NotSupported, d))))))"

text \<open>The other messages print nothing; \<open>None\<close> within the result is a call that does not come back.\<close>

definition handle_message_console :: "(nat \<Rightarrow> u32) \<Rightarrow> formats \<Rightarrow> 'p env \<Rightarrow> 'p device \<Rightarrow> Message \<Rightarrow>
    ('p device, (Response \<times> 'p device) option) serving" where
  "handle_message_console status fm e d message =
     (case message of
        MWrite addr sz \<Rightarrow> do_write_console status fm e d addr sz
      | MHook h \<Rightarrow> do_hook_console status e d h
      | MBlacklistRange r \<Rightarrow> do_blacklist_console status fm d r
      | _ \<Rightarrow> returnP (handle_message e d message))"

definition respond_console :: "(nat \<Rightarrow> u32) \<Rightarrow> 'p env \<Rightarrow> 'p device \<Rightarrow> Response \<Rightarrow> ('p device, 'p turn) serving" where
  "respond_console status e d response =
     (let (r, p) = send_response (ev_ops e) (ev_codecs e) (dv_proto d) response; d = d\<lparr>dv_proto := p\<rparr>
      in case r of
           Inl _ \<Rightarrow> while_at d (die status ''Error sending response, giving up'' (Halted d))
         | Inr _ \<Rightarrow> returnP (Continue d))"

definition handler_step_console :: "(nat \<Rightarrow> u32) \<Rightarrow> formats \<Rightarrow> 'p env \<Rightarrow> 'p device \<Rightarrow> ('p device, 'p turn) serving" where
  "handler_step_console status fm e d =
     (let (r, p) = read_message (ev_ops e) (ev_codecs e) (dv_proto d); d = d\<lparr>dv_proto := p\<rparr>
      in case r of
           Inl Panic \<Rightarrow> while_at d (panic_handler status (Halted d))
         | Inl _ \<Rightarrow>
             bindP (while_at d (print_line status (ascii ''Error reading message'')))
               (\<lambda>_. respond_console status e d (RNack Unreachable))
         | Inr message \<Rightarrow>
             bindP (handle_message_console status fm e d message) (\<lambda>answer.
               case answer of None \<Rightarrow> returnP Left | Some (response, d) \<Rightarrow> respond_console status e d response))"

fun handler_turns_console :: "(nat \<Rightarrow> u32) \<Rightarrow> formats \<Rightarrow> 'p env \<Rightarrow> nat \<Rightarrow> 'p device \<Rightarrow> ('p device, 'p turn) serving" where
  "handler_turns_console status fm e 0 d = returnP (Continue d)"
| "handler_turns_console status fm e (Suc n) d =
     bindP (handler_step_console status fm e d)
       (\<lambda>t. case t of Continue d' \<Rightarrow> handler_turns_console status fm e n d' | _ \<Rightarrow> returnP t)"

definition handshake_console :: "(nat \<Rightarrow> u32) \<Rightarrow> 'p env \<Rightarrow> 'p device \<Rightarrow> ('p device, 'p turn) serving" where
  "handshake_console status e d =
     bindP (while_at d (print_line status (ascii ''send''))) (\<lambda>_.
       let (sent, p) = send_message (ev_ops e) (ev_codecs e) (dv_proto d) MAck; d = d\<lparr>dv_proto := p\<rparr>
       in case sent of
            Inl _ \<Rightarrow> while_at d (die status ''failed to send ack'' (Halted d))
          | Inr _ \<Rightarrow>
              bindP (while_at d (print_line status (ascii ''wait''))) (\<lambda>_.
                let (answer, p) = read_response (ev_ops e) (ev_codecs e) (dv_proto d); d = d\<lparr>dv_proto := p\<rparr>
                in case answer of
                     Inl Panic \<Rightarrow> while_at d (panic_handler status (Halted d))
                   | Inl _ \<Rightarrow> while_at d (die status ''got invalid ack'' (Halted d))
                   | Inr r \<Rightarrow>
                       if response_is_ack r
                       then bindP (while_at d (print_line status (ascii ''Ready for commands''))) (\<lambda>_. returnP (Continue d))
                       else while_at d (die status ''got invalid ack'' (Halted d))))"

definition handler_console :: "(nat \<Rightarrow> u32) \<Rightarrow> formats \<Rightarrow> 'p env \<Rightarrow> nat \<Rightarrow> 'p device \<Rightarrow> ('p device, 'p turn) serving" where
  "handler_console status fm e n d =
     bindP (handshake_console status e d)
       (\<lambda>t. case t of Continue d' \<Rightarrow> handler_turns_console status fm e n d' | _ \<Rightarrow> returnP t)"

text \<open>The hook; a panic runs the handler of panics.\<close>

definition mt_part_generic_read_console :: "(nat \<Rightarrow> u32) \<Rightarrow> (u32 \<Rightarrow> u8 list \<Rightarrow> u32) \<Rightarrow> LKRunnerParams option \<Rightarrow>
    u32 \<times> 'h istate \<Rightarrow> u32 \<Rightarrow> u64 \<Rightarrow> u32 \<Rightarrow> u32 \<Rightarrow> hooked_read console" where
  "mt_part_generic_read_console status get_partition lk hook dev src dst sz =
     (case lk of
        None \<Rightarrow> panic_handler status Panicked
      | Some params \<Rightarrow>
          let m = is_mem (snd hook);
              entry = boot_entry get_partition (ptr_mt_part_get_partition params OR 1);
              delta = ucast (src - boot_address m entry) :: u32
          in if fst entry \<noteq> 0 \<and> delta \<le> 0x1000
             then bindC (print_line status (ascii ''replacing boot.img''))
                    (\<lambda>_. returnC (Served sz (copy_nonoverlapping m (bootimg_scratch_addr params + delta) dst (unat sz))))
             else returnC (Original (hook_original hook OR 1) dev src dst sz m))"

section \<open>The lines\<close>

definition range_line :: "formats \<Rightarrow> BlacklistRange \<Rightarrow> u8 list" where
  "range_line fm b = 0x09 # fm_hex fm (mr_start (bl_range b)) @ ascii ''..'' @ fm_hex fm (mr_end (bl_range b))"

text \<open>A request and its response determine the lines between them, a refused reservation with the ranges of the device.\<close>

definition message_lines :: "formats \<Rightarrow> 'p device \<Rightarrow> Message \<Rightarrow> Response \<Rightarrow> u8 list list" where
  "message_lines fm d message response =
     (case (message, response) of
        (MWrite addr sz, _) \<Rightarrow> [ascii ''read '' @ fm_hex fm sz @ ascii '' bytes to '' @ fm_hex fm addr]
      | (MHook _, RAck) \<Rightarrow> [ascii ''replaced mt_part_generic_read'']
      | (MBlacklistRange _, RNack _) \<Rightarrow>
          [ascii ''can't blacklist anymore, increase max ranges'', ascii ''blacklisted ranges:''] @
          map (range_line fm) (pp_blacklist (dv_params d))
      | _ \<Rightarrow> [])"

definition halt_lines :: "string \<Rightarrow> 'p turn \<Rightarrow> u8 list list" where
  "halt_lines why t = (case t of Halted _ \<Rightarrow> [ascii ''HALTED: '' @ ascii why] | _ \<Rightarrow> [])"

definition turn_lines :: "formats \<Rightarrow> 'p env \<Rightarrow> 'p device \<Rightarrow> u8 list list" where
  "turn_lines fm e d =
     (case read_message (ev_ops e) (ev_codecs e) (dv_proto d) of
        (Inl Panic, _) \<Rightarrow> [ascii ''Panic :('']
      | (Inl _, _) \<Rightarrow> ascii ''Error reading message'' # halt_lines ''Error sending response, giving up'' (handler_step e d)
      | (Inr m, p) \<Rightarrow>
          (case handle_message e (d\<lparr>dv_proto := p\<rparr>) m of
             None \<Rightarrow> []
           | Some (response, _) \<Rightarrow> message_lines fm d m response @ halt_lines ''Error sending response, giving up'' (handler_step e d)))"

fun turns_lines :: "formats \<Rightarrow> 'p env \<Rightarrow> nat \<Rightarrow> 'p device \<Rightarrow> u8 list list" where
  "turns_lines fm e 0 d = []"
| "turns_lines fm e (Suc n) d =
     turn_lines fm e d @ (case handler_step e d of Continue d' \<Rightarrow> turns_lines fm e n d' | _ \<Rightarrow> [])"

section \<open>What is printed\<close>

text \<open>Whatever the console is busy with, the computation returns \<open>a\<close> and has printed these lines.\<close>

definition logs :: "'a console \<Rightarrow> 'a \<Rightarrow> u8 list list \<Rightarrow> bool" where
  "logs m a ls \<longleftrightarrow> says m a (concat (map line ls))"

lemma logs_says: "says m a (concat (map line ls)) \<Longrightarrow> logs m a ls"
  by (simp add: logs_def)

lemma logs_return: "logs (returnC a) a []"
  by (simp add: logs_def says_return)

lemma logs_bind: "logs m a ls \<Longrightarrow> logs (f a) b ks \<Longrightarrow> logs (bindC m f) b (ls @ ks)"
  unfolding logs_def by (rule says_same [OF says_bind]) simp_all

lemma logs_line: "keeps_ready status \<Longrightarrow> logs (f ()) b ls \<Longrightarrow> logs (bindC (print_line status cs) f) b (cs # ls)"
  unfolding logs_def using says_line_bind by fastforce

lemma logs_printfln:
  "keeps_ready status \<Longrightarrow> concat ps = l \<Longrightarrow> logs (f ()) b ls \<Longrightarrow> logs (bindC (uart_printfln status ps) f) b (l # ls)"
  unfolding logs_def using says_printfln_bind by fastforce

lemma logs_die: "keeps_ready status \<Longrightarrow> logs (die status why a) a [ascii ''HALTED: '' @ ascii why]"
  unfolding logs_def using says_die by fastforce

lemma logs_panic: "keeps_ready status \<Longrightarrow> logs (panic_handler status a) a [ascii ''Panic :('']"
  unfolding panic_handler_def by (intro logs_line logs_return)

text \<open>The same of the handler: it finishes with \<open>a\<close> and has printed these lines.\<close>

definition serves :: "('d, 'a) serving \<Rightarrow> 'a \<Rightarrow> u8 list list \<Rightarrow> bool" where
  "serves m a ls \<longleftrightarrow> (\<forall>s. \<exists>s'. m s = Finished a s' \<and> ua_sent s' = ua_sent s @ map ucast (concat (map line ls)))"

lemma serves_return: "serves (returnP a) a []"
  by (simp add: serves_def returnP_def)

lemma serves_at:
  assumes "logs m a ls"
  shows "serves (while_at d m) a ls"
  unfolding serves_def
proof
  fix s
  from assms obtain s' where "m s = Some (a, s')" "ua_sent s' = ua_sent s @ map ucast (concat (map line ls))"
    unfolding logs_def says_def by blast
  then show "\<exists>s'. while_at d m s = Finished a s' \<and> ua_sent s' = ua_sent s @ map ucast (concat (map line ls))"
    by (simp add: while_at_def)
qed

lemma serves_bind:
  assumes "serves m a ls" and "serves (f a) b ks"
  shows "serves (bindP m f) b (ls @ ks)"
  unfolding serves_def
proof
  fix s
  from assms(1) obtain s1 where s1: "m s = Finished a s1" "ua_sent s1 = ua_sent s @ map ucast (concat (map line ls))"
    by (auto simp: serves_def)
  from assms(2) obtain s2 where "f a s1 = Finished b s2" "ua_sent s2 = ua_sent s1 @ map ucast (concat (map line ks))"
    by (auto simp: serves_def)
  with s1 show "\<exists>s'. bindP m f s = Finished b s' \<and> ua_sent s' = ua_sent s @ map ucast (concat (map line (ls @ ks)))"
    by (simp add: bindP_def)
qed

lemma serves_line: "keeps_ready status \<Longrightarrow> serves (f ()) b ls \<Longrightarrow> serves (bindP (while_at d (print_line status cs)) f) b (cs # ls)"
  using serves_bind [OF serves_at [OF logs_says [where ls = "[cs]"]]] says_print_line by fastforce

lemma serves_printfln:
  "keeps_ready status \<Longrightarrow> concat ps = l \<Longrightarrow> serves (f ()) b ls \<Longrightarrow>
   serves (bindP (while_at d (uart_printfln status ps)) f) b (l # ls)"
  using serves_bind [OF serves_at [OF logs_says [where ls = "[l]"]]] says_printfln by fastforce

lemma serves_die: "keeps_ready status \<Longrightarrow> serves (while_at d (die status why a)) a [ascii ''HALTED: '' @ ascii why]"
  by (intro serves_at logs_die)

lemma serves_panic: "keeps_ready status \<Longrightarrow> serves (while_at d (panic_handler status a)) a [ascii ''Panic :('']"
  by (intro serves_at logs_panic)

lemma logs_ranges: "keeps_ready status \<Longrightarrow> logs (print_ranges status fm bs) () (map (range_line fm) bs)"
proof (induction bs)
  case (Cons b bs)
  from Cons.IH [OF Cons.prems] show ?case by (simp add: range_line_def logs_printfln Cons.prems)
qed (simp add: logs_return)

text \<open>What goes on with a turn only if the loop continues.\<close>

lemma serves_turn:
  assumes "serves m t ls" and "\<And>d. serves (g d) (h d) (ks d)"
  shows "serves (bindP m (\<lambda>t. case t of Continue d \<Rightarrow> g d | _ \<Rightarrow> returnP t)) (case t of Continue d \<Rightarrow> h d | _ \<Rightarrow> t)
    (ls @ (case t of Continue d \<Rightarrow> ks d | _ \<Rightarrow> []))"
  using assms(1) by (rule serves_bind) (cases t; simp add: assms(2) serves_return)

lemma do_blacklist_printing:
  assumes "keeps_ready status"
  shows "serves (do_blacklist_console status fm d r) (Some (do_blacklist d r)) (message_lines fm d (MBlacklistRange r) (fst (do_blacklist d r)))"
proof (cases "blacklist_dl (dv_params d) r")
  case (Inl x)
  from serves_bind [where f = "\<lambda>_. returnP (Some (RNack NotSupported, d))", OF serves_at [OF logs_ranges [OF assms]] serves_return]
  have "serves (bindP (while_at d (print_ranges status fm (pp_blacklist (dv_params d)))) (\<lambda>_. returnP (Some (RNack NotSupported, d))))
      (Some (RNack NotSupported, d)) (map (range_line fm) (pp_blacklist (dv_params d)))" by simp
  with Inl show ?thesis by (simp add: do_blacklist_console_def do_blacklist_def message_lines_def serves_line assms)
qed (simp add: do_blacklist_console_def do_blacklist_def message_lines_def serves_return)

text \<open>The answer to a message, with its lines.\<close>

lemma handle_message_printing:
  assumes "keeps_ready status"
  shows "serves (handle_message_console status fm e d m) (handle_message e d m)
    (case handle_message e d m of None \<Rightarrow> [] | Some (r, _) \<Rightarrow> message_lines fm d m r)"
proof (cases m)
  case (MWrite a n)
  then show ?thesis
    by (simp add: serves_printfln serves_return assms handle_message_console_def handle_message_def do_write_console_def message_lines_def Let_def split: prod.split)
next
  case (MHook h)
  then show ?thesis
    by (cases h) (auto simp: handle_message_console_def handle_message_def do_hook_console_def Let_def do_hook_def message_lines_def
        intro: serves_line serves_return assms split: option.split)
next
  case (MBlacklistRange r)
  from do_blacklist_printing [OF assms, of fm d r] MBlacklistRange show ?thesis
    by (cases "do_blacklist d r") (simp add: handle_message_console_def handle_message_def)
qed (auto simp: handle_message_console_def message_lines_def serves_return split: option.split)

definition respond :: "'p env \<Rightarrow> 'p device \<Rightarrow> Response \<Rightarrow> 'p turn" where
  "respond e d response =
     (case send_response (ev_ops e) (ev_codecs e) (dv_proto d) response of
        (Inl _, p) \<Rightarrow> Halted (d\<lparr>dv_proto := p\<rparr>)
      | (Inr _, p) \<Rightarrow> Continue (d\<lparr>dv_proto := p\<rparr>))"

lemma respond_printing:
  "keeps_ready status \<Longrightarrow> serves (respond_console status e d r) (respond e d r)
     (halt_lines ''Error sending response, giving up'' (respond e d r))"
  by (auto simp: respond_console_def Let_def respond_def halt_lines_def intro: serves_die serves_return split: prod.split sum.split)

lemma handler_step_respond:
  "handler_step e d =
     (let (r, p) = read_message (ev_ops e) (ev_codecs e) (dv_proto d); d = d\<lparr>dv_proto := p\<rparr>
      in case r of
           Inl Panic \<Rightarrow> Halted d
         | Inl _ \<Rightarrow> respond e d (RNack Unreachable)
         | Inr m \<Rightarrow> (case handle_message e d m of None \<Rightarrow> Left | Some (response, d) \<Rightarrow> respond e d response))"
  by (auto simp: handler_step_def respond_def Let_def split: prod.split sum.split option.split wire_err.split)

lemma handler_step_printing:
  assumes "keeps_ready status"
  shows "serves (handler_step_console status fm e d) (handler_step e d) (turn_lines fm e d)"
proof -
  obtain r p where r: "read_message (ev_ops e) (ev_codecs e) (dv_proto d) = (r, p)" by (rule prod.exhaust)
  let ?d = "d\<lparr>dv_proto := p\<rparr>"
  show ?thesis
  proof (cases r)
    case (Inl x)
    have "serves (bindP (while_at ?d (print_line status t)) (\<lambda>_. respond_console status e ?d (RNack Unreachable))) (respond e ?d (RNack Unreachable))
        (t # halt_lines ''Error sending response, giving up'' (respond e ?d (RNack Unreachable)))" for t
      by (intro serves_line respond_printing assms)
    with Inl r show ?thesis
      by (cases x) (simp_all add: handler_step_console_def Let_def handler_step_respond turn_lines_def serves_panic assms)
  next
    case (Inr m)
    let ?f = "\<lambda>answer. case answer of None \<Rightarrow> returnP Left | Some (response, d) \<Rightarrow> respond_console status e d response"
    note answer = handle_message_printing [where e = e and d = ?d and m = m and fm = fm, OF assms]
    have lines: "message_lines fm ?d m x = message_lines fm d m x" for x by (simp add: message_lines_def split: Message.split Response.split)
    show ?thesis
    proof (cases "handle_message e ?d m")
      case None
      with serves_bind [where f = ?f, OF answer] Inr r show ?thesis
        by (simp add: handler_step_console_def Let_def handler_step_respond turn_lines_def serves_return)
    next
      case (Some rd)
      obtain x d1 where rd: "rd = (x, d1)" by (rule prod.exhaust)
      have "serves (?f (Some (x, d1))) (respond e d1 x) (halt_lines ''Error sending response, giving up'' (respond e d1 x))"
        by (simp add: respond_printing assms)
      with serves_bind [where f = ?f, OF answer] Some rd Inr r lines show ?thesis
        by (simp add: handler_step_console_def Let_def handler_step_respond turn_lines_def)
    qed
  qed
qed

lemma handler_turns_printing:
  assumes "keeps_ready status"
  shows "serves (handler_turns_console status fm e n d) (handler_turns e n d) (turns_lines fm e n d)"
proof (induction n arbitrary: d)
  case (Suc n)
  from serves_turn [where g = "handler_turns_console status fm e n" and h = "handler_turns e n" and ks = "turns_lines fm e n",
      OF handler_step_printing [OF assms, of fm e d] Suc.IH] show ?case
    by (cases "handler_step e d") simp_all
qed (simp add: serves_return)

definition handshake_lines :: "'p env \<Rightarrow> 'p device \<Rightarrow> u8 list list" where
  "handshake_lines e d = ascii ''send'' #
     (case send_message (ev_ops e) (ev_codecs e) (dv_proto d) MAck of
        (Inl _, _) \<Rightarrow> [ascii ''HALTED: '' @ ascii ''failed to send ack'']
      | (Inr _, p) \<Rightarrow> ascii ''wait'' #
          (case read_response (ev_ops e) (ev_codecs e) p of
             (Inl Panic, _) \<Rightarrow> [ascii ''Panic :('']
           | (Inl _, _) \<Rightarrow> [ascii ''HALTED: '' @ ascii ''got invalid ack'']
           | (Inr r, _) \<Rightarrow> if response_is_ack r then [ascii ''Ready for commands''] else [ascii ''HALTED: '' @ ascii ''got invalid ack'']))"

definition handler_lines :: "formats \<Rightarrow> 'p env \<Rightarrow> nat \<Rightarrow> 'p device \<Rightarrow> u8 list list" where
  "handler_lines fm e n d =
     handshake_lines e d @ (case handshake e d of Continue d' \<Rightarrow> turns_lines fm e n d' | _ \<Rightarrow> [])"

lemma handshake_printing: "keeps_ready status \<Longrightarrow> serves (handshake_console status e d) (handshake e d) (handshake_lines e d)"
  unfolding handshake_console_def handshake_lines_def Let_def
  by (intro serves_line)
    (auto simp: handshake_def intro!: serves_line serves_die serves_panic serves_return split: prod.split sum.split wire_err.split)

lemma handler_printing: "keeps_ready status \<Longrightarrow> serves (handler_console status fm e n d) (handler e n d) (handler_lines fm e n d)"
  using serves_turn [where g = "handler_turns_console status fm e n" and h = "handler_turns e n" and ks = "turns_lines fm e n",
      OF handshake_printing [of status e d] handler_turns_printing]
  by (cases "handshake e d") (simp_all add: handler_console_def handler_def handler_lines_def)

text \<open>The hook reports the reads it serves.\<close>

lemma hook_logs:
  "keeps_ready status \<Longrightarrow> logs (mt_part_generic_read_console status get_partition lk hook dev src dst sz)
     (mt_part_generic_read get_partition lk hook dev src dst sz)
     (case mt_part_generic_read get_partition lk hook dev src dst sz of
        Served _ _ \<Rightarrow> [ascii ''replacing boot.img''] | Original _ _ _ _ _ _ \<Rightarrow> [] | Panicked \<Rightarrow> [ascii ''Panic :(''])"
  by (auto simp: mt_part_generic_read_console_def mt_part_generic_read_def Let_def intro: logs_line logs_panic logs_return
      split: option.split)

text \<open>A halt is announced.\<close>

definition halt_line :: "u8 list \<Rightarrow> bool" where
  "halt_line l \<longleftrightarrow> l = ascii ''Panic :('' \<or> (\<exists>why. l = ascii ''HALTED: '' @ ascii why)"

definition ends_halted :: "'p turn \<Rightarrow> u8 list list \<Rightarrow> bool" where
  "ends_halted t ls \<longleftrightarrow> (\<forall>d. t = Halted d \<longrightarrow> ls \<noteq> [] \<and> halt_line (last ls))"

lemma ends_halted_append: "ends_halted t ls \<Longrightarrow> ends_halted t (ks @ ls)"
  by (simp add: ends_halted_def)

lemma halt_lines_end: "ends_halted t (ks @ halt_lines why t)"
  by (cases t) (auto simp: halt_lines_def ends_halted_def halt_line_def)

lemma turn_lines_end: "ends_halted (handler_step e d) (turn_lines fm e d)"
proof -
  obtain r p where r: "read_message (ev_ops e) (ev_codecs e) (dv_proto d) = (r, p)" by (rule prod.exhaust)
  show ?thesis
  proof (cases r)
    case (Inl x)
    from r Inl halt_lines_end [of "handler_step e d" "[ascii ''Error reading message'']" "''Error sending response, giving up''"]
    show ?thesis by (cases x) (simp_all add: turn_lines_def ends_halted_def halt_line_def)
  next
    case (Inr m)
    with r show ?thesis
      by (cases "handle_message e (d\<lparr>dv_proto := p\<rparr>) m")
        (auto simp: turn_lines_def halt_lines_end, simp add: handler_step_def ends_halted_def)
  qed
qed

lemma turns_lines_end: "ends_halted (handler_turns e n d) (turns_lines fm e n d)"
proof (induction n arbitrary: d)
  case (Suc n)
  then show ?case using turn_lines_end [of e d fm] by (cases "handler_step e d") (auto simp: ends_halted_def)
qed (simp add: ends_halted_def)

lemma handler_lines_end: "ends_halted (handler e n d) (handler_lines fm e n d)"
proof -
  have "ends_halted (handshake e d) (handshake_lines e d)"
    by (auto simp: handshake_def handshake_lines_def ends_halted_def halt_line_def split: prod.split sum.split wire_err.split)
  then show ?thesis
    by (cases "handshake e d") (simp_all add: handler_def handler_lines_def ends_halted_append turns_lines_end)
qed

section \<open>Lines and bytes\<close>

text \<open>On a transport that keeps the order, the lines of a turn are those of the request read and the response sent.\<close>

context fifo_port
begin

lemma handshake_lines_ack:
  assumes "ev_ops e = ops" and "proto_ok e d" and "inbox (pr_io (dv_proto d)) = rframe (ev_codecs e) RAck @ rest"
  shows "\<exists>d'. handshake e d = Continue d' \<and> d' = d\<lparr>dv_proto := dv_proto d'\<rparr> \<and> proto_ok e d' \<and> inbox (pr_io (dv_proto d')) = rest \<and>
    handshake_lines e d = [ascii ''send'', ascii ''wait'', ascii ''Ready for commands'']"
proof -
  let ?n = "length (pr_buf (dv_proto d))"
  from assms(2) have mc: "codec_ok (message_codec (ev_codecs e)) ?n" and rc: "codec_ok (response_codec (ev_codecs e)) ?n"
    and n: "?n < 2 ^ 32" by (simp_all add: proto_ok_def codecs_ok_def)
  from write_data_frame [OF mc, of MAck] obtain p1 where
    p1: "send_message ops (ev_codecs e) (dv_proto d) MAck = (Inr (), p1)" "inbox (pr_io p1) = inbox (pr_io (dv_proto d))"
      "length (pr_buf p1) = ?n" by (auto simp: send_message_def)
  from read_data_frame [OF rc, of p1 RAck rest] n p1 assms(3) obtain p2 where
    p2: "read_response ops (ev_codecs e) p1 = (Inr RAck, p2)" "inbox (pr_io p2) = rest" "length (pr_buf p2) = ?n"
    by (auto simp: read_response_def)
  have "handshake e d = Continue (d\<lparr>dv_proto := p2\<rparr>)"
    using p1 p2 assms(1) by (simp add: handshake_def response_is_ack_def)
  moreover have "handshake_lines e d = [ascii ''send'', ascii ''wait'', ascii ''Ready for commands'']"
    using p1 p2 assms(1) by (simp add: handshake_lines_def response_is_ack_def)
  moreover have "proto_ok e (d\<lparr>dv_proto := p2\<rparr>)" using assms(2) p2(3) by (simp add: proto_ok_def)
  ultimately show ?thesis using p2(2) by (intro exI [of _ "d\<lparr>dv_proto := p2\<rparr>"]) simp
qed

lemma turn_lines_served:
  assumes "ev_ops e = ops" and "calls_keep_port e" and "proto_ok e d"
    and "inbox (pr_io (dv_proto d)) = mframe (ev_codecs e) m @ bs @ rest" and "length bs = payload_size m"
    and "handler_step e d = Continue d'"
  shows "\<exists>r. turn_lines fm e d = message_lines fm d m r \<and>
    outbox (pr_io (dv_proto d')) = outbox (pr_io (dv_proto d)) @ answer_data (dv_mem d) m @ rframe (ev_codecs e) r"
proof -
  from handler_step_serves [OF assms(1-5)] assms(6) obtain d0 d1 r where
    d0: "read_message ops (ev_codecs e) (dv_proto d) = (Inr m, dv_proto d0)" "d0 = d\<lparr>dv_proto := dv_proto d0\<rparr>"
      "handle_message e d0 m = Some (r, d1)"
      "outbox (pr_io (dv_proto d')) = outbox (pr_io (dv_proto d)) @ answer_data (dv_mem d) m @ rframe (ev_codecs e) r" by auto
  from d0(3) have "handle_message e (d\<lparr>dv_proto := dv_proto d0\<rparr>) m = Some (r, d1)" by (subst (asm) d0(2))
  with d0(1,4) assms(1,6) show ?thesis by (auto simp: turn_lines_def halt_lines_def)
qed

end

section \<open>Properties\<close>

text \<open>C29: The handler with its console. As long as the transmitter keeps becoming ready, the handshake and any
  number of turns end exactly as they do without output, and the console has then shown the lines of the
  handshake and of each turn in order: every write with its size and address, every hook set, every refused
  reservation with the ranges of the device, every unreadable request. A device that halts has said so in its last
  line. When the transmitter is never ready, the handler waits for it for ever with the device exactly as it was:
  nothing has been read from or sent to the host, so it never gets its acknowledgement.\<close>

theorem handler_console_reports:
  assumes "keeps_ready status"
  shows "(\<exists>s'. handler_console status fm e n d s = Finished (handler e n d) s' \<and>
      ua_sent s' = ua_sent s @ map ucast (concat (map line (handler_lines fm e n d)))) \<and>
    ends_halted (handler e n d) (handler_lines fm e n d) \<and>
    ((\<forall>i. \<not> tx_ready (dead i)) \<longrightarrow> handler_console dead fm e n d s = Stuck d)"
proof (intro conjI impI)
  show "\<exists>s'. handler_console status fm e n d s = Finished (handler e n d) s' \<and>
      ua_sent s' = ua_sent s @ map ucast (concat (map line (handler_lines fm e n d)))"
    using handler_printing [OF assms, of fm e n d] unfolding serves_def by blast
  show "handler_console dead fm e n d s = Stuck d" if "\<forall>i. \<not> tx_ready (dead i)"
    using dead_line [OF that] by (simp add: handler_console_def handshake_console_def bindP_def while_at_def)
qed (rule handler_lines_end)

text \<open>A handshake and a write of two bytes.\<close>

lemma handler_console_reports_witness:
  "\<exists>s' d'. handler_console (\<lambda>i. if even i then 0 else 0x60) sample_formats (sample_env True) 1
       (sample_device (rframe sample_codecs RAck @ mframe sample_codecs (MWrite 0x80000000 2) @ [1, 2]))
       \<lparr>ua_reads = 0, ua_sent = []\<rparr> = Finished (Continue d') s' \<and>
     ua_sent s' = map ucast (concat (map line [ascii ''send'', ascii ''wait'', ascii ''Ready for commands'',
       ascii ''read '' @ fm_hex sample_formats 2 @ ascii '' bytes to '' @ fm_hex sample_formats 0x80000000])) \<and>
     dv_mem d' = store_bytes (\<lambda>_. 0) 0x80000000 [1, 2]"
proof -
  let ?e = "sample_env True" and ?w = "mframe sample_codecs (MWrite 0x80000000 2) @ [1, 2]"
  let ?d = "sample_device (rframe sample_codecs RAck @ ?w)"
  have c: "ev_codecs ?e = sample_codecs" "ev_ops ?e = ev_ops (sample_env True)" by (simp_all add: sample_env_def)
  have i: "q_in (pr_io (dv_proto ?d)) = rframe (ev_codecs ?e) RAck @ ?w" by (simp add: sample_device_io c)
  from fifo_port.handshake_lines_ack [OF sample_env_ok(1) refl sample_device_ok i] obtain d1 where
    d1: "handshake ?e ?d = Continue d1" "d1 = ?d\<lparr>dv_proto := dv_proto d1\<rparr>" "proto_ok ?e d1" "q_in (pr_io (dv_proto d1)) = ?w"
      "handshake_lines ?e ?d = [ascii ''send'', ascii ''wait'', ascii ''Ready for commands'']" by blast
  have mem: "dv_mem d1 = (\<lambda>_. 0)" by (subst d1(2)) (simp add: sample_device_def sample_istate_def)
  have i1: "q_in (pr_io (dv_proto d1)) = mframe (ev_codecs ?e) (MWrite 0x80000000 (word_of_nat (length [1, 2 :: u8]))) @ [1, 2] @ []"
    by (simp add: d1(4) c)
  from fifo_port.serve_write [OF sample_env_ok(1) refl d1(3) _ i1] obtain d2 where
    d2: "handler_step ?e d1 = Continue d2" "dv_mem d2 = store_bytes (\<lambda>_. 0) 0x80000000 [1, 2]" by (auto simp: mem)
  from fifo_port.turn_lines_served [OF sample_env_ok(1) refl sample_env_ok(2) d1(3) i1 _ d2(1), of sample_formats] have
    lines: "turn_lines sample_formats ?e d1 =
      [ascii ''read '' @ fm_hex sample_formats 2 @ ascii '' bytes to '' @ fm_hex sample_formats 0x80000000]"
    by (auto simp: message_lines_def)
  have all: "handler ?e 1 ?d = Continue d2" "handler_lines sample_formats ?e 1 ?d = [ascii ''send'', ascii ''wait'',
      ascii ''Ready for commands'', ascii ''read '' @ fm_hex sample_formats 2 @ ascii '' bytes to '' @ fm_hex sample_formats 0x80000000]"
    using d1(1,5) d2(1) lines by (simp_all add: handler_def handler_lines_def)
  from conjunct1 [OF handler_console_reports [OF sample_ready, of sample_formats ?e 1 ?d "\<lparr>ua_reads = 0, ua_sent = []\<rparr>"]] d2(2)
  show ?thesis unfolding all by (auto simp del: list.map concat.simps)
qed

end
