(* ===== verification/Display.thy ===== *)
theory Display
  imports Wire
begin

text \<open>
  The texts of requests and answers, the \<open>Display\<close> implementations of
  \<open>crates/da-protocol/src/lib.rs\<close>, with the integer formats of the Rust standard library they use.
  The \<open>REPL\<close> of the host prints them, and \<open>main.rs\<close> its addresses in the same formats.
\<close>

section \<open>Hexadecimal formats\<close>

definition hex_digit :: "nat \<Rightarrow> char" where
  "hex_digit d = (if d < 10 then char_of (48 + d) else char_of (87 + d))"

definition digit_value :: "char \<Rightarrow> nat option" where
  "digit_value c =
     (let n = of_char c :: nat
      in if 48 \<le> n \<and> n \<le> 57 then Some (n - 48)
         else if 97 \<le> n \<and> n \<le> 102 then Some (n - 87)
         else if 65 \<le> n \<and> n \<le> 70 then Some (n - 55)
         else None)"

fun lower_hex :: "nat \<Rightarrow> string" where
  "lower_hex n = (if n < 16 then [hex_digit n] else lower_hex (n div 16) @ [hex_digit (n mod 16)])"

declare lower_hex.simps [simp del]

text \<open>\<open>{:#x}\<close> and \<open>{:#10x}\<close>: the prefix counts for the width, and numbers are filled on the left.\<close>

definition alt_hex :: "u32 \<Rightarrow> string" where
  "alt_hex v = ''0x'' @ lower_hex (unat v)"

definition pad_left :: "nat \<Rightarrow> string \<Rightarrow> string" where
  "pad_left n s = replicate (n - length s) (CHR '' '') @ s"

definition alt_hex10 :: "u32 \<Rightarrow> string" where
  "alt_hex10 v = pad_left 10 (alt_hex v)"

section \<open>Texts\<close>

definition hook_id_text :: "HookId \<Rightarrow> string" where
  "hook_id_text h = (case h of MtPartGenericRead \<Rightarrow> ''mt_part_generic_read'')"

definition params_type_text :: "ParamsType \<Rightarrow> string" where
  "params_type_text t = (case t of ParamsPreloader _ \<Rightarrow> ''Preloader'' | ParamsLK _ \<Rightarrow> ''LK'')"

definition message_text :: "Message \<Rightarrow> string" where
  "message_text m =
     (case m of
        MAck \<Rightarrow> ''ACK''
      | MRead addr sz \<Rightarrow> ''Read '' @ alt_hex sz @ '' bytes 0x'' @ alt_hex10 addr
      | MWrite addr sz \<Rightarrow> ''Write '' @ alt_hex sz @ '' bytes at '' @ alt_hex10 addr
      | MFlushCache addr sz \<Rightarrow> ''Flush cache @ '' @ alt_hex10 addr @ '' for '' @ alt_hex sz @ '' bytes''
      | MJump addr r0 r1 \<Rightarrow> ''Jump to '' @ alt_hex10 addr @
          (case r0 of Some r0 \<Rightarrow> '' R0: '' @ alt_hex10 r0 | None \<Rightarrow> '''') @
          (case r1 of Some r1 \<Rightarrow> '' R1: '' @ alt_hex10 r1 | None \<Rightarrow> '''')
      | MReset \<Rightarrow> ''Reset''
      | MHook h \<Rightarrow> ''Hook: '' @ hook_id_text h
      | MGetFreeRange sz \<Rightarrow> ''Get free range with '' @ alt_hex sz @ '' bytes''
      | MBlacklistRange r \<Rightarrow> ''Blacklist range '' @ alt_hex (fst r) @ ''..'' @ alt_hex (snd r)
      | MSetParams t \<Rightarrow> ''Set params for the '' @ params_type_text t)"

definition protocol_error_text :: "ProtocolError \<Rightarrow> string" where
  "protocol_error_text e =
     (case e of
        NotSupported \<Rightarrow> ''Not supported''
      | Unreachable \<Rightarrow> ''Unreachable''
      | DownloadForbidden \<Rightarrow> ''Download forbidden''
      | InvalidParams \<Rightarrow> ''Invalid parameters'')"

definition response_text :: "Response \<Rightarrow> string" where
  "response_text r =
     (case r of
        RAck \<Rightarrow> ''ACK''
      | RNack e \<Rightarrow> ''Not ACK: '' @ protocol_error_text e
      | RRange (Some addr) \<Rightarrow> ''Range at '' @ alt_hex10 addr
      | RRange None \<Rightarrow> ''Free range list is exhaustd'')"

section \<open>Reading the digits back\<close>

lemma digit_value_hex_digit:
  assumes "d < 16"
  shows "digit_value (hex_digit d) = Some d" and "hex_digit d \<noteq> CHR ''+''"
proof -
  have "d \<in> set [0..<16]" using assms by simp
  then show "digit_value (hex_digit d) = Some d"
    by (auto simp: upt_rec hex_digit_def digit_value_def Let_def)
  show "hex_digit d \<noteq> CHR ''+''"
    using assms by (auto simp: hex_digit_def dest!: arg_cong [where f = "of_char :: char \<Rightarrow> nat"] split: if_splits)
qed

definition hex_value :: "string \<Rightarrow> nat" where
  "hex_value s = foldl (\<lambda>a c. 16 * a + the (digit_value c)) 0 s"

lemma hex_value_lower_hex: "hex_value (lower_hex n) = n"
proof (induction n rule: lower_hex.induct)
  case (1 n)
  show ?case
  proof (cases "n < 16")
    case True
    then show ?thesis by (simp add: lower_hex.simps [of n] hex_value_def digit_value_hex_digit)
  next
    case False
    with 1 have "hex_value (lower_hex (n div 16)) = n div 16" by simp
    with False show ?thesis
      by (simp add: lower_hex.simps [of n] hex_value_def digit_value_hex_digit)
  qed
qed

lemma lower_hex_digits: "c \<in> set (lower_hex n) \<Longrightarrow> digit_value c \<noteq> None"
proof (induction n rule: lower_hex.induct)
  case (1 n)
  then show ?case
    by (cases "n < 16") (auto simp: lower_hex.simps [of n] digit_value_hex_digit)
qed

lemma lower_hex_inject: "lower_hex a = lower_hex b \<longleftrightarrow> a = b"
  by (metis hex_value_lower_hex)

lemma length_lower_hex: "n < 16 ^ Suc k \<Longrightarrow> length (lower_hex n) \<le> Suc k"
proof (induction k arbitrary: n)
  case 0
  then show ?case by (simp add: lower_hex.simps [of n])
next
  case (Suc k)
  then have "n div 16 < 16 ^ Suc k" by (simp add: div_less_iff_less_mult mult.commute)
  from Suc.IH [OF this] show ?case by (simp add: lower_hex.simps [of n])
qed

text \<open>A number up to the next character that is no digit.\<close>

lemma alt_hex_append:
  assumes "digit_value c = None"
  shows "alt_hex a @ c # s = alt_hex b @ c # t \<longleftrightarrow> a = b \<and> s = t"
proof
  assume "alt_hex a @ c # s = alt_hex b @ c # t"
  then have eq: "lower_hex (unat a) @ c # s = lower_hex (unat b) @ c # t" by (simp add: alt_hex_def)
  have read: "takeWhile (\<lambda>c. digit_value c \<noteq> None) (lower_hex n @ c # u) = lower_hex n" for n u
    using assms lower_hex_digits by (subst takeWhile_append2) auto
  from arg_cong [OF eq, of "takeWhile (\<lambda>c. digit_value c \<noteq> None)"]
  have "lower_hex (unat a) = lower_hex (unat b)" unfolding read .
  then show "a = b \<and> s = t" using eq by (simp add: lower_hex_inject word_unat_eq_iff)
qed simp

lemma alt_hex_inject: "alt_hex a = alt_hex b \<longleftrightarrow> a = b"
  by (simp add: alt_hex_def lower_hex_inject word_unat_eq_iff)

text \<open>Ten characters hold every 32-bit number.\<close>

lemma length_alt_hex10: "length (alt_hex10 a) = 10"
proof -
  have "length (lower_hex (unat a)) \<le> Suc 7" by (rule length_lower_hex) simp
  then show ?thesis by (simp add: alt_hex10_def pad_left_def alt_hex_def)
qed

lemma alt_hex10_inject: "alt_hex10 a = alt_hex10 b \<longleftrightarrow> a = b"
proof
  assume eq: "alt_hex10 a = alt_hex10 b"
  have "dropWhile (\<lambda>c. c = CHR '' '') (alt_hex10 v) = alt_hex v" for v
    by (simp add: alt_hex10_def pad_left_def alt_hex_def dropWhile_append3)
  with eq show "a = b" by (metis alt_hex_inject)
qed simp

lemma alt_hex10_append: "alt_hex10 a @ s = alt_hex10 b @ t \<longleftrightarrow> a = b \<and> s = t"
  by (simp add: append_eq_append_conv length_alt_hex10 alt_hex10_inject)

lemma alt_hex10_nothing: "alt_hex10 a = alt_hex10 b @ t \<longleftrightarrow> a = b \<and> t = []" "alt_hex10 b @ t = alt_hex10 a \<longleftrightarrow> b = a \<and> t = []"
  using alt_hex10_append [of a "[]" b t] alt_hex10_append [of b t a "[]"] by auto

lemmas texts_inject = alt_hex_append alt_hex_inject alt_hex10_append alt_hex10_nothing alt_hex10_inject

lemma separators: "digit_value (CHR '' '') = None" "digit_value (CHR ''.'') = None"
  by (simp_all add: digit_value_def)

lemma jump_tail_inject:
  "(case r0 of Some r0 \<Rightarrow> '' R0: '' @ alt_hex10 r0 | None \<Rightarrow> '''') @
     (case r1 of Some r1 \<Rightarrow> '' R1: '' @ alt_hex10 r1 | None \<Rightarrow> '''') =
   (case q0 of Some r0 \<Rightarrow> '' R0: '' @ alt_hex10 r0 | None \<Rightarrow> '''') @
     (case q1 of Some r1 \<Rightarrow> '' R1: '' @ alt_hex10 r1 | None \<Rightarrow> '''') \<longleftrightarrow> r0 = q0 \<and> r1 = q1"
  by (cases r0; cases r1; cases q0; cases q1) (auto simp: texts_inject)

section \<open>Properties\<close>

text \<open>C33: What the log shows of a request or an answer is what was sent: no two requests other than
  parameters have the same text, whatever their numbers, no two answers do, and of parameters
  the text tells the kind.\<close>

theorem texts_determine:
  "(message_text m = message_text m' \<longleftrightarrow>
      (case (m, m') of (MSetParams t, MSetParams t') \<Rightarrow> params_type_text t = params_type_text t' | _ \<Rightarrow> m = m')) \<and>
    (response_text r = response_text r' \<longleftrightarrow> r = r')"
proof
  show "message_text m = message_text m' \<longleftrightarrow>
      (case (m, m') of (MSetParams t, MSetParams t') \<Rightarrow> params_type_text t = params_type_text t' | _ \<Rightarrow> m = m')"
    by (cases m; cases m')
      (auto simp: message_text_def hook_id_text_def texts_inject separators jump_tail_inject prod_eq_iff split: HookId.splits)
  show "response_text r = response_text r' \<longleftrightarrow> r = r'"
    by (cases r; cases r')
      (auto simp: response_text_def protocol_error_text_def texts_inject split: ProtocolError.splits option.splits)
qed

text \<open>The prefix of a read request is printed twice, with the padding in between.\<close>

lemma read_text_prefix: "message_text (MRead 0x2001000 0x40) = ''Read 0x40 bytes 0x 0x2001000''"
  by (simp add: message_text_def alt_hex_def alt_hex10_def pad_left_def lower_hex.simps hex_digit_def char_of_def bit_0)

end
