(* ===== verification/Repl.thy ===== *)
theory Repl
  imports HostExt Display
begin

text \<open>
  The \<open>REPL\<close> of the host, \<open>crates/da-boot/src/repl.rs\<close>: the requests behind its commands, the loop over
  the lines, the hex dump and the parser of data bytes. The line editor and the command parser
  (\<open>rustyline\<close>, \<open>clap\<close>) are arguments: the outcomes of the successive calls of \<open>readline\<close>, and a function
  from the words of a line to a command. What the loop prints is a list of lines.
\<close>

section \<open>Commands\<close>

datatype Command =
    CmdAck
  | CmdRead u32 u32
  | CmdWrite u32 "u8 list"
  | CmdFlushCache u32 u32
  | CmdJump u32 "u32 option" "u32 option"
  | CmdReset

datatype printed =
    Sent Message
  | Received Response
  | Reading u32 u32
  | Writing nat u32
  | Downloaded nat
  | Dump "string list"
  | DownloadFailed host_err
  | UploadFinished
  | UploadFailed host_err
  | SendFailed wire_err
  | ReceiveFailed wire_err
  | Usage

section \<open>Hexadecimal\<close>

text \<open>\<open>{b:02x}\<close>.\<close>

definition hex2 :: "u8 \<Rightarrow> string" where
  "hex2 b = [hex_digit (unat b div 16), hex_digit (unat b mod 16)]"

text \<open>\<open>u8::from_str_radix(s, 16)\<close>: an optional plus sign, at least one digit, no overflow.\<close>

fun radix16 :: "nat \<Rightarrow> string \<Rightarrow> nat option" where
  "radix16 acc [] = Some acc"
| "radix16 acc (c # cs) =
     (case digit_value c of
        None \<Rightarrow> None
      | Some d \<Rightarrow> if 255 < 16 * acc + d then None else radix16 (16 * acc + d) cs)"

definition from_str_radix16 :: "string \<Rightarrow> u8 option" where
  "from_str_radix16 s =
     (let digits = (case s of c # cs \<Rightarrow> if c = CHR ''+'' then cs else s | [] \<Rightarrow> [])
      in if digits = [] then None else map_option word_of_nat (radix16 0 digits))"

definition hex_u8 :: "string \<Rightarrow> string + u8" where
  "hex_u8 s =
     (if take 2 s = ''0x''
      then (case from_str_radix16 (drop 2 s) of
              None \<Rightarrow> Inl (''invalid hex byte: 0x'' @ drop 2 s)
            | Some b \<Rightarrow> Inr b)
      else Inl ''byte must be 0x-prefixed hex (e.g. 0x1f)'')"

section \<open>The hex dump\<close>

fun join :: "string \<Rightarrow> string list \<Rightarrow> string" where
  "join sep [] = []"
| "join sep [x] = x"
| "join sep (x # y # xs) = x @ sep @ join sep (y # xs)"

definition printable :: "u8 \<Rightarrow> char" where
  "printable b = (if 33 \<le> b \<and> b \<le> 126 \<or> b = 32 then char_of (unat b) else CHR ''.'')"

definition pad_right :: "nat \<Rightarrow> string \<Rightarrow> string" where
  "pad_right n s = s @ replicate (n - length s) (CHR '' '')"

definition hex_dump :: "u8 list \<Rightarrow> string list" where
  "hex_dump data = map (\<lambda>chunk. pad_right 48 (join '' '' (map hex2 chunk)) @ '' | '' @ map printable chunk) (chunks 16 data)"

section \<open>Requests\<close>

type_synonym 'p repl = "'p protocol \<times> printed list"

definition do_send :: "'p port_ops \<Rightarrow> codecs \<Rightarrow> Message \<Rightarrow> 'p repl \<Rightarrow> (host_err + unit) \<times> 'p repl" where
  "do_send ops cs m = (\<lambda>(p, out).
     case send_message ops cs p m of
       (Inl e, p) \<Rightarrow> (Inl (HostWire e), p, out @ [SendFailed e])
     | (Inr _, p) \<Rightarrow> (Inr (), p, out @ [Sent m]))"

definition print_response :: "'p port_ops \<Rightarrow> codecs \<Rightarrow> 'p repl \<Rightarrow> (host_err + unit) \<times> 'p repl" where
  "print_response ops cs = (\<lambda>(p, out).
     case read_response ops cs p of
       (Inl e, p) \<Rightarrow> (Inl (HostWire e), p, out @ [ReceiveFailed e])
     | (Inr r, p) \<Rightarrow> (Inr (), p, out @ [Received r]))"

definition ask :: "'p port_ops \<Rightarrow> codecs \<Rightarrow> Message \<Rightarrow> 'p repl \<Rightarrow> (host_err + unit) \<times> 'p repl" where
  "ask ops cs m s =
     (case do_send ops cs m s of (Inl e, s) \<Rightarrow> (Inl e, s) | (Inr _, s) \<Rightarrow> print_response ops cs s)"

definition run_command :: "'p port_ops \<Rightarrow> codecs \<Rightarrow> Command \<Rightarrow> 'p repl \<Rightarrow> (host_err + unit) \<times> 'p repl" where
  "run_command ops cs c s =
     (case c of
        CmdAck \<Rightarrow> ask ops cs MAck s
      | CmdFlushCache addr sz \<Rightarrow> ask ops cs (MFlushCache addr sz) s
      | CmdJump addr r0 r1 \<Rightarrow> ask ops cs (MJump addr r0 r1) s
      | CmdReset \<Rightarrow> ask ops cs MReset s
      | CmdRead addr sz \<Rightarrow>
          (case download ops cs addr sz (fst s) of
             (Inr data, p) \<Rightarrow> (Inr (), p, snd s @ [Reading sz addr, Downloaded (length data), Dump (hex_dump data)])
           | (Inl e, p) \<Rightarrow> (Inr (), p, snd s @ [Reading sz addr, DownloadFailed e]))
      | CmdWrite addr data \<Rightarrow>
          (case upload ops cs addr data (fst s) of
             (Inr _, p) \<Rightarrow> (Inr (), p, snd s @ [Writing (length data) addr, UploadFinished])
           | (Inl e, p) \<Rightarrow> (Inr (), p, snd s @ [Writing (length data) addr, UploadFailed e])))"

section \<open>The loop\<close>

text \<open>An outcome of \<open>readline\<close>: a line, a line that \<open>add_history_entry\<close> then fails on, the end of the
  input or an interrupt, or an error.\<close>

datatype outcome = Line string | Unrecorded string | Ended | ReadError

definition is_space :: "char \<Rightarrow> bool" where
  "is_space c \<longleftrightarrow> c \<in> set [CHR '' '', char_of (9 :: nat), char_of (10 :: nat), char_of (11 :: nat), char_of (12 :: nat), char_of (13 :: nat)]"

definition trim :: "string \<Rightarrow> string" where
  "trim s = rev (dropWhile is_space (rev (dropWhile is_space s)))"

function split_whitespace :: "string \<Rightarrow> string list" where
  "split_whitespace s =
     (case dropWhile is_space s of
        [] \<Rightarrow> []
      | c # cs \<Rightarrow> takeWhile (\<lambda>c. \<not> is_space c) (c # cs) # split_whitespace (dropWhile (\<lambda>c. \<not> is_space c) (c # cs)))"
  by pat_completeness auto
termination
proof (relation "measure length")
  fix s c cs
  assume d: "dropWhile is_space s = c # cs"
  then have "\<not> is_space c" using hd_dropWhile [of is_space s] by auto
  then have "length (dropWhile (\<lambda>c. \<not> is_space c) (c # cs)) < length (c # cs)"
    using length_dropWhile_le [of "\<lambda>c. \<not> is_space c" cs] by simp
  also have "\<dots> \<le> length s" unfolding d [symmetric] by (rule length_dropWhile_le)
  finally show "(dropWhile (\<lambda>c. \<not> is_space c) (c # cs), s) \<in> measure length" by simp
qed simp

declare split_whitespace.simps [simp del]

text \<open>The loop over what is typed; when the list is used up, the loop waits in \<open>readline\<close>.\<close>

fun run_repl :: "'p port_ops \<Rightarrow> codecs \<Rightarrow> (string list \<Rightarrow> Command option) \<Rightarrow> outcome list \<Rightarrow> 'p repl \<Rightarrow>
    (host_err + unit) option \<times> 'p repl" where
  "run_repl ops cs parse [] s = (None, s)"
| "run_repl ops cs parse (Ended # _) s = (Some (Inr ()), s)"
| "run_repl ops cs parse (ReadError # _) s = (Some (Inl HostIo), s)"
| "run_repl ops cs parse (Unrecorded l # ls) s =
     (if trim l = [] then run_repl ops cs parse ls s else (Some (Inl HostIo), s))"
| "run_repl ops cs parse (Line l # ls) s =
     (let line = trim l
      in if line = [] then run_repl ops cs parse ls s
         else (case parse (''repl'' # split_whitespace line) of
                 None \<Rightarrow> run_repl ops cs parse ls (fst s, snd s @ [Usage])
               | Some c \<Rightarrow>
                   (case run_command ops cs c s of
                      (Inl e, s) \<Rightarrow> (Some (Inl e), s)
                    | (Inr _, s) \<Rightarrow> run_repl ops cs parse ls s)))"

section \<open>Digits\<close>

lemma unat_u8_lt: "unat (b :: u8) < 256"
  using unsigned_less [of b] by simp

lemma radix16_hex2: "radix16 0 (hex2 b) = Some (unat b)"
proof -
  have hi: "unat b div 16 < 16" and lo: "unat b mod 16 < 16" using unat_u8_lt [of b] by simp_all
  have val: "16 * (unat b div 16) + unat b mod 16 = unat b" by simp
  have "\<not> 255 < unat b div 16" "\<not> 255 < unat b" using hi unat_u8_lt [of b] by linarith+
  then show ?thesis
    by (simp add: hex2_def digit_value_hex_digit(1) [OF hi] digit_value_hex_digit(1) [OF lo] val)
qed

section \<open>Properties\<close>

text \<open>A byte printed by the hex dump is read back by the parser of data bytes, with the prefix it wants,
  and takes exactly two digits; so a dump can be typed in again.\<close>

theorem hex_u8_reads_dump:
  "hex_u8 (''0x'' @ hex2 b) = Inr b \<and> length (hex2 b) = 2"
proof -
  have hi: "unat b div 16 < 16" using unat_u8_lt [of b] by simp
  have "from_str_radix16 (hex2 b) = Some b"
    using radix16_hex2 [of b] digit_value_hex_digit(2) [OF hi]
    by (simp add: from_str_radix16_def hex2_def Let_def)
  then show ?thesis by (simp add: hex_u8_def hex2_def)
qed

text \<open>C32: Writing bytes and reading them back in the \<open>REPL\<close>, over a link to the device: whatever lines are
  typed for the two commands, the loop announces each and prints the success of the upload, then the number of
  bytes and the dump of exactly the bytes written, and ends with the input.\<close>

theorem repl_write_then_read:
  assumes "idle e p" and "length data < 2 ^ 32"
    and "trim w \<noteq> []" and "parse (''repl'' # split_whitespace (trim w)) = Some (CmdWrite addr data)"
    and "trim r \<noteq> []" and "parse (''repl'' # split_whitespace (trim r)) = Some (CmdRead addr (word_of_nat (length data)))"
  shows "\<exists>p'. run_repl (linked_ops e) (ev_codecs e) parse [Line w, Line r, Ended] (p, out) =
      (Some (Inr ()), p', out @ [Writing (length data) addr, UploadFinished,
        Reading (word_of_nat (length data)) addr, Downloaded (length data), Dump (hex_dump data)]) \<and> idle e p'"
proof -
  from upload_stores [OF assms(1), of addr data] obtain p1 where
    p1: "upload (linked_ops e) (ev_codecs e) addr data p = (Inr (), p1)" "idle e p1"
      "dv_mem (pr_io p1) = store_bytes (dv_mem (pr_io p)) addr data" using same_but_port_simps by fastforce
  have n: "unat (word_of_nat (length data) :: u32) = length data" using assms(2) by (simp add: unat_of_nat)
  have "load_bytes (dv_mem (pr_io p1)) addr (length data) = data"
    using p1(3) ram.load_store_same [of data _ addr] assms(2) by simp
  with download_loads [OF p1(2), of addr "word_of_nat (length data)"] n obtain p2 where
    p2: "download (linked_ops e) (ev_codecs e) addr (word_of_nat (length data)) p1 = (Inr data, p2)" "idle e p2" by auto
  show ?thesis using assms(3-) p1 p2 by (simp add: run_command_def Let_def)
qed

definition sample_parse :: "string list \<Rightarrow> Command option" where
  "sample_parse words =
     (if words = [''repl'', ''write'', ''0x80200000'', ''0x01'', ''0x02''] then Some (CmdWrite 0x80200000 [1, 2])
      else if words = [''repl'', ''read'', ''0x80200000'', ''2''] then Some (CmdRead 0x80200000 2)
      else None)"

lemma repl_write_then_read_witness:
  "\<exists>p'. run_repl (linked_ops (sample_env True)) sample_codecs sample_parse
      [Line ''write 0x80200000 0x01 0x02'', Line '' read 0x80200000 2'', Ended] (sample_host, []) =
    (Some (Inr ()), p', [Writing 2 0x80200000, UploadFinished, Reading 2 0x80200000, Downloaded 2, Dump (hex_dump [1, 2])])"
proof -
  have words: "split_whitespace (trim ''write 0x80200000 0x01 0x02'') = [''write'', ''0x80200000'', ''0x01'', ''0x02'']"
    "split_whitespace (trim '' read 0x80200000 2'') = [''read'', ''0x80200000'', ''2'']"
    by code_simp+
  have w: "trim ''write 0x80200000 0x01 0x02'' \<noteq> []" and r: "trim '' read 0x80200000 2'' \<noteq> []"
    by code_simp+
  have pw: "sample_parse (''repl'' # split_whitespace (trim ''write 0x80200000 0x01 0x02'')) = Some (CmdWrite 0x80200000 [1, 2])"
    and pr: "sample_parse (''repl'' # split_whitespace (trim '' read 0x80200000 2'')) = Some (CmdRead 0x80200000 (word_of_nat (length [1 :: u8, 2])))"
    unfolding words by (simp_all add: sample_parse_def)
  have c: "ev_codecs (sample_env True) = sample_codecs" by (simp add: sample_env_def)
  have l: "length [1, 2 :: u8] < 2 ^ 32" by simp
  from repl_write_then_read [OF sample_host_idle l w pw r pr, of True "[]"] show ?thesis unfolding c by auto
qed

end
