(* ===== verification/Patcher.thy ===== *)
theory Patcher
  imports Prelude
begin

text \<open>
  The extraction of addresses from preloader and LK, \<open>crates/da-patcher\<close>, and the file helpers of
  \<open>crates/da-cli-ext\<close>. The analyzer (\<open>kaiko\<close>, with the instructions of \<open>yaxpeax\<close>) and the image
  parser (\<open>hacc\<close>) are not under \<open>src\<close>: what the code asks them for is an argument, functions and
  blocks as the lists the iterators run through.
\<close>

section \<open>The analyzer\<close>

datatype opcode = Ldm | Pop | Str | Ldr | Blx | OtherOpcode nat
datatype operand = RegDerefPreindexOffset nat u32 | RegWBack nat | Reg nat | OtherOperand

record code =
  cd_va :: u32
  cd_opcode :: opcode
  cd_operand0 :: operand
  cd_operand1 :: operand

record code_block =
  bk_code :: "code list"
  bk_fn_calls :: "(u32 \<times> u32) list"
  bk_data_refs :: "(code \<times> u32) list"
  bk_try_get_imm :: "u32 \<Rightarrow> nat \<Rightarrow> u32 option"

record code_fn =
  fn_start_va :: u32
  fn_blocks :: "code_block list"

record analyzer =
  az_fn_by_str :: "string \<Rightarrow> code_fn option"
  az_blocks_by_str :: "string \<Rightarrow> code_block list"
  az_read_u32 :: "u32 \<Rightarrow> u32 option"
  az_read_cstr :: "u32 \<Rightarrow> string option"

text \<open>A missing item with its context, and \<open>unreachable!\<close>.\<close>

datatype extract_err = NotFound string | Unreachable

definition context_of :: "string \<Rightarrow> 'a option \<Rightarrow> extract_err + 'a" where
  "context_of msg x = (case x of None \<Rightarrow> Inl (NotFound msg) | Some v \<Rightarrow> Inr v)"

definition andThen :: "'e + 'a \<Rightarrow> ('a \<Rightarrow> 'e + 'b) \<Rightarrow> 'e + 'b" where
  "andThen x f = (case x of Inl e \<Rightarrow> Inl e | Inr a \<Rightarrow> f a)"

fun find_map :: "('a \<Rightarrow> 'b option) \<Rightarrow> 'a list \<Rightarrow> 'b option" where
  "find_map f [] = None"
| "find_map f (x # xs) = (case f x of None \<Rightarrow> find_map f xs | Some y \<Rightarrow> Some y)"

definition newline :: string where "newline = [char_of (10 :: nat)]"

definition count_opcode :: "opcode \<Rightarrow> code_block \<Rightarrow> nat" where
  "count_opcode opc b = length (filter (\<lambda>c. cd_opcode c = opc) (bk_code b))"

section \<open>LK\<close>

definition get_part :: "analyzer \<Rightarrow> extract_err + u32" where
  "get_part an = andThen (context_of ''string not found'' (az_fn_by_str an ''get_part'')) (\<lambda>f. Inr (fn_start_va f))"

definition mt_part_get_partition :: "analyzer \<Rightarrow> extract_err + u32" where
  "mt_part_get_partition an =
     andThen (context_of ''string not found'' (az_fn_by_str an ''mt_part_get_partition'')) (\<lambda>f. Inr (fn_start_va f))"

text \<open>A store to offset \<open>0x10\<close>, where the device structure has its read function.\<close>

definition stores_read :: "code \<Rightarrow> bool" where
  "stores_read c \<longleftrightarrow>
     (case cd_operand1 c of RegDerefPreindexOffset _ offset \<Rightarrow> cd_opcode c = Str \<and> offset = 0x10 | _ \<Rightarrow> False)"

definition registers_read :: "code_block \<Rightarrow> bool" where
  "registers_read b \<longleftrightarrow> length (bk_code b) < 10 \<and> list_ex stores_read (bk_code b)"

definition extract_generic_read :: "analyzer \<Rightarrow> extract_err + u32" where
  "extract_generic_read an =
     andThen (context_of ''string not found'' (az_fn_by_str an (''[mt_part_register_device]'' @ newline))) (\<lambda>f.
     andThen (context_of ''no block with read fn''
       (List.find registers_read (filter (\<lambda>b. \<not> list_ex (\<lambda>c. cd_opcode c = Pop) (bk_code b)) (fn_blocks f)))) (\<lambda>block.
     andThen (context_of ''STR must exist'' (List.find (\<lambda>c. cd_opcode c = Str) (bk_code block))) (\<lambda>str.
       case cd_operand0 str of
         Reg r \<Rightarrow> context_of ''Failed to get imm'' (bk_try_get_imm block (cd_va str) r)
       | _ \<Rightarrow> Inl Unreachable)))"

section \<open>Preloader\<close>

definition extract_usb_ptr :: "analyzer \<Rightarrow> extract_err + u32 \<times> u32" where
  "extract_usb_ptr an =
     andThen (context_of ''no block with ldm instruction''
       (List.find (\<lambda>b. list_ex (\<lambda>c. cd_opcode c = Ldm) (bk_code b))
         (az_blocks_by_str an (''%s sync time %dms'' @ newline)))) (\<lambda>block.
     (case List.find (\<lambda>c. cd_opcode c = Ldm) (bk_code block) of
        None \<Rightarrow> Inl Unreachable
      | Some ldm \<Rightarrow>
          (case cd_operand0 ldm of
             RegWBack r \<Rightarrow>
               andThen (context_of ''reg state is unknown'' (bk_try_get_imm block (cd_va ldm) r)) (\<lambda>array.
               andThen (context_of ''failed to read ptr dl'' (az_read_u32 an array)) (\<lambda>ptr_ul.
               andThen (context_of ''failed to read ptr ul'' (az_read_u32 an (array + 4))) (\<lambda>ptr_dl.
                 Inr (ptr_dl, ptr_ul))))
           | _ \<Rightarrow> Inl Unreachable)))"

definition extract_bldr_jump :: "analyzer \<Rightarrow> extract_err + u32 \<times> u32" where
  "extract_bldr_jump an =
     andThen (context_of ''string not found'' (az_fn_by_str an (''%s usbdl_jump_da: %x'' @ newline))) (\<lambda>f.
     andThen (context_of ''bldr_jump block not found''
       (List.find (\<lambda>b. 2 \<le> count_opcode Ldr b \<and> 4 \<le> count_opcode Blx b) (fn_blocks f))) (\<lambda>block.
     andThen (context_of ''calls must exist''
       (if bk_fn_calls block = [] then None else Some (last (bk_fn_calls block)))) (\<lambda>call.
     andThen (context_of ''DA addr not found''
       (find_map (\<lambda>(_, v). if v AND NOT 0xFFF = v then Some v else None) (bk_data_refs block))) (\<lambda>da_addr.
       Inr (snd call, da_addr)))))"

definition extract_lk_base :: "analyzer \<Rightarrow> extract_err + u32" where
  "extract_lk_base an =
     andThen (context_of ''preloader main fn not found''
       (case az_fn_by_str an ''UBOOT'' of
          Some f \<Rightarrow> Some f
        | None \<Rightarrow> az_fn_by_str an ''%s Second Bootloader Load Failed'')) (\<lambda>f.
     andThen (context_of ''no block with partition string''
       (find_map (\<lambda>b. map_option (Pair b) (find_map (\<lambda>(c, ref_va).
          if az_read_cstr an ref_va = Some ''UBOOT'' \<or> az_read_cstr an ref_va = Some ''lk'' then Some (cd_va c) else None)
          (bk_data_refs b))) (fn_blocks f))) (\<lambda>(block, code_va).
       context_of ''r3 state is unknown'' (bk_try_get_imm block code_va 3)))"

section \<open>Files\<close>

text \<open>
  \<open>maybe_image\<close> and \<open>maybe_preloader\<close>: the parser finds the first partition, or the load address
  and the jump offset of a preloader. A short file makes the slice panic, junk is \<open>unreachable!\<close>.
\<close>

definition starts_with :: "u8 list \<Rightarrow> u8 list \<Rightarrow> bool" where
  "starts_with bs prefix \<longleftrightarrow> take (length prefix) bs = prefix"

definition EMMC_BOOT :: "u8 list" where "EMMC_BOOT = [0x45, 0x4D, 0x4D, 0x43, 0x5F, 0x42, 0x4F, 0x4F, 0x54]"
definition MMM :: "u8 list" where "MMM = [0x4D, 0x4D, 0x4D]"

definition maybe_image :: "(u8 list \<Rightarrow> (string \<times> u8 list) list) \<Rightarrow> u8 list \<Rightarrow> (string \<times> u8 list) option" where
  "maybe_image partitions data = (case partitions data of [] \<Rightarrow> None | part # _ \<Rightarrow> Some part)"

definition slice_from :: "nat \<Rightarrow> u8 list \<Rightarrow> extract_err + u8 list" where
  "slice_from n data = (if length data < n then Inl Unreachable else Inr (drop n data))"

definition maybe_preloader :: "(u8 list \<Rightarrow> (u32 \<times> u32) option) \<Rightarrow> u8 list \<Rightarrow> extract_err + (u32 \<times> u8 list) option" where
  "maybe_preloader try_read data =
     (case try_read data of
        None \<Rightarrow> Inr None
      | Some (load_addr, jump_offset) \<Rightarrow>
          andThen (if starts_with data EMMC_BOOT then slice_from 0xb00 data
                   else if starts_with data MMM then slice_from 0x300 data
                   else Inl Unreachable)
            (\<lambda>sliced. Inr (Some (load_addr + jump_offset, sliced))))"

section \<open>The tool\<close>

text \<open>\<open>main\<close> of \<open>crates/da-patcher\<close>: what it prints, and how it ends. The preloader's values stop at the
  first that is missing, each of LK's is reported on its own. The base of the analysis is the one
  on the command line in both modes.\<close>

datatype PatcherMode = PatchPreloader | PatchLK

datatype report =
    LoadedPreloader u32
  | LoadedImage string
  | PreloaderPtrs u32 u32
  | LkBase u32
  | BldrJumpAt u32 u32
  | ValueFound string u32
  | ValueMissing string extract_err

datatype patcher_err = ReadFailed | AnalysisFailed | ExtractFailed string extract_err | PatcherPanic

definition extract_failed :: "string \<Rightarrow> extract_err \<Rightarrow> patcher_err" where
  "extract_failed msg e = (case e of Unreachable \<Rightarrow> PatcherPanic | NotFound _ \<Rightarrow> ExtractFailed msg e)"

definition report_value :: "string \<Rightarrow> extract_err + u32 \<Rightarrow> report" where
  "report_value name r = (case r of Inl e \<Rightarrow> ValueMissing name e | Inr v \<Rightarrow> ValueFound name v)"

definition patch_preloader :: "analyzer \<Rightarrow> report list \<Rightarrow> (patcher_err + unit) \<times> report list" where
  "patch_preloader an out =
     (case extract_usb_ptr an of
        Inl e \<Rightarrow> (Inl (extract_failed ''error on extracting pointers'' e), out)
      | Inr (dl, ul) \<Rightarrow>
          let out = out @ [PreloaderPtrs dl ul]
          in (case extract_lk_base an of
                Inl e \<Rightarrow> (Inl (extract_failed ''error on extracting lk memory'' e), out)
              | Inr lk_base \<Rightarrow>
                  let out = out @ [LkBase lk_base]
                  in (case extract_bldr_jump an of
                        Inl e \<Rightarrow> (Inl (extract_failed ''error on extracting bldr_jump ptr'' e), out)
                      | Inr (bldr_jump, da_addr) \<Rightarrow> (Inr (), out @ [BldrJumpAt bldr_jump da_addr]))))"

definition patch_lk :: "analyzer \<Rightarrow> report list \<Rightarrow> (patcher_err + unit) \<times> report list" where
  "patch_lk an out =
     (let out = out @ [report_value ''mt_part_get_partition'' (mt_part_get_partition an), report_value ''get_part'' (get_part an)]
      in if extract_generic_read an = Inl Unreachable then (Inl PatcherPanic, out)
         else (Inr (), out @ [report_value ''mt_part_generic_read'' (extract_generic_read an)]))"

definition patcher_main :: "(u8 list \<Rightarrow> (u32 \<times> u32) option) \<Rightarrow> (u8 list \<Rightarrow> (string \<times> u8 list) list) \<Rightarrow>
    (u8 list \<Rightarrow> u32 \<Rightarrow> analyzer option) \<Rightarrow> u8 list option \<Rightarrow> u32 \<Rightarrow> PatcherMode \<Rightarrow>
    (patcher_err + unit) \<times> report list" where
  "patcher_main try_read partitions try_new input base mode =
     (case input of
        None \<Rightarrow> (Inl ReadFailed, [])
      | Some data \<Rightarrow>
          (case mode of
             PatchPreloader \<Rightarrow>
               (case maybe_preloader try_read data of
                  Inl _ \<Rightarrow> (Inl PatcherPanic, [])
                | Inr parsed \<Rightarrow>
                    let out = (case parsed of None \<Rightarrow> [] | Some (addr, _) \<Rightarrow> [LoadedPreloader addr]);
                        content = (case parsed of None \<Rightarrow> data | Some (_, d) \<Rightarrow> d)
                    in (case try_new content base of
                          None \<Rightarrow> (Inl AnalysisFailed, out)
                        | Some an \<Rightarrow> patch_preloader an out))
           | PatchLK \<Rightarrow>
               let parsed = maybe_image partitions data;
                   out = (case parsed of None \<Rightarrow> [] | Some (name, _) \<Rightarrow> [LoadedImage name]);
                   content = (case parsed of None \<Rightarrow> data | Some (_, d) \<Rightarrow> d)
               in (case try_new content base of
                     None \<Rightarrow> (Inl AnalysisFailed, out)
                   | Some an \<Rightarrow> patch_lk an out)))"

section \<open>Iterators\<close>

lemma find_map_SomeD:
  "find_map f xs = Some y \<Longrightarrow> \<exists>us x vs. xs = us @ x # vs \<and> f x = Some y \<and> (\<forall>u \<in> set us. f u = None)"
proof (induction xs)
  case (Cons a xs)
  show ?case
  proof (cases "f a")
    case None
    with Cons obtain us x vs where "xs = us @ x # vs" "f x = Some y" "\<forall>u \<in> set us. f u = None" by auto
    with None show ?thesis by (intro exI [of _ "a # us"]) auto
  next
    case (Some b)
    with Cons.prems show ?thesis by (intro exI [of _ "[]"]) auto
  qed
qed simp

lemma andThen_Inr: "andThen x f = Inr b \<longleftrightarrow> (\<exists>a. x = Inr a \<and> f a = Inr b)"
  by (auto simp: andThen_def split: sum.split)

lemma context_of_Inr [simp]: "context_of msg x = Inr v \<longleftrightarrow> x = Some v"
  by (auto simp: context_of_def split: option.split)

lemma find_Some_first:
  "List.find P xs = Some x \<longleftrightarrow> (\<exists>us vs. xs = us @ x # vs \<and> P x \<and> (\<forall>u \<in> set us. \<not> P u))"
proof (induction xs)
  case (Cons a xs)
  show ?case
  proof (cases "P a")
    case True
    then show ?thesis by (auto simp: Cons_eq_append_conv)
  next
    case False
    then have "(\<exists>us vs. a # xs = us @ x # vs \<and> P x \<and> (\<forall>u \<in> set us. \<not> P u)) \<longleftrightarrow>
        (\<exists>us vs. xs = us @ x # vs \<and> P x \<and> (\<forall>u \<in> set us. \<not> P u))"
      by (auto simp: Cons_eq_append_conv) (metis set_ConsD append_Cons)
    with False Cons.IH show ?thesis by simp
  qed
qed simp

lemma find_filter: "List.find P (filter Q xs) = List.find (\<lambda>x. Q x \<and> P x) xs"
  by (induction xs) simp_all

section \<open>Properties\<close>

text \<open>The blocks that may hold the read function: short, without a \<open>POP\<close>, with a store to offset \<open>0x10\<close>.\<close>

definition read_block :: "code_block \<Rightarrow> bool" where
  "read_block b \<longleftrightarrow> length (bk_code b) < 10 \<and> (\<forall>c \<in> set (bk_code b). cd_opcode c \<noteq> Pop) \<and>
     (\<exists>c \<in> set (bk_code b). \<exists>x. cd_opcode c = Str \<and> cd_operand1 c = RegDerefPreindexOffset x 0x10)"

lemma stores_read_iff: "stores_read c \<longleftrightarrow> (\<exists>x. cd_opcode c = Str \<and> cd_operand1 c = RegDerefPreindexOffset x 0x10)"
  by (cases "cd_operand1 c") (auto simp: stores_read_def)

lemma reg_operand_Inr: "(case x of Reg r \<Rightarrow> f r | _ \<Rightarrow> Inl Unreachable) = Inr v \<longleftrightarrow> (\<exists>r. x = Reg r \<and> f r = Inr v)"
  by (cases x) simp_all

lemma read_block_chosen:
  "\<not> list_ex (\<lambda>c. cd_opcode c = Pop) (bk_code b) \<and> registers_read b \<longleftrightarrow> read_block b"
  by (auto simp: read_block_def registers_read_def list_ex_iff stores_read_iff)

text \<open>C40: What the extraction of LK's read function finds. The block is the first one of the registering function that
  is short, has no \<open>POP\<close> and stores to offset \<open>0x10\<close>, but the address is read off the first store of that
  block, whatever it stores: the extraction yields a value exactly when that first store has a register whose
  contents the analyzer knows, and then yields those. Only when the first store happens to be the one to offset
  \<open>0x10\<close> is that the read function.\<close>

theorem generic_read_takes_first_store:
  "extract_generic_read an = Inr v \<longleftrightarrow>
     (\<exists>f us b vs ps str qs r. az_fn_by_str an (''[mt_part_register_device]'' @ newline) = Some f \<and>
        fn_blocks f = us @ b # vs \<and> read_block b \<and> (\<forall>u \<in> set us. \<not> read_block u) \<and>
        bk_code b = ps @ str # qs \<and> cd_opcode str = Str \<and> (\<forall>c \<in> set ps. cd_opcode c \<noteq> Str) \<and>
        cd_operand0 str = Reg r \<and> bk_try_get_imm b (cd_va str) r = Some v)"
proof -
  have "extract_generic_read an = Inr v \<longleftrightarrow>
     (\<exists>f b str r. az_fn_by_str an (''[mt_part_register_device]'' @ newline) = Some f \<and>
        List.find read_block (fn_blocks f) = Some b \<and> List.find (\<lambda>c. cd_opcode c = Str) (bk_code b) = Some str \<and>
        cd_operand0 str = Reg r \<and> bk_try_get_imm b (cd_va str) r = Some v)"
    by (auto simp: extract_generic_read_def andThen_Inr find_filter read_block_chosen reg_operand_Inr simp del: append.simps)
  also have "\<dots> \<longleftrightarrow> (\<exists>f us b vs ps str qs r. az_fn_by_str an (''[mt_part_register_device]'' @ newline) = Some f \<and>
        fn_blocks f = us @ b # vs \<and> read_block b \<and> (\<forall>u \<in> set us. \<not> read_block u) \<and>
        bk_code b = ps @ str # qs \<and> cd_opcode str = Str \<and> (\<forall>c \<in> set ps. cd_opcode c \<noteq> Str) \<and>
        cd_operand0 str = Reg r \<and> bk_try_get_imm b (cd_va str) r = Some v)"
    unfolding find_Some_first by blast
  finally show ?thesis .
qed

text \<open>A block with the right store and a \<open>POP\<close>, and behind it one with two stores: the first leaves
  \<open>0x81E00001\<close> at offset 4, the second is the read function.\<close>

definition sample_block :: code_block where
  "sample_block =
     \<lparr>bk_code = [\<lparr>cd_va = 0x10, cd_opcode = Str, cd_operand0 = Reg 1, cd_operand1 = RegDerefPreindexOffset 4 4\<rparr>,
                 \<lparr>cd_va = 0x12, cd_opcode = Str, cd_operand0 = Reg 2, cd_operand1 = RegDerefPreindexOffset 4 0x10\<rparr>],
      bk_fn_calls = [], bk_data_refs = [],
      bk_try_get_imm = (\<lambda>_ r. if r = 1 then Some 0x81E00001 else Some 0x81E10001)\<rparr>"

definition sample_popping :: code_block where
  "sample_popping = sample_block\<lparr>bk_code := bk_code sample_block @
     [\<lparr>cd_va = 0x14, cd_opcode = Pop, cd_operand0 = OtherOperand, cd_operand1 = OtherOperand\<rparr>]\<rparr>"

definition sample_analyzer :: analyzer where
  "sample_analyzer =
     \<lparr>az_fn_by_str = (\<lambda>s. Some \<lparr>fn_start_va = 0x81E00000, fn_blocks = [sample_popping, sample_block]\<rparr>),
      az_blocks_by_str = (\<lambda>_. []), az_read_u32 = (\<lambda>_. None), az_read_cstr = (\<lambda>_. None)\<rparr>"

lemma generic_read_takes_first_store_witness: "extract_generic_read sample_analyzer = Inr 0x81E00001"
  unfolding generic_read_takes_first_store
  by (rule exI [of _ "\<lparr>fn_start_va = 0x81E00000, fn_blocks = [sample_popping, sample_block]\<rparr>"], rule exI [of _ "[sample_popping]"],
    rule exI [of _ sample_block], rule exI [of _ "[]"], rule exI [of _ "[]"], rule exI [of _ "hd (bk_code sample_block)"],
    rule exI [of _ "tl (bk_code sample_block)"], rule exI [of _ 1])
    (simp add: sample_analyzer_def sample_block_def sample_popping_def read_block_def)

text \<open>The download address of the preloader is the first page-aligned data reference of the first block
  with enough loads and calls, and the jump function the last call of that block.\<close>

theorem bldr_jump_extracts:
  assumes "extract_bldr_jump an = Inr (jump, da_addr)"
  shows "unat da_addr mod 4096 = 0 \<and>
    (\<exists>f us b vs. az_fn_by_str an (''%s usbdl_jump_da: %x'' @ newline) = Some f \<and> fn_blocks f = us @ b # vs \<and>
      (\<forall>u \<in> set us. count_opcode Ldr u < 2 \<or> count_opcode Blx u < 4) \<and> 2 \<le> count_opcode Ldr b \<and> 4 \<le> count_opcode Blx b \<and>
      bk_fn_calls b \<noteq> [] \<and> jump = snd (last (bk_fn_calls b)) \<and>
      (\<exists>rs c ts. bk_data_refs b = rs @ (c, da_addr) # ts \<and> (\<forall>r \<in> set rs. unat (snd r) mod 4096 \<noteq> 0)))"
proof -
  have page: "v AND NOT 0xFFF = v \<longleftrightarrow> unat v mod 4096 = 0" for v :: u32
  proof -
    have "NOT 0xFFF = (NOT (mask 12) :: u32)" by (simp add: mask_eq_exp_minus_1)
    then have "unat (v AND NOT 0xFFF) = unat v div 4096 * 4096" using unat_and_not_mask [of v 12] by simp
    moreover have "unat v div 4096 * 4096 + unat v mod 4096 = unat v" by simp
    ultimately show ?thesis unfolding word_unat_eq_iff by linarith
  qed
  from assms obtain f b where f: "az_fn_by_str an (''%s usbdl_jump_da: %x'' @ newline) = Some f"
    and b: "List.find (\<lambda>b. 2 \<le> count_opcode Ldr b \<and> 4 \<le> count_opcode Blx b) (fn_blocks f) = Some b"
    and calls: "bk_fn_calls b \<noteq> []" "jump = snd (last (bk_fn_calls b))"
    and refs: "find_map (\<lambda>(_, v). if v AND NOT 0xFFF = v then Some v else None) (bk_data_refs b) = Some da_addr"
    by (auto simp: extract_bldr_jump_def andThen_Inr split: if_splits)
  from b obtain i where i: "i < length (fn_blocks f)" "b = fn_blocks f ! i" "2 \<le> count_opcode Ldr b" "4 \<le> count_opcode Blx b"
    "\<forall>j < i. \<not> (2 \<le> count_opcode Ldr (fn_blocks f ! j) \<and> 4 \<le> count_opcode Blx (fn_blocks f ! j))"
    by (auto simp: find_Some_iff)
  have split: "fn_blocks f = take i (fn_blocks f) @ b # drop (Suc i) (fn_blocks f)"
    using i(1,2) by (simp add: id_take_nth_drop)
  have early: "\<forall>u \<in> set (take i (fn_blocks f)). count_opcode Ldr u < 2 \<or> count_opcode Blx u < 4"
    using i(1,5) by (fastforce simp: in_set_conv_nth not_le)
  from find_map_SomeD [OF refs] obtain rs x ts where x: "bk_data_refs b = rs @ x # ts"
    "(case x of (_, v) \<Rightarrow> if v AND NOT 0xFFF = v then Some v else None) = Some da_addr"
    "\<forall>u \<in> set rs. (case u of (_, v) \<Rightarrow> if v AND NOT 0xFFF = v then Some v else None) = None" by blast
  obtain c v where cv: "x = (c, v)" by (rule prod.exhaust)
  from x(2) have v: "v = da_addr" "unat da_addr mod 4096 = 0" unfolding cv page by (auto split: if_splits)
  have rest: "\<forall>r \<in> set rs. unat (snd r) mod 4096 \<noteq> 0"
    using x(3) unfolding page by (auto split: if_splits)
  show ?thesis
    by (rule conjI [OF v(2)], rule exI [of _ f], rule exI [of _ "take i (fn_blocks f)"], rule exI [of _ b],
      rule exI [of _ "drop (Suc i) (fn_blocks f)"], intro conjI)
      (rule f, rule split, rule early, rule i(3), rule i(4), rule calls(1), rule calls(2),
       rule exI [of _ rs], rule exI [of _ c], rule exI [of _ ts], use x(1) cv v(1) rest in simp)
qed

definition sample_preloader_analyzer :: analyzer where
  "sample_preloader_analyzer =
     (let op = (\<lambda>opc. \<lparr>cd_va = 0, cd_opcode = opc, cd_operand0 = Reg 0, cd_operand1 = OtherOperand\<rparr>)
      in \<lparr>az_fn_by_str = (\<lambda>s. Some \<lparr>fn_start_va = 0x201000, fn_blocks =
           [\<lparr>bk_code = map op [Ldr, Ldr, Blx, Blx, Blx, Blx], bk_fn_calls = [(0, 0x201100), (2, 0x201200)],
             bk_data_refs = [(op Ldr, 0x201204), (op Ldr, 0x80001000)], bk_try_get_imm = (\<lambda>_ _. None)\<rparr>]\<rparr>),
         az_blocks_by_str = (\<lambda>_. []), az_read_u32 = (\<lambda>_. None), az_read_cstr = (\<lambda>_. None)\<rparr>)"

lemma bldr_jump_extracts_witness:
  "extract_bldr_jump sample_preloader_analyzer = Inr (0x201200, 0x80001000) \<and> unat (0x80001000 :: u32) mod 4096 = 0"
proof -
  have e: "extract_bldr_jump sample_preloader_analyzer = Inr (0x201200, 0x80001000)"
    by (simp add: sample_preloader_analyzer_def extract_bldr_jump_def andThen_def context_of_def count_opcode_def Let_def)
  from bldr_jump_extracts [OF e] e show ?thesis by simp
qed

end
