(* ===== verification/Cli.thy ===== *)
theory Cli
  imports Session Patcher
begin

text \<open>
  The command line of the host: the file arguments of \<open>crates/da-boot/src/file_ext.rs\<close> and \<open>main\<close> of
  \<open>main.rs\<close> up to the run, reading and cutting the binaries, reserving LK's data and
  checking that the arguments fit the mode. The file system, the image parser, the analyzer, the
  number parser of \<open>clap_num\<close> and the search for \<open>mkbootimg\<close> are arguments.
\<close>

section \<open>File arguments\<close>

text \<open>\<open>str::rsplit_once\<close> of a character: what stands before and after its last occurrence.\<close>

fun rsplit_once :: "char \<Rightarrow> string \<Rightarrow> (string \<times> string) option" where
  "rsplit_once c [] = None"
| "rsplit_once c (x # xs) =
     (case rsplit_once c xs of
        Some (a, b) \<Rightarrow> Some (x # a, b)
      | None \<Rightarrow> if x = c then Some ([], xs) else None)"

text \<open>\<open>UploadFileSpec::from_str\<close>; \<open>FileContentSpec::from_str\<close> takes any path as it is.\<close>

definition upload_spec_from_str :: "(string \<Rightarrow> string + u32) \<Rightarrow> string \<Rightarrow> string + string \<times> u32" where
  "upload_spec_from_str maybe_hex s =
     (case rsplit_once CHR ''@'' s of
        None \<Rightarrow> Inl ''expected PATH@ADDRESS''
      | Some (path, addr) \<Rightarrow> (case maybe_hex addr of Inl e \<Rightarrow> Inl e | Inr a \<Rightarrow> Inr (path, a)))"

section \<open>Arguments and files\<close>

record cli =
  cl_crash :: bool
  cl_preloader :: string
  cl_preloader_addr :: "u32 option"
  cl_lk :: "string option"
  cl_lk_addr :: "u32 option"
  cl_lk_mode :: "LkBootMode option"
  cl_dram_size_per_rank :: "u32 option"
  cl_dram_ranks :: "u32 option"
  cl_kernel :: "string option"
  cl_ramdisk :: "string option"
  cl_input :: "(string \<times> u32) list"
  cl_jump_address :: "u32 option"
  cl_mode :: BootMode

text \<open>The preloader parser yields load address, jump offset and the length of the content.\<close>

record file_tools =
  fl_is_file :: "string \<Rightarrow> bool"
  fl_read :: "string \<Rightarrow> u8 list option"
  fl_try_read :: "u8 list \<Rightarrow> (u32 \<times> u32 \<times> nat) option"
  fl_partitions :: "u8 list \<Rightarrow> u8 list list"
  fl_analyze :: "u8 list \<Rightarrow> u32 \<Rightarrow> analyzer option"
  fl_which :: "string \<Rightarrow> bool"

datatype cli_err =
    NoPreloaderFile
  | CannotRead string
  | JunkPreloader
  | NeedsPreloaderAddress
  | AnalyzerFailed
  | NoLkData extract_err
  | LkBssNotReserved
  | KernelNotPossible
  | BootromNeedsJump
  | PreloaderNeedsFile
  | PreloaderNeedsJump
  | LkNeedsLk
  | LkNeedsKernelOrImage
  | LkHasJump
  | NoMkbootimg
  | NoDramSize
  | ReplHasJump
  | CliPanic

definition read_file :: "file_tools \<Rightarrow> string \<Rightarrow> cli_err + u8 list" where
  "read_file fl path = (case fl_read fl path of None \<Rightarrow> Inl (CannotRead path) | Some bs \<Rightarrow> Inr bs)"

definition read_optional :: "file_tools \<Rightarrow> string option \<Rightarrow> cli_err + u8 list option" where
  "read_optional fl path =
     (case path of
        None \<Rightarrow> Inr None
      | Some p \<Rightarrow> (case read_file fl p of Inl e \<Rightarrow> Inl e | Inr bs \<Rightarrow> Inr (Some bs)))"

text \<open>\<open>Vec::drain(0..n)\<close> panics on a short vector; \<open>Vec::resize\<close> cuts or fills.\<close>

definition drain :: "nat \<Rightarrow> u8 list \<Rightarrow> cli_err + u8 list" where
  "drain n bs = (if length bs < n then Inl CliPanic else Inr (drop n bs))"

definition resize :: "nat \<Rightarrow> u8 \<Rightarrow> u8 list \<Rightarrow> u8 list" where
  "resize n b bs = take n bs @ replicate (n - length bs) b"

section \<open>The binaries\<close>

definition load_preloader :: "file_tools \<Rightarrow> cli \<Rightarrow> cli_err + upload_file" where
  "load_preloader fl c =
     (if \<not> fl_is_file fl (cl_preloader c) then Inl NoPreloaderFile
      else
        (case read_file fl (cl_preloader c) of
           Inl e \<Rightarrow> Inl e
         | Inr content \<Rightarrow>
             (case fl_try_read fl content of
                Some (load_addr, jump_offset, max_len) \<Rightarrow>
                  (case (if starts_with content EMMC_BOOT then drain 0xb00 content
                         else if starts_with content MMM then drain 0x300 content
                         else Inl JunkPreloader) of
                     Inl e \<Rightarrow> Inl e
                   | Inr body \<Rightarrow> Inr (load_addr + jump_offset, resize max_len 0 body))
              | None \<Rightarrow>
                  (case cl_preloader_addr c of
                     Some addr \<Rightarrow> Inr (addr, content)
                   | None \<Rightarrow> Inl NeedsPreloaderAddress))))"

definition analyze :: "file_tools \<Rightarrow> upload_file \<Rightarrow> cli_err + analyzer" where
  "analyze fl f = (case fl_analyze fl (snd f) (fst f) of None \<Rightarrow> Inl AnalyzerFailed | Some a \<Rightarrow> Inr a)"

text \<open>LK, its analysis, and the parameters with its data area reserved.\<close>

definition load_lk :: "file_tools \<Rightarrow> cli \<Rightarrow> analyzer \<Rightarrow> PayloadParams \<Rightarrow>
    cli_err + (upload_file \<times> analyzer) option \<times> PayloadParams" where
  "load_lk fl c pl params =
     (case cl_lk c of
        None \<Rightarrow> Inr (None, params)
      | Some path \<Rightarrow>
          (case read_file fl path of
             Inl e \<Rightarrow> Inl e
           | Inr raw \<Rightarrow>
               let content = (case fl_partitions fl raw of part # _ \<Rightarrow> part | [] \<Rightarrow> raw)
               in (case extract_lk_base pl of
                     Inl e \<Rightarrow> Inl (NoLkData e)
                   | Inr lk_base \<Rightarrow>
                       let bss = lk_base + word_of_nat (length content)
                       in (case blacklist_reloc params (bss, bss + 512 * 1024) of
                             Inl _ \<Rightarrow> Inl LkBssNotReserved
                           | Inr params \<Rightarrow>
                               (case analyze fl (lk_base, content) of
                                  Inl e \<Rightarrow> Inl e
                                | Inr a \<Rightarrow> Inr (Some ((lk_base, content), a), params))))))"

fun read_inputs :: "file_tools \<Rightarrow> (string \<times> u32) list \<Rightarrow> cli_err + upload_file list" where
  "read_inputs fl [] = Inr []"
| "read_inputs fl ((path, addr) # fs) =
     (case read_file fl path of
        Inl e \<Rightarrow> Inl e
      | Inr bs \<Rightarrow> (case read_inputs fl fs of Inl e \<Rightarrow> Inl e | Inr r \<Rightarrow> Inr ((addr, bs) # r)))"

section \<open>The checks\<close>

definition validate :: "file_tools \<Rightarrow> cli \<Rightarrow> bool \<Rightarrow> bool \<Rightarrow> bool \<Rightarrow> cli_err + unit" where
  "validate fl c has_lk has_kernel has_at_least_one_file =
     (let has_jump = cl_jump_address c \<noteq> None
      in case cl_mode c of
           BootROM \<Rightarrow>
             if has_kernel then Inl KernelNotPossible
             else if \<not> has_jump then Inl BootromNeedsJump
             else Inr ()
         | BootPreloader \<Rightarrow>
             if \<not> has_at_least_one_file \<and> \<not> has_lk then Inl PreloaderNeedsFile
             else if \<not> has_jump \<and> \<not> has_lk then Inl PreloaderNeedsJump
             else if has_kernel then Inl KernelNotPossible
             else Inr ()
         | BootLK \<Rightarrow>
             if \<not> has_lk then Inl LkNeedsLk
             else if \<not> has_at_least_one_file \<and> \<not> has_kernel then Inl LkNeedsKernelOrImage
             else if has_jump then Inl LkHasJump
             else if \<not> (has_at_least_one_file \<and> \<not> has_kernel) \<and> \<not> fl_which fl ''mkbootimg'' then Inl NoMkbootimg
             else if cl_dram_size_per_rank c = None \<or> cl_dram_ranks c = None then Inl NoDramSize
             else Inr ()
         | REPL \<Rightarrow>
             if has_jump then Inl ReplHasJump
             else if has_kernel then Inl KernelNotPossible
             else Inr ())"

text \<open>The values a session extracts from the two analyses. An extractor that panics counts as one that
  finds nothing.\<close>

definition ok :: "'e + 'a \<Rightarrow> 'a option" where
  "ok x = (case x of Inl _ \<Rightarrow> None | Inr a \<Rightarrow> Some a)"

definition analysis_of :: "analyzer \<Rightarrow> analyzer option \<Rightarrow> analysis" where
  "analysis_of pl lk =
     (let of_lk = (\<lambda>extract. case lk of None \<Rightarrow> None | Some a \<Rightarrow> ok (extract a))
      in \<lparr>an_dlul = ok (extract_usb_ptr pl), an_bldr_jump = ok (extract_bldr_jump pl),
          an_generic_read = of_lk extract_generic_read, an_get_partition = of_lk mt_part_get_partition,
          an_get_part = of_lk get_part\<rparr>)"

definition prepare :: "file_tools \<Rightarrow> cli \<Rightarrow> cli_err + host_state \<times> analysis" where
  "prepare fl c =
     andThen (load_preloader fl c) (\<lambda>pl.
     andThen (analyze fl pl) (\<lambda>pl_analyzer.
     andThen (load_lk fl c pl_analyzer params_default) (\<lambda>(lk, params).
     andThen (read_optional fl (cl_kernel c)) (\<lambda>zimage.
     andThen (read_optional fl (cl_ramdisk c)) (\<lambda>ramdisk.
     andThen (read_inputs fl (cl_input c)) (\<lambda>input.
     andThen (validate fl c (lk \<noteq> None) (zimage \<noteq> None) (input \<noteq> [])) (\<lambda>_.
       Inr (\<lparr>st_soc = MT6572, st_mode = cl_mode c,
             st_lk_mode = (case cl_lk_mode c of Some m \<Rightarrow> m | None \<Rightarrow> Normal),
             st_dram_size_per_rank = unwrap_or_default (cl_dram_size_per_rank c),
             st_dram_ranks = unwrap_or_default (cl_dram_ranks c),
             st_upload = input, st_preloader = pl, st_lk = map_option fst lk,
             st_kernel = zimage, st_ramdisk = ramdisk,
             st_jump_addr = unwrap_or_default (cl_jump_address c), st_params = params\<rparr>,
            analysis_of pl_analyzer (map_option snd lk)))))))))"

text \<open>\<open>main\<close>: a refused command line, or the run on the ports that the polls find.\<close>

definition da_boot_main :: "file_tools \<Rightarrow> bool \<Rightarrow> u8 list \<Rightarrow> 'p setting \<Rightarrow> (string \<Rightarrow> 'p option) \<Rightarrow> cli \<Rightarrow>
    port_info list option list \<Rightarrow> cli_err + boot_err + 'p run" where
  "da_boot_main fl static_feature included_pl sg opener c polls =
     andThen (prepare fl c) (\<lambda>(st, an).
       let ot = (sg_out sg)\<lparr>ot_analysis := an,
             ot_brom_payload := brom_payload static_feature included_pl (fl_read fl),
             ot_pl_payload := pl_payload static_feature included_pl (fl_read fl)\<rparr>
       in Inr (run (sg\<lparr>sg_out := ot\<rparr>) (cl_crash c) st (open_port opener polls)))"

section \<open>Lemmas\<close>

lemma rsplit_once_absent: "c \<notin> set s \<Longrightarrow> rsplit_once c s = None"
  by (induction s) auto

lemma rsplit_once_last: "c \<notin> set rest \<Longrightarrow> rsplit_once c (s @ c # rest) = Some (s, rest)"
  by (induction s) (auto simp: rsplit_once_absent)

lemma prepare_cases:
  assumes "prepare fl c = Inr (st, an)"
  obtains pl pl_analyzer lk params zimage ramdisk input where
    "load_preloader fl c = Inr pl" "load_lk fl c pl_analyzer params_default = Inr (lk, params)"
    "read_inputs fl (cl_input c) = Inr input" "validate fl c (lk \<noteq> None) (zimage \<noteq> None) (input \<noteq> []) = Inr ()"
    "st_mode st = cl_mode c" "st_lk st = map_option fst lk" "st_kernel st = zimage" "st_upload st = input"
    "st_jump_addr st = unwrap_or_default (cl_jump_address c)" "st_params st = params"
  using assms by (fastforce simp: prepare_def andThen_Inr)

lemma validate_ok:
  assumes "validate fl c has_lk has_kernel has_file = Inr ()"
  shows "cl_mode c = BootLK \<Longrightarrow> has_lk \<and> (has_kernel \<or> has_file) \<and> cl_jump_address c = None"
    and "cl_mode c = BootPreloader \<Longrightarrow> has_lk \<or> has_file \<and> cl_jump_address c \<noteq> None"
    and "cl_mode c = BootROM \<Longrightarrow> cl_jump_address c \<noteq> None"
    and "has_kernel \<Longrightarrow> cl_mode c = BootLK"
proof -
  show "has_lk \<and> (has_kernel \<or> has_file) \<and> cl_jump_address c = None" if "cl_mode c = BootLK"
    using assms that by (auto simp: validate_def split: if_splits)
  show "has_lk \<or> has_file \<and> cl_jump_address c \<noteq> None" if "cl_mode c = BootPreloader"
    using assms that by (auto simp: validate_def split: if_splits)
  show "cl_jump_address c \<noteq> None" if "cl_mode c = BootROM"
    using assms that by (auto simp: validate_def split: if_splits)
  show "cl_mode c = BootLK" if has_kernel
    using assms that by (cases "cl_mode c") (auto simp: validate_def Let_def split: if_splits)
qed

lemma read_inputs_Inr:
  "read_inputs fl fs = Inr input \<Longrightarrow>
   list_all2 (\<lambda>(path, addr) f. fst f = addr \<and> fl_read fl path = Some (snd f)) fs input"
proof (induction fs arbitrary: input)
  case (Cons f fs)
  then show ?case by (cases f) (auto simp: read_file_def split: sum.splits option.splits)
qed simp

lemma reserved_default: "reserved params_default = {}"
  by (simp add: reserved_def params_default_def blacklist_range_default_def)

lemma load_lk_Inr:
  assumes "load_lk fl c pl params = Inr (lk, params')"
  shows "case lk of
      None \<Rightarrow> cl_lk c = None \<and> params' = params
    | Some (f, _) \<Rightarrow> extract_lk_base pl = Inr (fst f) \<and>
        (let bss = fst f + word_of_nat (length (snd f)) in reserved params' = insert (bss, bss + 512 * 1024) (reserved params))"
  using assms reserved_blacklist_with [of ForbiddenReloc params]
  by (auto simp: load_lk_def blacklist_reloc_def Let_def split: option.splits sum.splits)

text \<open>LK takes one of the twelve slots, nothing else does.\<close>

lemma load_lk_slots:
  assumes "load_lk fl c pl params_default = Inr (Some x, params')"
  shows "free_slots params' = 11"
proof -
  have "free_slots params_default = 12"
    by (simp add: free_slots_def params_default_def blacklist_range_default_def)
  moreover from assms obtain r where "blacklist_with ForbiddenReloc params_default r = Inr params'"
    by (auto simp: load_lk_def blacklist_reloc_def Let_def split: option.splits sum.splits)
  ultimately show ?thesis using free_slots_blacklist_with [of ForbiddenReloc params_default r] by simp
qed

text \<open>The image of the LK mode is missing only without kernel and without upload.\<close>

lemma boot_image_input:
  assumes "st_kernel st \<noteq> None \<or> st_upload st \<noteq> []"
  shows "fst (boot_image ot ops cs st p) \<noteq> Inl ErrNoInput"
proof (cases "st_kernel st")
  case None
  with assms show ?thesis by (cases "st_upload st") (auto simp: boot_image_def some_or_def returnS_def)
next
  case (Some zimage)
  then show ?thesis
    by (auto simp: boot_image_def Let_def bindS_def some_or_def failS_def returnS_def free_range_def send_def receive_def
        liftE_def upload_to_def blacklist_def send_acked_def receive_ok_def
        split: option.splits sum.splits prod.splits if_splits Response.splits)
qed

lemma rsplit_once_SomeD: "rsplit_once c s = Some (a, b) \<Longrightarrow> s = a @ c # b \<and> c \<notin> set b"
proof (induction s arbitrary: a)
  case (Cons x s)
  show ?case
  proof (cases "rsplit_once c s")
    case None
    have "c \<notin> set s" using None
    proof (rule contrapos_pn)
      assume "c \<in> set s"
      then obtain us vs where "s = us @ c # vs" "c \<notin> set vs" by (metis split_list_last)
      then show "rsplit_once c s \<noteq> None" by (simp add: rsplit_once_last)
    qed
    with None Cons.prems show ?thesis by (auto split: if_splits)
  next
    case (Some y)
    with Cons show ?thesis by (cases y) auto
  qed
qed simp

section \<open>Properties\<close>

text \<open>An upload argument reads as path and address exactly when it is the path, an at sign, and a text without
  one that is a number: the address is what follows the last at sign, and paths may contain the sign.\<close>

theorem upload_spec_splits:
  "upload_spec_from_str maybe_hex s = Inr (path, a) \<longleftrightarrow>
    (\<exists>text. s = path @ CHR ''@'' # text \<and> CHR ''@'' \<notin> set text \<and> maybe_hex text = Inr a)"
  by (auto simp: upload_spec_from_str_def rsplit_once_last dest: rsplit_once_SomeD split: option.splits sum.splits)

text \<open>C27: A command line that passes the checks has what its mode needs. Every upload holds the content of its
  file at its address; the LK mode has LK, an image to boot, which the session therefore never finds
  missing, and no jump address; the preloader mode has LK or an upload; only the LK mode has a
  kernel; and the half megabyte behind LK is the one range reserved.\<close>

theorem accepted_arguments_suffice:
  assumes "prepare fl c = Inr (st, an)"
  shows "list_all2 (\<lambda>(path, addr) f. fst f = addr \<and> fl_read fl path = Some (snd f)) (cl_input c) (st_upload st) \<and>
    (st_mode st = BootLK \<longrightarrow> st_lk st \<noteq> None \<and> st_jump_addr st = 0 \<and>
      fst (boot_image ot ops cs st p) \<noteq> Inl ErrNoInput) \<and>
    (st_mode st = BootPreloader \<longrightarrow> st_lk st \<noteq> None \<or> st_upload st \<noteq> [] \<and> cl_jump_address c = Some (st_jump_addr st)) \<and>
    (st_kernel st \<noteq> None \<longrightarrow> st_mode st = BootLK) \<and>
    reserved (st_params st) = (case st_lk st of None \<Rightarrow> {}
      | Some (base, lk) \<Rightarrow> {(base + word_of_nat (length lk), base + word_of_nat (length lk) + 512 * 1024)})"
proof (intro conjI impI)
  from assms obtain pl pl_analyzer lk params zimage ramdisk input where
    lk: "load_lk fl c pl_analyzer params_default = Inr (lk, params)"
    and input: "read_inputs fl (cl_input c) = Inr input"
    and valid: "validate fl c (lk \<noteq> None) (zimage \<noteq> None) (input \<noteq> []) = Inr ()"
    and st: "st_mode st = cl_mode c" "st_lk st = map_option fst lk" "st_kernel st = zimage" "st_upload st = input"
      "st_jump_addr st = unwrap_or_default (cl_jump_address c)" "st_params st = params"
    by (rule prepare_cases)
  note checked = validate_ok [OF valid]
  show "list_all2 (\<lambda>(path, addr) f. fst f = addr \<and> fl_read fl path = Some (snd f)) (cl_input c) (st_upload st)"
    using read_inputs_Inr [OF input] unfolding st .
  show "st_lk st \<noteq> None" and "st_jump_addr st = 0" if "st_mode st = BootLK"
    using checked(1) that by (simp_all add: st unwrap_or_default_def)
  show "fst (boot_image ot ops cs st p) \<noteq> Inl ErrNoInput" if "st_mode st = BootLK"
    using checked(1) that by (intro boot_image_input) (simp add: st)
  show "st_lk st \<noteq> None \<or> st_upload st \<noteq> [] \<and> cl_jump_address c = Some (st_jump_addr st)" if "st_mode st = BootPreloader"
    using checked(2) that by (auto simp add: st unwrap_or_default_def)
  show "st_mode st = BootLK" if "st_kernel st \<noteq> None"
    using checked(4) that by (simp add: st)
  show "reserved (st_params st) = (case st_lk st of None \<Rightarrow> {}
      | Some (base, lk) \<Rightarrow> {(base + word_of_nat (length lk), base + word_of_nat (length lk) + 512 * 1024)})"
  proof (cases lk)
    case None
    then show ?thesis using load_lk_Inr [OF lk] by (simp add: st(2,6) reserved_default)
  next
    case (Some la)
    obtain base bs a where "la = ((base, bs), a)" by (metis surj_pair)
    with Some show ?thesis using load_lk_Inr [OF lk] unfolding st(2,6) by (simp add: Let_def reserved_default)
  qed
qed

text \<open>The boot ROM mode without files is accepted and fails at the device. The checks announce that it
  boots the preloader and demand a jump address, but the run bails out with nothing to boot, having
  sent nothing after the start of the payload.\<close>

theorem bootrom_without_files_fails:
  assumes "prepare fl c = Inr (st, an)" and "cl_mode c = BootROM" and "cl_input c = []"
  shows "cl_jump_address c = Some (st_jump_addr st) \<and> brom_images ops cs st p = (Inl ErrNoBinary, p)"
proof -
  from assms(1) obtain lk :: "(upload_file \<times> analyzer) option" and zimage :: "u8 list option" and input where
    input: "read_inputs fl (cl_input c) = Inr input" and
    valid: "validate fl c (lk \<noteq> None) (zimage \<noteq> None) (input \<noteq> []) = Inr ()" and
    st: "st_upload st = input" "st_jump_addr st = unwrap_or_default (cl_jump_address c)"
    by (rule prepare_cases) blast
  from input assms(3) validate_ok(3) [OF valid assms(2)] show ?thesis
    by (auto simp: st brom_images_def failS_def unwrap_or_default_def)
qed

text \<open>A raw preloader and two files on disk; LK's load address is in register 3 of the only block.\<close>

definition sample_tools :: file_tools where
  "sample_tools =
     (let block = \<lparr>bk_code = [], bk_fn_calls = [],
                   bk_data_refs = [(\<lparr>cd_va = 0, cd_opcode = Ldr, cd_operand0 = Reg 3, cd_operand1 = OtherOperand\<rparr>, 0x2000100)],
                   bk_try_get_imm = (\<lambda>_ _. Some 0x81E00000)\<rparr>
      in \<lparr>fl_is_file = (\<lambda>_. True),
          fl_read = (\<lambda>path. if path = ''lk.img'' then Some [5, 6, 7, 8] else Some [1, 2]),
          fl_try_read = (\<lambda>_. None), fl_partitions = (\<lambda>_. []),
          fl_analyze = (\<lambda>_ _. Some \<lparr>az_fn_by_str = (\<lambda>_. Some \<lparr>fn_start_va = 0, fn_blocks = [block]\<rparr>),
            az_blocks_by_str = (\<lambda>_. []), az_read_u32 = (\<lambda>_. None), az_read_cstr = (\<lambda>_. Some ''lk'')\<rparr>),
          fl_which = (\<lambda>_. True)\<rparr>)"

definition sample_cli :: cli where
  "sample_cli =
     \<lparr>cl_crash = False, cl_preloader = ''pl.bin'', cl_preloader_addr = Some 0x2007500, cl_lk = None, cl_lk_addr = None,
      cl_lk_mode = None, cl_dram_size_per_rank = None, cl_dram_ranks = None, cl_kernel = None, cl_ramdisk = None,
      cl_input = [], cl_jump_address = Some 0x80200000, cl_mode = BootROM\<rparr>"

lemmas prepare_sample = prepare_def load_preloader_def load_lk_def read_file_def read_optional_def analyze_def validate_def
  andThen_def extract_lk_base_def context_of_def blacklist_reloc_def blacklist_with_def find_free_range_def params_default_def
  blacklist_range_default_def replicate_numeral_unfold sample_tools_def sample_cli_def

lemma accepted_arguments_suffice_witness:
  "\<exists>st an. prepare sample_tools (sample_cli\<lparr>cl_lk := Some ''lk.img'', cl_kernel := Some ''zImage'', cl_jump_address := None,
      cl_dram_size_per_rank := Some 0x20000000, cl_dram_ranks := Some 1, cl_mode := BootLK\<rparr>) = Inr (st, an) \<and>
     st_mode st = BootLK \<and> reserved (st_params st) = {(0x81E00004, 0x81E80004)}"
proof -
  let ?c = "sample_cli\<lparr>cl_lk := Some ''lk.img'', cl_kernel := Some ''zImage'', cl_jump_address := None,
      cl_dram_size_per_rank := Some 0x20000000, cl_dram_ranks := Some 1, cl_mode := BootLK\<rparr>"
  obtain st an where prepared: "prepare sample_tools ?c = Inr (st, an)" and lk: "st_lk st = Some (0x81E00000, [5, 6, 7, 8])"
    by (simp add: prepare_sample)
  from accepted_arguments_suffice [OF prepared, of undefined undefined undefined undefined] lk
  have "st_kernel st \<noteq> None \<longrightarrow> st_mode st = BootLK" "reserved (st_params st) = {(0x81E00004, 0x81E80004)}"
    by auto
  moreover from prepared have "st_kernel st \<noteq> None" by (auto simp: prepare_sample)
  ultimately show ?thesis using prepared by blast
qed

lemma bootrom_without_files_fails_witness:
  "\<exists>st an. prepare sample_tools sample_cli = Inr (st, an) \<and>
     brom_images script_ops sample_codecs st (protocol_new 16 \<lparr>q_in = [], q_out = []\<rparr>) =
       (Inl ErrNoBinary, protocol_new 16 \<lparr>q_in = [], q_out = []\<rparr>)"
proof -
  obtain st an where prepared: "prepare sample_tools sample_cli = Inr (st, an)"
    by (simp add: prepare_sample)
  from bootrom_without_files_fails [OF prepared] show ?thesis using prepared by (auto simp: sample_cli_def)
qed

end
