(* ===== verification/Thunk.thy ===== *)
theory Thunk
  imports Interceptor
begin

text \<open>
  The module \<open>hook_with_context!\<close> of \<open>payloads/interceptor/src/lib.rs\<close> generates: a naked thunk that
  saves the registers in the layout of \<open>InvocationContext\<close>, calls the hook with the context, and
  returns with whatever the context holds then. The machine is the register file and the memory;
  the body of the hook is a function on it, which keeps the stack pointer as the calling
  convention has it.
\<close>

section \<open>Machine\<close>

record machine =
  mc_regs :: "nat \<Rightarrow> u32"
  mc_mem :: mem

definition SP :: nat where "SP = 13"
definition LR :: nat where "LR = 14"
definition PC :: nat where "PC = 15"

text \<open>\<open>push\<close> stores the registers of the list at ascending addresses below the stack pointer, \<open>pop\<close>
  takes them back.\<close>

definition push :: "nat list \<Rightarrow> machine \<Rightarrow> machine" where
  "push rs s =
     (let sp = mc_regs s SP - word_of_nat (4 * length rs)
      in \<lparr>mc_regs = (mc_regs s)(SP := sp),
          mc_mem = store_bytes (mc_mem s) sp (concat (map (\<lambda>r. le32 (mc_regs s r)) rs))\<rparr>)"

fun load_regs :: "mem \<Rightarrow> u32 \<Rightarrow> nat list \<Rightarrow> (nat \<Rightarrow> u32) \<Rightarrow> nat \<Rightarrow> u32" where
  "load_regs m a [] f = f"
| "load_regs m a (r # rs) f = load_regs m (a + 4) rs (f(r := read32_unchecked m a))"

definition pop :: "nat list \<Rightarrow> machine \<Rightarrow> machine" where
  "pop rs s =
     (let sp = mc_regs s SP
      in s\<lparr>mc_regs := (load_regs (mc_mem s) sp rs (mc_regs s))(SP := sp + word_of_nat (4 * length rs))\<rparr>)"

definition mov :: "nat \<Rightarrow> nat \<Rightarrow> machine \<Rightarrow> machine" where
  "mov d r s = s\<lparr>mc_regs := (mc_regs s)(d := mc_regs s r)\<rparr>"

text \<open>The call leaves its return address in the link register and goes to the body.\<close>

definition bl :: "u32 \<Rightarrow> machine \<Rightarrow> machine" where
  "bl ret s = s\<lparr>mc_regs := (mc_regs s)(LR := ret)\<rparr>"

definition bx_lr :: "machine \<Rightarrow> machine" where
  "bx_lr s = s\<lparr>mc_regs := (mc_regs s)(PC := mc_regs s LR)\<rparr>"

section \<open>The thunk\<close>

definition arguments :: "nat list" where "arguments = [0, 1, 2, 3]"
definition saved :: "nat list" where "saved = [4, 5, 6, 7, 8, 9, 10, 11, 12, LR]"

definition thunk_entry :: "u32 \<Rightarrow> machine \<Rightarrow> machine" where
  "thunk_entry ret s = bl ret (mov 0 SP (push saved (push arguments s)))"

definition thunk :: "(machine \<Rightarrow> machine) \<Rightarrow> u32 \<Rightarrow> machine \<Rightarrow> machine" where
  "thunk body_fn ret s = bx_lr (pop arguments (pop saved (body_fn (thunk_entry ret s))))"

text \<open>\<open>InvocationContext\<close>: \<open>repr(C)\<close>, fourteen words.\<close>

record InvocationContext =
  ic_r4 :: u32
  ic_r5 :: u32
  ic_r6 :: u32
  ic_r7 :: u32
  ic_r8 :: u32
  ic_r9 :: u32
  ic_r10 :: u32
  ic_r11 :: u32
  ic_r12 :: u32
  ic_lr :: u32
  ic_r0 :: u32
  ic_r1 :: u32
  ic_r2 :: u32
  ic_r3 :: u32

definition context_at :: "mem \<Rightarrow> u32 \<Rightarrow> InvocationContext" where
  "context_at m a =
     \<lparr>ic_r4 = read32_unchecked m a, ic_r5 = read32_unchecked m (a + 4), ic_r6 = read32_unchecked m (a + 8),
      ic_r7 = read32_unchecked m (a + 12), ic_r8 = read32_unchecked m (a + 16), ic_r9 = read32_unchecked m (a + 20),
      ic_r10 = read32_unchecked m (a + 24), ic_r11 = read32_unchecked m (a + 28), ic_r12 = read32_unchecked m (a + 32),
      ic_lr = read32_unchecked m (a + 36), ic_r0 = read32_unchecked m (a + 40), ic_r1 = read32_unchecked m (a + 44),
      ic_r2 = read32_unchecked m (a + 48), ic_r3 = read32_unchecked m (a + 52)\<rparr>"

definition context_sp :: "u32 \<Rightarrow> u32" where
  "context_sp a = a + 56"

text \<open>The other functions of the module are those of \<open>hook!\<close>, with the thunk in place of the body.\<close>

definition context_replace :: "('h \<Rightarrow> Layout \<Rightarrow> u32 \<times> 'h) \<Rightarrow> u32 \<Rightarrow> u32 \<Rightarrow> u32 \<times> 'h istate \<Rightarrow>
    ((InterceptErr + unit) \<times> u32 \<times> 'h istate) option" where
  "context_replace allocate thunk_addr target = hook_replace allocate thunk_addr target"

definition context_revert :: "u32 \<times> 'h istate \<Rightarrow> ((InterceptErr + unit) \<times> u32 \<times> 'h istate) option" where
  "context_revert = hook_revert"

definition context_original :: "u32 \<times> 'h istate \<Rightarrow> u32" where
  "context_original = hook_original"

text \<open>The registers of a machine as a context.\<close>

definition context_of_regs :: "(nat \<Rightarrow> u32) \<Rightarrow> InvocationContext" where
  "context_of_regs f =
     \<lparr>ic_r4 = f 4, ic_r5 = f 5, ic_r6 = f 6, ic_r7 = f 7, ic_r8 = f 8, ic_r9 = f 9, ic_r10 = f 10, ic_r11 = f 11,
      ic_r12 = f 12, ic_lr = f LR, ic_r0 = f 0, ic_r1 = f 1, ic_r2 = f 2, ic_r3 = f 3\<rparr>"

section \<open>Words in a stored block\<close>

lemma load_stored_word:
  assumes "i < length ws" and "4 * length ws \<le> 2 ^ 32"
  shows "read32_unchecked (store_bytes m a (concat (map le32 ws))) (a + word_of_nat (4 * i)) = ws ! i"
proof -
  have len: "length (concat (map le32 vs)) = 4 * length vs" for vs by (induction vs) simp_all
  have split: "concat (map le32 ws) = concat (map le32 (take i ws)) @ le32 (ws ! i) @ concat (map le32 (drop (Suc i) ws))"
    using assms(1) by (subst id_take_nth_drop [of i]) simp_all
  have "length (concat (map le32 (take i ws))) + length (le32 (ws ! i)) + length (concat (map le32 (drop (Suc i) ws))) \<le> 2 ^ 32"
    using assms unfolding len by simp
  from ram.load_store_inside [OF this, of m a] assms(1)
  have "load_bytes (store_bytes m a (concat (map le32 ws))) (a + word_of_nat (4 * i)) 4 = le32 (ws ! i)"
    unfolding split [symmetric] len by simp
  then show ?thesis by (simp add: read32_unchecked_def)
qed

lemma store_below:
  assumes "length bs + length cs \<le> 2 ^ 32"
  shows "store_bytes (store_bytes m (a + word_of_nat (length bs)) cs) a bs = store_bytes m a (bs @ cs)"
proof
  fix x
  have lens: "length bs \<le> 2 ^ 32" "length cs \<le> 2 ^ 32" "length (bs @ cs) \<le> 2 ^ 32" using assms by simp_all
  show "store_bytes (store_bytes m (a + word_of_nat (length bs)) cs) a bs x = store_bytes m a (bs @ cs) x"
  proof (cases "unat (x - a) < length bs")
    case True
    then show ?thesis by (simp add: store_bytes_apply [OF lens(1)] store_bytes_apply [OF lens(3)] nth_append)
  next
    case False
    have rest: "unat (x - a) - length bs < length cs \<longleftrightarrow> unat (x - a) < length (bs @ cs)" using False by auto
    from False have small: "length bs < 2 ^ 32" using le_unat_u32_lt [of "length bs" "x - a"] by simp
    then have n: "unat (word_of_nat (length bs) :: u32) = length bs" by (simp add: unat_of_nat)
    have "x - (a + word_of_nat (length bs)) = (x - a) - word_of_nat (length bs)" by simp
    then have "unat (x - (a + word_of_nat (length bs))) = unat (x - a) - length bs"
      using False n by (simp only: unat_sub_u32) simp
    then show ?thesis using False rest
      by (simp add: store_bytes_apply [OF lens(1)] store_bytes_apply [OF lens(2)] store_bytes_apply [OF lens(3)] nth_append)
  qed
qed

lemma regs_of_names [simp]: "SP = 13" "LR = 14" "PC = 15"
  by (simp_all add: SP_def LR_def PC_def)

lemma entry_memory:
  "mc_mem (thunk_entry ret s) =
    store_bytes (mc_mem s) (mc_regs s 13 - 56) (concat (map le32 (map (mc_regs s) (saved @ arguments))))"
proof -
  let ?sp = "mc_regs s 13" and ?bytes = "\<lambda>rs. concat (map le32 (map (mc_regs s) rs))"
  have len: "length (?bytes saved) = 40" "length (?bytes arguments) = 16" by (simp_all add: saved_def arguments_def)
  have "mc_mem (thunk_entry ret s) =
      store_bytes (store_bytes (mc_mem s) (?sp - 16) (?bytes arguments)) (?sp - 56) (?bytes saved)"
    by (simp add: thunk_entry_def push_def bl_def mov_def Let_def saved_def arguments_def)
  also have "?sp - 16 = (?sp - 56) + word_of_nat (length (?bytes saved))" unfolding len by simp
  also have "store_bytes (store_bytes (mc_mem s) ((?sp - 56) + word_of_nat (length (?bytes saved))) (?bytes arguments))
      (?sp - 56) (?bytes saved) = store_bytes (mc_mem s) (?sp - 56) (?bytes saved @ ?bytes arguments)"
    by (rule store_below) (simp only: len, simp)
  finally show ?thesis by simp
qed

lemma entry_regs: "mc_regs (thunk_entry ret s) 0 = mc_regs s 13 - 56" "mc_regs (thunk_entry ret s) 13 = mc_regs s 13 - 56"
  by (simp_all add: thunk_entry_def push_def bl_def mov_def Let_def saved_def arguments_def)

lemma entry_context: "context_at (mc_mem (thunk_entry ret s)) (mc_regs s 13 - 56) = context_of_regs (mc_regs s)"
proof -
  let ?ws = "map (mc_regs s) (saved @ arguments)"
  have word: "read32_unchecked (mc_mem (thunk_entry ret s)) (mc_regs s 13 - 56 + word_of_nat (4 * i)) = ?ws ! i" if "i < 14" for i
    unfolding entry_memory using that by (intro load_stored_word) (simp_all add: saved_def arguments_def)
  show ?thesis
    using word [of 0] word [of 1] word [of 2] word [of 3] word [of 4] word [of 5] word [of 6] word [of 7]
      word [of 8] word [of 9] word [of 10] word [of 11] word [of 12] word [of 13]
    by (simp add: context_at_def context_of_regs_def saved_def arguments_def)
qed

lemma exit_regs:
  assumes "mc_regs t 13 = sp"
  shows "context_of_regs (mc_regs (bx_lr (pop arguments (pop saved t)))) = context_at (mc_mem t) sp"
    and "mc_regs (bx_lr (pop arguments (pop saved t))) 13 = sp + 56"
    and "mc_regs (bx_lr (pop arguments (pop saved t))) 15 = ic_lr (context_at (mc_mem t) sp)"
    and "mc_mem (bx_lr (pop arguments (pop saved t))) = mc_mem t"
  by (simp_all add: bx_lr_def pop_def Let_def saved_def arguments_def context_of_regs_def context_at_def assms add.commute [of _ sp])

section \<open>Properties\<close>

text \<open>C19: A hook with context sees the registers of the call and decides those of the return. When the body
  is entered its argument points to a context that holds every register of the call, from which
  \<open>sp\<close> computes the stack pointer of the caller, and nothing outside that block has changed. When it
  is done the thunk returns to the address in the context, with every register as the context has
  it, the caller's stack pointer, and the memory as the body left it.\<close>

theorem thunk_passes_context:
  assumes "\<And>s. mc_regs (body_fn s) 13 = mc_regs s 13"
  shows "(let entry = thunk_entry ret s; ctx = mc_regs entry 0 in
      context_at (mc_mem entry) ctx = context_of_regs (mc_regs s) \<and> context_sp ctx = mc_regs s 13 \<and>
      (\<forall>a n. apart a n ctx 56 \<longrightarrow> load_bytes (mc_mem entry) a n = load_bytes (mc_mem s) a n) \<and>
      context_of_regs (mc_regs (thunk body_fn ret s)) = context_at (mc_mem (body_fn entry)) ctx \<and>
      mc_regs (thunk body_fn ret s) 15 = ic_lr (context_at (mc_mem (body_fn entry)) ctx) \<and>
      mc_regs (thunk body_fn ret s) 13 = mc_regs s 13 \<and>
      mc_mem (thunk body_fn ret s) = mc_mem (body_fn entry))"
proof -
  have sp: "mc_regs (body_fn (thunk_entry ret s)) 13 = mc_regs s 13 - 56" unfolding assms by (rule entry_regs)
  have "load_bytes (mc_mem (thunk_entry ret s)) a n = load_bytes (mc_mem s) a n" if "apart a n (mc_regs s 13 - 56) 56" for a n
    unfolding entry_memory using that by (intro ram.load_store_apart) (simp_all add: saved_def arguments_def)
  then show ?thesis
    using exit_regs [OF sp] entry_context [of ret s] by (simp add: Let_def entry_regs context_sp_def thunk_def)
qed

text \<open>A hook that makes the call return 1.\<close>

definition return_one :: "machine \<Rightarrow> machine" where
  "return_one s = s\<lparr>mc_mem := write32_unchecked (mc_mem s) (mc_regs s 0 + 40) 1\<rparr>"

lemma thunk_passes_context_witness:
  "mc_regs (thunk return_one 0x2001 \<lparr>mc_regs = (\<lambda>r. if r = 13 then 0x80001000 else word_of_nat r), mc_mem = (\<lambda>_. 0)\<rparr>) 13 = 0x80001000 \<and>
   ic_r0 (context_of_regs (mc_regs (thunk return_one 0x2001 \<lparr>mc_regs = (\<lambda>r. if r = 13 then 0x80001000 else word_of_nat r), mc_mem = (\<lambda>_. 0)\<rparr>))) = 1"
proof -
  let ?s = "\<lparr>mc_regs = (\<lambda>r. if r = 13 then 0x80001000 else word_of_nat r), mc_mem = (\<lambda>_. 0)\<rparr>"
  have "mc_regs (return_one s) 13 = mc_regs s 13" for s by (simp add: return_one_def)
  from thunk_passes_context [OF this, of "0x2001" ?s]
  have "mc_regs (thunk return_one 0x2001 ?s) 13 = 0x80001000"
    "context_of_regs (mc_regs (thunk return_one 0x2001 ?s)) =
      context_at (mc_mem (return_one (thunk_entry 0x2001 ?s))) (mc_regs (thunk_entry 0x2001 ?s) 0)"
    by (simp_all add: Let_def)
  then show ?thesis by (simp add: context_at_def return_one_def)
qed

end
