(* ===== verification/Dialogue.thy ===== *)
theory Dialogue
  imports Commands
begin

text \<open>
  What the attributes of a command mean, without the derive macro: the conversation of each field
  on the bytes received and sent, and a proof that the code the macro emits has it, for every
  structure it accepts. Nothing below the first section mentions a token or a codegen type.
\<close>

section \<open>The meaning of the attributes\<close>

definition big_endian :: "nat \<Rightarrow> u32 \<Rightarrow> u8 list" where
  "big_endian w v = rev (map (\<lambda>k. ucast (drop_bit (8 * k) v)) [0..<w])"

definition number :: "u8 list \<Rightarrow> u32" where
  "number bs = foldl (\<lambda>a b. push_bit 8 a OR ucast b) 0 bs"

text \<open>The bytes of an integer type; the others are not integers and have no use of it.\<close>

definition width :: "string \<Rightarrow> nat" where
  "width t = (if t = ''u8'' then 1 else if t = ''u16'' then 2 else 4)"

definition on_wire :: "nat \<Rightarrow> rvalue \<Rightarrow> u8 list" where
  "on_wire w v = (case v of VInt x \<Rightarrow> big_endian w x | VBytes bs \<Rightarrow> bs | VInts xs \<Rightarrow> map ucast xs)"

text \<open>Receiving takes so many integers off the input; \<open>None\<close> is an input that ends too early.\<close>

definition receive_all :: "nat \<Rightarrow> nat \<Rightarrow> u8 list \<Rightarrow> (u32 list \<times> u8 list) option" where
  "receive_all w n inp =
     (if w * n \<le> length inp then Some (map (\<lambda>k. number (take w (drop (w * k) inp))) [0..<n], drop (w * n) inp)
      else None)"

definition receive :: "nat \<Rightarrow> u8 list \<Rightarrow> (u32 \<times> u8 list) option" where
  "receive w inp = (if w \<le> length inp then Some (number (take w inp), drop w inp) else None)"

definition extended :: "(string \<Rightarrow> rvalue) \<Rightarrow> string \<Rightarrow> u32 list \<Rightarrow> string \<Rightarrow> rvalue" where
  "extended self i vs =
     (case self i of VInts xs \<Rightarrow> self(i := VInts (xs @ vs)) | _ \<Rightarrow> if vs = [] then self else self(i := VInts vs))"

text \<open>The result, the bytes sent, the input left and the fields.\<close>

type_synonym outcome = "(cmd_err + unit) \<times> u8 list \<times> u8 list \<times> (string \<Rightarrow> rvalue)"

definition field_dialogue :: "field \<Rightarrow> u8 list \<Rightarrow> (string \<Rightarrow> rvalue) \<Rightarrow> outcome option" where
  "field_dialogue f inp self =
     (let i = fd_ident f; w = width (path_segment (fd_ty f)); sent = on_wire w (self i);
          echoed = map_option (\<lambda>(v, rest).
            if VInt v = self i then (Inr (), sent, rest, self)
            else (Inl (InvalidEchoData (int_of (self i)) v), sent, rest, self)) (receive w inp)
      in case fd_ty f of
           Reference _ \<Rightarrow> Some (Inr (), sent, inp, self)
         | _ \<Rightarrow>
             (case fd_enum_ty f of
                Tx TxNone \<Rightarrow> Some (Inr (), sent, inp, self)
              | Tx (TxAlways v) \<Rightarrow>
                  Some (if unat v < 256 ^ w then (Inr (), big_endian w v, inp, self(i := VInt v))
                        else (Inl CmdPanic, [], inp, self))
              | Rx RxNone _ \<Rightarrow> map_option (\<lambda>(v, rest). (Inr (), [], rest, self(i := VInt v))) (receive w inp)
              | Rx (RxStatus s) _ \<Rightarrow> map_option (\<lambda>(v, rest).
                  if ucast v = s then (Inr (), [], rest, self(i := VInt v))
                  else (Inl (InvalidStatus s (ucast v)), [], rest, self)) (receive w inp)
              | Rx (RxSize n) _ \<Rightarrow> map_option (\<lambda>(vs, rest). (Inr (), [], rest, extended self i vs))
                  (receive_all (width (vec_inner (fd_ty f))) (unat (int_of (self n))) inp)
              | Echo \<Rightarrow> echoed
              | Ack TxThenRx \<Rightarrow> echoed
              | Ack RxThenTx \<Rightarrow> map_option (\<lambda>(v, rest). (Inr (), big_endian w v, rest, self(i := VInt v))) (receive w inp)))"

fun fields_dialogue :: "field list \<Rightarrow> u8 list \<Rightarrow> (string \<Rightarrow> rvalue) \<Rightarrow> outcome option" where
  "fields_dialogue [] inp self = Some (Inr (), [], inp, self)"
| "fields_dialogue (f # fs) inp self =
     (case field_dialogue f inp self of
        None \<Rightarrow> None
      | Some (Inl e, out, rest, self') \<Rightarrow> Some (Inl e, out, rest, self')
      | Some (Inr _, out, rest, self') \<Rightarrow>
          map_option (\<lambda>(r, out', rest', self''). (r, out @ out', rest', self'')) (fields_dialogue fs rest self'))"

text \<open>The command byte goes first; with \<open>echo\<close> the device must repeat it.\<close>

definition dialogue :: "ProtocolKind \<Rightarrow> field list \<Rightarrow> u8 list \<Rightarrow> (string \<Rightarrow> rvalue) \<Rightarrow> outcome option" where
  "dialogue args fs inp self =
     (case args of
        Naked \<Rightarrow> fields_dialogue fs inp self
      | Command c False \<Rightarrow> map_option (\<lambda>(r, out, rest, self'). (r, c # out, rest, self')) (fields_dialogue fs inp self)
      | Command c True \<Rightarrow>
          (case inp of
             [] \<Rightarrow> None
           | b # rest \<Rightarrow>
               if b = c then map_option (\<lambda>(r, out, rest, self'). (r, c # out, rest, self')) (fields_dialogue fs rest self)
               else Some (Inl (InvalidEchoData (ucast c) (ucast b)), [c], rest, self)))"

section \<open>The integers agree\<close>

lemma be_bytes_big_endian: "w \<in> {1, 2, 4} \<Longrightarrow> be_bytes w v = big_endian w v"
  by (auto simp: be_bytes_def big_endian_def le32_def numeral_eq_Suc)

lemma of_be_number: "length bs \<in> {1, 2, 4} \<Longrightarrow> of_be bs = number bs"
proof -
  have "number [a] = of_be [a]" "number [a, b] = of_be [a, b]" for a b :: u8
    by (simp_all add: number_def of_be_def of_le32_def nth_Cons' ac_simps)
  moreover have "number [a, b, c, d] = of_be [a, b, c, d]" for a b c d :: u8
    by (simp add: number_def of_be_def of_le32_def nth_Cons' push_bit_or push_bit_push_bit ac_simps del: push_bit_numeral)
  ultimately show "length bs \<in> {1, 2, 4} \<Longrightarrow> of_be bs = number bs"
    by (auto simp: numeral_eq_Suc length_Suc_conv)
qed

lemma width_cases: "width t \<in> {1, 2, 4}"
  by (simp add: width_def)

lemma int_width_width: "codegen_type s = Some t \<Longrightarrow> int_width t = width s"
  by (auto simp: codegen_type_def int_width_def width_def split: if_splits)


lemma on_wire_tx_bytes: "codegen_type s = Some t \<Longrightarrow> tx_bytes t v = on_wire (width s) v"
  using width_cases [of s] by (auto simp: tx_bytes_def on_wire_def int_width_width be_bytes_big_endian split: rvalue.split)

lemma map_receive_step:
  "map (\<lambda>k. number (take w (drop (w * k) inp))) [0..<Suc n] =
   number (take w inp) # map (\<lambda>k. number (take w (drop (w * k) (drop w inp)))) [0..<n]"
  by (simp add: upt_conv_Cons map_Suc_upt [symmetric] add.commute del: upt_Suc)

lemma receive_all_Suc:
  "receive_all w (Suc n) inp =
     (case receive w inp of
        None \<Rightarrow> None
      | Some (v, rest) \<Rightarrow> map_option (\<lambda>(vs, rest'). (v # vs, rest')) (receive_all w n rest))"
proof (cases "w \<le> length inp")
  case True
  then have "w * Suc n \<le> length inp \<longleftrightarrow> w * n \<le> length (drop w inp)" by auto
  then show ?thesis using True map_receive_step [of w inp n]
    by (simp add: receive_all_def receive_def add.commute del: upt_Suc)
next
  case False
  then show ?thesis by (simp add: receive_all_def receive_def)
qed

section \<open>The emitted code has the dialogue\<close>

text \<open>What a run ends in, when it has a given outcome on the scripted port.\<close>

definition runs_as :: "token list \<Rightarrow> queues running \<Rightarrow> outcome \<Rightarrow> bool" where
  "runs_as ks s oc = (case oc of (r, out, rest, self') \<Rightarrow>
     \<exists>s'. exec_tokens script_ops ks s = (r, s') \<and> rn_self s' = self' \<and>
       q_in (rn_port s') = rest \<and> q_out (rn_port s') = q_out (rn_port s) @ out)"

lemma read_be_receive:
  assumes "receive (width t) (q_in (rn_port s)) = Some (v, rest)" and "codegen_type t = Some u"
  shows "read_be script_ops u s = (Inr (), s\<lparr>rn_tmp := VInt v, rn_port := (rn_port s)\<lparr>q_in := rest\<rparr>\<rparr>)"
proof -
  from assms(1) have l: "width t \<le> length (q_in (rn_port s))" and
    v: "v = number (take (width t) (q_in (rn_port s)))" "rest = drop (width t) (q_in (rn_port s))"
    by (auto simp: receive_def split: if_splits)
  from l width_cases [of t] have "of_be (take (width t) (q_in (rn_port s))) = v"
    unfolding v by (intro of_be_number) (simp add: min_def)
  with l v assms(2) show ?thesis by (simp add: read_be_def script_ops_def Let_def int_width_width)
qed

lemma read_vec_receive:
  "receive_all (width t) n (q_in (rn_port s)) = Some (vs, rest) \<Longrightarrow> codegen_type t = Some u \<Longrightarrow>
   \<exists>s'. read_vec script_ops u i n s = (Inr (), s') \<and> rn_self s' = extended (rn_self s) i vs \<and>
     rn_port s' = (rn_port s)\<lparr>q_in := rest\<rparr>"
proof (induction n arbitrary: s vs)
  case 0
  then show ?case by (auto simp: receive_all_def extended_def split: rvalue.split)
next
  case (Suc n)
  from Suc.prems(1) obtain v inp' us where
    v: "receive (width t) (q_in (rn_port s)) = Some (v, inp')" and
    us: "receive_all (width t) n inp' = Some (us, rest)" "vs = v # us"
    by (auto simp: receive_all_Suc split: option.splits)
  define s1 where "s1 = s\<lparr>rn_tmp := VInt v, rn_port := (rn_port s)\<lparr>q_in := inp'\<rparr>,
    rn_self := (rn_self s)(i := VInts ((case rn_self s i of VInts xs \<Rightarrow> xs | _ \<Rightarrow> []) @ [v]))\<rparr>"
  have "receive_all (width t) n (q_in (rn_port s1)) = Some (us, rest)" using us by (simp add: s1_def)
  from Suc.IH [OF this Suc.prems(2)] obtain s' where
    s': "read_vec script_ops u i n s1 = (Inr (), s')" "rn_self s' = extended (rn_self s1) i us"
      "rn_port s' = (rn_port s1)\<lparr>q_in := rest\<rparr>" by blast
  have "read_vec script_ops u i (Suc n) s = read_vec script_ops u i n s1"
    using read_be_receive [OF v Suc.prems(2)] by (simp add: s1_def)
  moreover have "extended (rn_self s1) i us = extended (rn_self s) i vs"
    by (simp add: s1_def extended_def us(2) split: rvalue.split)
  ultimately show ?case using s' by (simp add: s1_def)
qed


lemma write_script [simp]:
  "write_bytes_to script_ops bs s = (Inr (), s\<lparr>rn_port := (rn_port s)\<lparr>q_out := q_out (rn_port s) @ bs\<rparr>\<rparr>)"
  by (simp add: write_bytes_to_def script_ops_def Let_def)

lemma exceeds_width: "codegen_type s = Some t \<Longrightarrow> (2 :: nat) ^ (8 * int_width t) \<le> n \<longleftrightarrow> \<not> n < 256 ^ width s"
  by (auto simp: int_width_width power_mult)

lemma no_reference:
  "\<nexists>r. t = Reference r \<Longrightarrow> (case t of Path _ \<Rightarrow> a | VecOf _ \<Rightarrow> a | Reference r \<Rightarrow> g r) = a"
  by (cases t) auto

lemma field_runs_as:
  assumes "codegen_field f = Inr ks" and "field_dialogue f (q_in (rn_port s)) (rn_self s) = Some oc"
  shows "runs_as ks s oc"
proof -
  define t where "t = path_segment (fd_ty f)"
  from assms(1) obtain u where u: "codegen_type t = Some u"
    by (auto simp: codegen_field_def t_def Let_def split: rust_type.splits option.splits)
  note facts = codegen_field_def field_dialogue_def Let_def runs_as_def named_def append_tokens_def tk_rx_def
    on_wire_tx_bytes [OF u] exceeds_width [OF u] t_def [symmetric] u
  show ?thesis
  proof (cases "\<exists>r. fd_ty f = Reference r")
    case True
    then have "fd_ty f = Reference t" by (auto simp: t_def)
    with assms show ?thesis by (auto simp: facts)
  next
    case False
    note facts = facts no_reference [OF False]
    show ?thesis
    proof (cases "fd_enum_ty f")
      case (Tx x)
      with assms show ?thesis by (auto simp: facts on_wire_def split: TxType.splits if_splits)
    next
      case (Rx x g)
      show ?thesis
      proof (cases x)
        case (RxSize n)
        with Rx assms show ?thesis by (auto simp: facts dest!: read_vec_receive [where i = "fd_ident f"] split: option.splits if_splits)
      qed (use Rx assms in \<open>auto simp: facts read_be_receive [OF _ u] split: if_splits\<close>)
    next
      case Echo
      with assms show ?thesis by (auto simp: facts read_be_receive [OF _ u] split: if_splits)
    next
      case (Ack a)
      with assms show ?thesis
        by (cases a) (auto simp: facts on_wire_def read_be_receive [OF _ u] split: if_splits)
    qed
  qed
qed

lemma runs_as_stop: "runs_as ks s (Inl e, out, rest, self') \<Longrightarrow> runs_as (ks @ ls) s (Inl e, out, rest, self')"
  by (auto simp: runs_as_def exec_tokens_append)

lemma runs_as_seq:
  assumes "runs_as ks s (Inr (), out, rest, self')"
    and "\<And>s'. rn_self s' = self' \<Longrightarrow> q_in (rn_port s') = rest \<Longrightarrow> runs_as ls s' (r, out', rest', self'')"
  shows "runs_as (ks @ ls) s (r, out @ out', rest', self'')"
proof -
  from assms(1) obtain s1 where s1: "exec_tokens script_ops ks s = (Inr (), s1)" "rn_self s1 = self'"
    "q_in (rn_port s1) = rest" "q_out (rn_port s1) = q_out (rn_port s) @ out"
    by (auto simp: runs_as_def)
  with assms(2) [OF s1(2,3)] show ?thesis by (auto simp: runs_as_def exec_tokens_append)
qed

lemma fields_run_as:
  "codegen_fields fs = Inr ks \<Longrightarrow> fields_dialogue fs (q_in (rn_port s)) (rn_self s) = Some oc \<Longrightarrow> runs_as ks s oc"
proof (induction fs arbitrary: ks s oc)
  case Nil
  then show ?case by (auto simp: runs_as_def)
next
  case (Cons f fs)
  from Cons.prems(1) obtain k1 k2 where k: "codegen_field f = Inr k1" "codegen_fields fs = Inr k2" "ks = k1 @ k2"
    by (auto simp: append_tokens_def split: sum.splits)
  from Cons.prems(2) obtain r out rest self' where
    f: "field_dialogue f (q_in (rn_port s)) (rn_self s) = Some (r, out, rest, self')"
    by (auto split: option.splits)
  note run = field_runs_as [OF k(1) f]
  show ?case
  proof (cases r)
    case (Inl e)
    with Cons.prems(2) f have "oc = (Inl e, out, rest, self')" by simp
    with run Inl k(3) show ?thesis by (simp add: runs_as_stop)
  next
    case (Inr x)
    with Cons.prems(2) f obtain r' out' rest' self'' where
      fs: "fields_dialogue fs rest self' = Some (r', out', rest', self'')" "oc = (r', out @ out', rest', self'')"
      by auto
    have "runs_as k2 s' (r', out', rest', self'')" if "rn_self s' = self'" "q_in (rn_port s') = rest" for s'
      using Cons.IH [OF k(2)] fs(1) that by simp
    with runs_as_seq [of k1 s out rest self' k2 r' out' rest' self''] run Inr fs(2) k(3) show ?thesis by simp
  qed
qed

lemma command_runs_as:
  assumes "da_legacy args fs = Inr ks" and "dialogue args fs (q_in (rn_port s)) (rn_self s) = Some oc"
  shows "runs_as ks s oc"
proof -
  from assms(1) obtain k where k: "codegen_fields fs = Inr k" "ks = codegen_command args @ k"
    by (auto simp: da_legacy_def append_tokens_def split: sum.splits)
  show ?thesis
  proof (cases args)
    case Naked
    with assms(2) k fields_run_as show ?thesis by (simp add: dialogue_def codegen_command_def)
  next
    case (Command c e)
    define inp where "inp = q_in (rn_port s)"
    show ?thesis
    proof (cases "e \<and> (\<exists>b rest. inp = b # rest \<and> b \<noteq> c)")
      case True
      then obtain b rest where b: "e" "inp = b # rest" "b \<noteq> c" by blast
      then have "runs_as (codegen_command args) s (Inl (InvalidEchoData (ucast c) (ucast b)), [c], rest, rn_self s)"
        using Command by (simp add: runs_as_def codegen_command_def exec_simps inp_def)
      moreover have "oc = (Inl (InvalidEchoData (ucast c) (ucast b)), [c], rest, rn_self s)"
        using assms(2) Command b by (simp add: dialogue_def inp_def)
      ultimately show ?thesis using k(2) by (simp add: runs_as_stop)
    next
      case False
      with assms(2) Command obtain rest r out rest' self' where
        inp: "q_in (rn_port s) = (if e then [c] else []) @ rest" and
        o: "fields_dialogue fs rest (rn_self s) = Some (r, out, rest', self')" "oc = (r, [c] @ out, rest', self')"
        by (auto simp: dialogue_def inp_def split: bool.splits list.splits)
      have "runs_as (codegen_command args) s (Inr (), [c], rest, rn_self s)"
        using Command inp by (cases e) (auto simp: runs_as_def codegen_command_def exec_simps)
      from runs_as_seq [OF this] fields_run_as [OF k(1)] o k(2) show ?thesis by simp
    qed
  qed
qed

text \<open>A conversation that is not cut short has no failure of the port.\<close>

lemma fields_dialogue_result: "fields_dialogue fs inp self = Some (r, out, rest, self') \<Longrightarrow> r \<noteq> Inl CmdIo"
proof (induction fs arbitrary: inp self r out rest self')
  case (Cons f fs)
  have "x \<noteq> Inl CmdIo" if "field_dialogue f inp self = Some (x, y)" for x y
    using that by (auto simp: field_dialogue_def Let_def split: rust_type.splits FieldType.splits TxType.splits
        RxType.splits AckType.splits if_splits)
  with Cons show ?case by (fastforce split: option.splits sum.splits)
qed simp

lemma dialogue_result: "dialogue args fs inp self = Some (r, out, rest, self') \<Longrightarrow> r \<noteq> Inl CmdIo"
  by (auto simp: dialogue_def split: ProtocolKind.splits bool.splits list.splits if_splits dest: fields_dialogue_result)

section \<open>Properties\<close>

text \<open>C24: The code the derive macro emits has the conversation its attributes describe. For every structure
  the macro accepts and every port of byte queues, when the bytes received are enough for the
  conversation, running the code gives its result, sends exactly its bytes, leaves exactly the rest
  of the input and leaves the fields as it says: the command byte first and echoed where asked, then
  field by field the big-endian bytes of a sent one, a received one stored, a status compared before it is
  stored, an echo compared with what was sent, a vector extended by as many integers as its size field says,
  and at the first mismatch the error with nothing sent or received after it.\<close>

theorem generated_code_follows_attributes:
  assumes "fifo_port ops inbox outbox" and "da_legacy args fs = Inr ks"
    and "dialogue args fs (inbox (rn_port s)) (rn_self s) = Some (r, out, rest, self')"
  shows "\<exists>s'. exec_tokens ops ks s = (r, s') \<and> rn_self s' = self' \<and> inbox (rn_port s') = rest \<and>
    outbox (rn_port s') = outbox (rn_port s) @ out"
proof -
  define q where "q = \<lparr>rn_self = rn_self s, rn_command = rn_command s, rn_tmp = rn_tmp s,
    rn_port = \<lparr>q_in = inbox (rn_port s), q_out = outbox (rn_port s)\<rparr>\<rparr>"
  have "mirrors inbox outbox s q" by (simp add: mirrors_def q_def)
  moreover have "runs_as ks q (r, out, rest, self')"
    using assms(3) by (intro command_runs_as [OF assms(2)]) (simp add: q_def)
  then obtain q' where q': "exec_tokens script_ops ks q = (r, q')" "rn_self q' = self'" "q_in (rn_port q') = rest"
    "q_out (rn_port q') = outbox (rn_port s) @ out"
    by (auto simp: runs_as_def q_def)
  moreover have "r \<noteq> Inl CmdIo" using dialogue_result [OF assms(3)] .
  ultimately show ?thesis
    using fifo_port.exec_tokens_mirrors [OF assms(1)] by (fastforce simp: mirrors_def)
qed

text \<open>A vendor-style command with every kind of field: an echoed address, a sized vector, a constant
  and a status that is wrong.\<close>

definition sample_fields :: "field list" where
  "sample_fields =
     [\<lparr>fd_ident = ''addr'', fd_enum_ty = Echo, fd_ty = Path ''u16''\<rparr>,
      \<lparr>fd_ident = ''buf'', fd_enum_ty = Rx (RxSize ''addr'') True, fd_ty = VecOf ''u16''\<rparr>,
      \<lparr>fd_ident = ''mode'', fd_enum_ty = Tx (TxAlways 0x52), fd_ty = Path ''u8''\<rparr>,
      \<lparr>fd_ident = ''status'', fd_enum_ty = Rx (RxStatus 0) False, fd_ty = Path ''u16''\<rparr>,
      \<lparr>fd_ident = ''late'', fd_enum_ty = Rx RxNone False, fd_ty = Path ''u32''\<rparr>]"

lemma generated_code_follows_attributes_witness:
  "\<exists>ks s'. da_legacy (Command 0xd0 True) sample_fields = Inr ks \<and>
     exec_tokens script_ops ks \<lparr>rn_self = (\<lambda>_. VInts [])(''addr'' := VInt 2), rn_command = 0, rn_tmp = VInt 0,
       rn_port = \<lparr>q_in = [0xd0, 0, 2, 1, 2, 3, 4, 0x1d, 0x0d, 9], q_out = []\<rparr>\<rparr> = (Inl (InvalidStatus 0 0x1d0d), s') \<and>
     rn_self s' ''buf'' = VInts [0x102, 0x304] \<and> q_in (rn_port s') = [9] \<and> q_out (rn_port s') = [0xd0, 0, 2, 0x52]"
proof -
  let ?self = "(\<lambda>_. VInts [])(''addr'' := VInt 2)"
  let ?s = "\<lparr>rn_self = ?self, rn_command = 0, rn_tmp = VInt 0,
       rn_port = \<lparr>q_in = [0xd0, 0, 2, 1, 2, 3, 4, 0x1d, 0x0d, 9], q_out = []\<rparr>\<rparr>"
  obtain ks where ks: "da_legacy (Command 0xd0 True) sample_fields = Inr ks"
    by (simp add: sample_fields_def codegen)
  have "dialogue (Command 0xd0 True) sample_fields (q_in (rn_port ?s)) (rn_self ?s) =
    Some (Inl (InvalidStatus 0 0x1d0d), [0xd0, 0, 2, 0x52], [9],
      ?self(''buf'' := VInts [0x102, 0x304], ''mode'' := VInt 0x52))"
    by (simp add: sample_fields_def dialogue_def field_dialogue_def width_def receive_def receive_all_def number_def
        on_wire_def big_endian_def extended_def vec_inner_def upt_rec)
  from generated_code_follows_attributes [OF script.fifo_port_axioms ks this] obtain s' where
    s': "exec_tokens script_ops ks ?s = (Inl (InvalidStatus 0 0x1d0d), s')"
    "rn_self s' = ?self(''buf'' := VInts [0x102, 0x304], ''mode'' := VInt 0x52)"
    "q_in (rn_port s') = [9]" "q_out (rn_port s') = q_out (rn_port ?s) @ [0xd0, 0, 2, 0x52]" by blast
  from s'(2) have "rn_self s' ''buf'' = VInts [0x102, 0x304]" by simp
  with ks s'(1,3,4) show ?thesis by (intro exI conjI) simp_all
qed

end
