(* ===== verification/Spec2Isabelle.thy ===== *)
theory Spec2Isabelle
  imports LkMode BromMode HandlerConsole Repl Cli Thunk Dialogue
begin

text \<open>
  da-boot starts binaries on MediaTek chips without flashing them. A host program
  (\<open>crates/da-boot\<close>) talks to the boot ROM or to the preloader of a device over a serial port, sends
  a payload with their download commands, and from then on drives the payload (\<open>payloads/rpc\<close>)
  with requests of its own: write memory, reserve ranges, install a hook, jump. This development
  models both sides and the parts they share, and proves what each part does and what a session
  of the two together does.

  \<^bold>\<open>Parts, theories and sources.\<close>

  \<^item> \<open>Prelude\<close>: machine words, the checked and saturating operations of the Rust standard library,
    rounding, the collection \<open>word_nat\<close>. \<open>Memory\<close>: the byte memory of the device and its
    little-endian views (\<open>interceptor/src/reader.rs\<close>, \<open>writer.rs\<close>), with the interface \<open>byte_memory\<close>.
  \<^item> \<open>Reservation\<close> and \<open>Params\<close>: the parameter block of the payload (\<open>da-params/src/lib.rs\<close>), a record with
    twelve blacklist slots, \<open>blacklist_dl\<close>, \<open>blacklist_reloc\<close>, \<open>find_unused_range\<close>. The interface
    \<open>range_reservation\<close> says what search and reservation promise; the parameter block provides it.
  \<^item> \<open>Allocation\<close> and \<open>Bump\<close>: the bump allocator (\<open>bump/src/lib.rs\<close>) under the interface \<open>global_alloc\<close>.
  \<^item> \<open>Shared\<close>: cache flushes as a trace of operations, and the pattern search (\<open>shared/src/lib.rs\<close>).
  \<^item> \<open>Thumb2\<close>, \<open>Interceptor\<close> and \<open>Thunk\<close>: the instruction reader and writer, hooking with relocated
    trampolines, the modules of \<open>hook!\<close> and \<open>hook_with_context!\<close> (\<open>interceptor/src\<close>).
  \<^item> \<open>Wire\<close> and \<open>Display\<close>: messages, framing, texts (\<open>da-protocol/src/lib.rs\<close>); the interface \<open>fifo_port\<close> is
    what the protocol needs of a transport, and the USB functions of the payload provide it.
  \<^item> \<open>Device\<close>: the request handler (\<open>rpc/src/usb.rs\<close>), one definition per request, \<open>handler_step\<close> for a turn
    of its endless loop, and the reachable states \<open>served\<close>.
  \<^item> \<open>Setup\<close>: the start of the payload (\<open>rpc/src/setup.rs\<close>, \<open>pl.rs\<close>, \<open>brom.rs\<close>). \<open>Hooks\<close>: the replaced partition
    read (\<open>rpc/src/hooks.rs\<close>). \<open>Uart\<close>: its console (\<open>rpc/src/uart.rs\<close>), and \<open>Console\<close>: the start again with all it
    prints, from the registers of the assembly entry to both mains, with the handler of panics.
    \<open>HandlerConsole\<close>: the request handler and the hook with what they print.
  \<^item> \<open>HostExt\<close>: upload and download in chunks (\<open>boot/rpc/ext.rs\<close>) and the link of host and device.
  \<^item> \<open>LkArg\<close>: the boot argument of LK as bytes (\<open>boot/lk_arg.rs\<close>).
  \<^item> \<open>Macros\<close> and \<open>Commands\<close>: the derive macro of the download commands as a generator of tokens with an
    execution of them (\<open>da-boot-macros/src\<close>), and the commands (\<open>commands/\<close>). \<open>Dialogue\<close>: the meaning of
    the attributes as a conversation over bytes, which that code is shown to have.
  \<^item> \<open>Session\<close>, \<open>Inject\<close> and \<open>Boot\<close>: the boot session, the runs from boot ROM and preloader, the injection of
    parameters (\<open>boot/rpc/selector.rs\<close>, \<open>boot/bootrom.rs\<close>, \<open>boot/preloader.rs\<close>, \<open>main.rs\<close>).
  \<^item> \<open>BromMode\<close> and \<open>LkMode\<close>: whole modes, host and started device together: how many images the boot ROM mode
    holds, what is left for the preloader behind it, and the LK mode from the first reservation to LK's reads of the boot partition.
  \<^item> \<open>Patcher\<close>: extraction of addresses (\<open>da-patcher/src\<close>, \<open>da-cli-ext\<close>). \<open>Cli\<close>: file arguments and the checks
    of the command line (\<open>file_ext.rs\<close>, \<open>main.rs\<close>). \<open>Repl\<close>: the interactive mode (\<open>repl.rs\<close>).

  \<^bold>\<open>How code becomes definitions.\<close> A structure is a record, an enumeration a datatype, a 32-bit integer a
  \<open>32 word\<close>. Both sides are built in release mode (the README runs the host so, the payload is always
  built so): \<open>+\<close> wraps around. State is passed explicitly; a \<open>Result\<close> is a sum, \<open>Option\<close> an option; a panic is
  an error value (\<open>Panic\<close>, \<open>CmdPanic\<close>, \<open>ErrPanic\<close>, \<open>CliPanic\<close>, \<open>PatcherPanic\<close>). A static of the payload is a field
  of the state of the device, a \<open>Range\<close> the pair of its bounds.

  \<^bold>\<open>Loops.\<close> Structural loops are \<open>fun\<close>; the range search, the relocation and the word splitting are
  \<open>function\<close> with a measure. Loops whose end depends on the outside or on wrap-around (cache flush, pattern
  search, relocation table, handshake, console) are \<open>partial_function (option)\<close>, where \<open>None\<close> is a loop that
  does not end; that they return is proved where it holds. The endless loop of the device is a step;
  \<open>handler_turns n\<close> takes \<open>n\<close> of them. The listings of ports the host polls are a list; a host that waits for a port beyond it is \<open>None\<close> too.

  \<^bold>\<open>Parameters and hypotheses.\<close> Code that is not in the repository is an argument: the serializer
  (\<open>codec_ok\<close>: what it encodes it decodes, with other bytes behind it), the transports (\<open>fifo_port\<close>,
  \<open>serial_port\<close>: bytes arrive in order), native functions of the device (\<open>calls_keep_port\<close>, \<open>calls_keep_statics\<close>:
  they leave the transport and the statics of the payload alone), the substring search (\<open>find_ok\<close>), chip data, the
  binary analyzer, the image parser, \<open>mkbootimg\<close>, the file system, the option parser. Every theorem with a
  hypothesis has a witness that applies it to concrete values.

  \<^bold>\<open>What is shown.\<close>

  \<^item> End to end: an accepted command line in preloader mode leaves every file in the memory of the device and the
    device in its jump; with LK the boot argument, LK and all files are intact when the device leaves for LK, and
    the argument touches neither LK's data area nor the payload, and once LK runs, its reads of the boot partition
    yield the image the host sent (below, over \<open>Boot\<close> and \<open>LkMode\<close>); a boot ROM session holds four images and
    refuses a fifth, and so does a preloader session that began in the boot ROM (\<open>BromMode\<close>); upload and download over the link are writing and reading of the device's memory (\<open>HostExt\<close>).
  \<^item> Ranges: whatever the search returns is unused, it finds the first fit, and successive claims of the
    payload are disjoint (\<open>Params\<close>, \<open>Setup\<close>, \<open>Bump\<close>).
  \<^item> The device answers every well-formed request with exactly its data and one response, and its
    statics only ever hold valid pointers (\<open>Device\<close>); frames arrive in order (\<open>Wire\<close>).
  \<^item> Hooking: relocated code and jumps land where they should, emitted moves load their literals, the pool
    is a queue of trampolines for every function, the thunk passes the registers (\<open>Interceptor\<close>, \<open>Thumb2\<close>, \<open>Thunk\<close>, \<open>Hooks\<close>).
  \<^item> The start of the payload moves it at most once and applies every relocation (\<open>Setup\<close>); injected parameters are
    those it reads (\<open>Inject\<close>); what it and the handler print reports what they did and changes nothing else, and a
    transmitter that is never ready stops both before they do anything (\<open>Console\<close>, \<open>HandlerConsole\<close>).
  \<^item> The code the derive macro emits has the conversation its attributes describe (\<open>Dialogue\<close>), and commands, layouts,
    texts and arguments behave as written on every branch (\<open>Commands\<close>, \<open>LkArg\<close>, \<open>Display\<close>, \<open>Cli\<close>, \<open>Repl\<close>, \<open>Uart\<close>).
  \<^item> Where the code does something else than it says, a theorem states what it does: ranges at the
    top of memory, unflushed tails, the bytes \<open>revert\<close> copies, oversized frames, unchecked writes and
    refusals, distances and statuses cut short, the boot ROM mode.

  \<^bold>\<open>Not modelled.\<close> The assembly entry of the payload beyond the registers it leaves, and the execution of machine
  code outside the thunk; the vectors of the interceptor's pool are lists, their storage is not taken from the
  payload's heap; timing and sleeps; console output of the host
  other than that of the \<open>REPL\<close> and of the patcher; the texts of error types; \<open>patch_enum.rs\<close>, which no crate compiles. A flush of the cache has no effect on the byte memory.
\<close>

section \<open>From the command line to the device\<close>

text \<open>C3: The whole way in preloader mode without LK. If the command line is accepted, the session over an
  idle link with a free slot for every file succeeds, the device has left through the preloader for the
  jump address of the command line, and every file named on it, found on disk, is in the memory
  of the device at the address given with it, as long as the files fit and do not overlap.\<close>

theorem command_line_reaches_memory:
  assumes "prepare fl c = Inr (st, an)" and "cl_mode c = BootPreloader" and "cl_lk c = None"
    and "idle e p" and "calls_keep_port e" and "ev_pl e" and "bldr_jump \<noteq> 0"
    and "length (cl_input c) \<le> free_slots (dv_params (pr_io p))"
    and "files_apart (st_upload st)" and "\<forall>f \<in> set (st_upload st). file_fits f"
    and "\<And>addr d. ev_call e (bldr_jump OR 1) [addr, 0, 0] d = None"
  shows "\<exists>jump p'. cl_jump_address c = Some jump \<and>
    rpc_session ot (linked_ops e) (ev_codecs e) repl st bldr_jump p = (Inr (), p') \<and>
    handler_step e (pr_io p') = Left \<and>
    q_in (dv_queues (pr_io p')) = mframe (ev_codecs e) (MJump jump (Some 0) (Some 0)) \<and>
    (\<forall>(path, addr) \<in> set (cl_input c). \<exists>bs. fl_read fl path = Some bs \<and>
      load_bytes (dv_mem (pr_io p')) addr (length bs) = bs)"
proof -
  from assms(1) obtain pl_analyzer lk params and zimage :: "u8 list option" where
    lk: "load_lk fl c pl_analyzer params_default = Inr (lk, params)"
    and input: "read_inputs fl (cl_input c) = Inr (st_upload st)"
    and valid: "validate fl c (lk \<noteq> None) (zimage \<noteq> None) (st_upload st \<noteq> []) = Inr ()"
    and st: "st_mode st = cl_mode c" "st_lk st = map_option fst lk"
      "st_jump_addr st = unwrap_or_default (cl_jump_address c)"
    by (rule prepare_cases) blast
  have none: "lk = None" using lk assms(3) by (simp add: load_lk_def)
  from validate_ok(2) [OF valid assms(2)] none obtain jump where
    jump: "cl_jump_address c = Some jump" "st_jump_addr st = jump" by (auto simp: st unwrap_or_default_def)
  note files = read_inputs_Inr [OF input]
  have "length (st_upload st) \<le> free_slots (dv_params (pr_io p))"
    using assms(8) list_all2_lengthD [OF files] by simp
  note session = preloader_session_boots_images [OF assms(4-7) _ _ this, of ot repl]
  have mode: "st_mode st = BootPreloader" "st_lk st = None" using assms(2) none by (simp_all add: st)
  from session [OF mode assms(11)] obtain p' where
    p': "rpc_session ot (linked_ops e) (ev_codecs e) repl st bldr_jump p = (Inr (), p')" "handler_step e (pr_io p') = Left"
      "q_in (dv_queues (pr_io p')) = mframe (ev_codecs e) (MJump (st_jump_addr st) (Some 0) (Some 0))"
    and stored: "files_apart (st_upload st) \<longrightarrow> (\<forall>f \<in> set (st_upload st). file_fits f) \<longrightarrow>
      (\<forall>f \<in> set (st_upload st). load_bytes (dv_mem (pr_io p')) (fst f) (length (snd f)) = snd f)"
    by (elim exE conjE) blast
  have "\<exists>bs. fl_read fl path = Some bs \<and> load_bytes (dv_mem (pr_io p')) addr (length bs) = bs"
    if "(path, addr) \<in> set (cl_input c)" for path addr
  proof -
    from that obtain i where i: "i < length (cl_input c)" "cl_input c ! i = (path, addr)" by (auto simp: in_set_conv_nth)
    with list_all2_nthD [OF files i(1)] have f: "fst (st_upload st ! i) = addr" "fl_read fl path = Some (snd (st_upload st ! i))"
      by simp_all
    have "st_upload st ! i \<in> set (st_upload st)" using i(1) list_all2_lengthD [OF files] by simp
    with stored assms(9,10) f show ?thesis by blast
  qed
  with jump p' show ?thesis by auto
qed

lemma command_line_reaches_memory_witness:
  "\<exists>st an p'. prepare sample_tools (sample_cli\<lparr>cl_mode := BootPreloader, cl_input := [(''u-boot'', 0x80200000)]\<rparr>) = Inr (st, an) \<and>
     rpc_session sample_outside (linked_ops (sample_env True)) sample_codecs (Pair (Inr ())) st 0x202000 sample_host = (Inr (), p') \<and>
     load_bytes (dv_mem (pr_io p')) 0x80200000 2 = [1, 2]"
proof -
  let ?c = "sample_cli\<lparr>cl_mode := BootPreloader, cl_input := [(''u-boot'', 0x80200000)]\<rparr>"
  obtain st an where prepared: "prepare sample_tools ?c = Inr (st, an)" and up: "st_upload st = [(0x80200000, [1, 2])]"
    by (simp add: prepare_sample)
  have env: "ev_codecs (sample_env True) = sample_codecs" "ev_pl (sample_env True)" "ev_call (sample_env True) a as d = None" for a as d
    by (simp_all add: sample_env_def)
  have c: "cl_mode ?c = BootPreloader" "cl_lk ?c = None" "cl_input ?c = [(''u-boot'', 0x80200000)]"
    by (simp_all add: sample_cli_def)
  have slots: "length (cl_input ?c) \<le> free_slots (dv_params (pr_io sample_host))" by (simp add: c sample_slots)
  have files: "files_apart (st_upload st)" "\<forall>f \<in> set (st_upload st). file_fits f" by (simp_all add: up file_fits_def)
  have nz: "(0x202000 :: u32) \<noteq> 0" by simp
  from command_line_reaches_memory [OF prepared c(1,2) sample_host_idle sample_env_ok(2) env(2) nz slots files env(3),
      of sample_outside "Pair (Inr ())"]
  obtain p' bs where "rpc_session sample_outside (linked_ops (sample_env True)) sample_codecs (Pair (Inr ())) st 0x202000 sample_host = (Inr (), p')"
    "fl_read sample_tools ''u-boot'' = Some bs" "load_bytes (dv_mem (pr_io p')) 0x80200000 (length bs) = bs"
    by (auto simp: c(3) env(1))
  moreover from this(2) have "bs = [1, 2]" by (simp add: sample_tools_def Let_def)
  ultimately show ?thesis using prepared by (auto simp flip: numeral_2_eq_2)
qed

text \<open>C2: The whole way in preloader mode with LK. The host accepts the command line, the payload starts with
  the parameters the host made for it and reaches its handler, and the two run the session over an idle link.
  With up to six files it can fail only because no range is left for the boot argument. Otherwise
  the device has left through the preloader for LK, called with address and size of the argument;
  the argument, LK and every file are in memory intact, and the argument lies neither in the
  half megabyte behind LK that the command line reserved nor in the payload's own image.\<close>

theorem lk_survives_to_its_start:
  assumes "prepare fl c = Inr (st, an)" and "cl_mode c = BootPreloader" and "st_lk st = Some lk"
    and "pp_blacklist params = pp_blacklist (st_params st)" and "mr_end (pp_memory params) \<noteq> 0xFFFFFFFF"
    and "app img params base m = Some (RunMain sp q m1)" and "main_pl n port q m1 = Some d"
    and "idle e p" and "dv_params (pr_io p) = dv_params d" and "calls_keep_port e" and "ev_pl e" and "bldr_jump \<noteq> 0"
    and "get_for_soc soc (st_lk_mode st) (st_dram_size_per_rank st) (st_dram_ranks st) = Some arg"
    and "length (cl_input c) \<le> 6" and "files_apart (st_upload st @ [lk])" and "\<forall>f \<in> set (st_upload st @ [lk]). file_fits f"
    and "\<And>d addr sz. ev_call e (bldr_jump OR 1) [fst lk, addr, sz] d = None"
  shows "\<exists>r p'. rpc_session ot (linked_ops e) (ev_codecs e) repl (st\<lparr>st_soc := soc, st_params := params\<rparr>) bldr_jump p = (r, p') \<and>
    (r = Inl (ErrFreeRange (word_of_nat (length (as_bytes arg)))) \<or>
     (\<exists>start. r = Inr () \<and> handler_step e (pr_io p') = Left \<and>
       q_in (dv_queues (pr_io p')) =
         mframe (ev_codecs e) (MJump (fst lk) (Some start) (Some (word_of_nat (length (as_bytes arg))))) \<and>
       load_bytes (dv_mem (pr_io p')) start (length (as_bytes arg)) = as_bytes arg \<and>
       (\<forall>f \<in> set (st_upload st @ [lk]). load_bytes (dv_mem (pr_io p')) (fst f) (length (snd f)) = snd f) \<and>
       (\<forall>r \<in> {(fst lk + word_of_nat (length (snd lk)), fst lk + word_of_nat (length (snd lk)) + 512 * 1024),
               (base, base + (image_end img - image_start img))}.
         bytes_of (start, start + word_of_nat (length (as_bytes arg))) \<inter> bytes_of r = {})))"
proof -
  let ?st = "st\<lparr>st_soc := soc, st_params := params\<rparr>"
  from assms(1) obtain pl_analyzer loaded ps where
    loaded: "load_lk fl c pl_analyzer params_default = Inr (loaded, ps)"
    and input: "read_inputs fl (cl_input c) = Inr (st_upload st)"
    and st: "st_mode st = cl_mode c" "st_lk st = map_option fst loaded" "st_params st = ps"
    by (rule prepare_cases) blast
  from st(2) assms(3) obtain a where lk: "loaded = Some (lk, a)" by (cases loaded) auto
  let ?bss = "fst lk + word_of_nat (length (snd lk)) :: u32"
  have bss: "(?bss, ?bss + 512 * 1024) \<in> reserved params"
    using load_lk_Inr [OF loaded] assms(4) by (simp add: lk st(3) reserved_def Let_def)
  have "free_slots params = 11"
    using load_lk_slots loaded assms(4) by (simp add: lk st(3) free_slots_def)
  with started_params [OF assms(6,7)] bss have device: "free_slots (dv_params (pr_io p)) = 8"
    "(?bss, ?bss + 512 * 1024) \<in> reserved (dv_params (pr_io p))"
    "(base, base + (image_end img - image_start img)) \<in> reserved (dv_params (pr_io p))"
    "mr_end (pp_memory (dv_params (pr_io p))) \<noteq> 0xFFFFFFFF" unfolding assms(9) using assms(5) by auto
  have slots: "length (st_upload ?st) + 2 \<le> free_slots (dv_params (pr_io p))"
    using assms(14) list_all2_lengthD [OF read_inputs_Inr [OF input]] device(1) by simp
  have sess: "st_mode ?st = BootPreloader" "st_lk ?st = Some lk" "st_upload ?st = st_upload st"
    "get_for_soc (st_soc ?st) (st_lk_mode ?st) (st_dram_size_per_rank ?st) (st_dram_ranks ?st) = Some arg"
    using assms(2,3,13) by (simp_all add: st(1))
  from lk_session_keeps_images [OF assms(8,10,11,12) sess(1,2,4) slots device(4) assms(15,16) [folded sess(3)] assms(17), of ot repl]
    device(2,3)
  show ?thesis unfolding sess(3) by blast
qed

text \<open>LK on disk, half a gigabyte of memory, and the payload started at its bottom.\<close>

lemma started_idle:
  assumes "main_pl 24 \<lparr>q_in = [], q_out = []\<rparr> q m1 = Some d"
  shows "idle (sample_env True) (protocol_new 24 d)"
  by (rule fresh_device_idle) (use assms in \<open>auto simp: main_pl_def Let_def split: option.splits sum.splits\<close>)

lemma lk_survives_to_its_start_witness:
  "\<exists>st an params d r p'. prepare sample_tools
       (sample_cli\<lparr>cl_mode := BootPreloader, cl_lk := Some ''lk.img'', cl_jump_address := None\<rparr>) = Inr (st, an) \<and>
     pp_blacklist params = pp_blacklist (st_params st) \<and>
     rpc_session sample_outside (linked_ops (sample_env True)) sample_codecs (Pair (Inr ()))
       (st\<lparr>st_soc := MT6572, st_params := params\<rparr>) 0x202000 (protocol_new 24 d) = (r, p') \<and>
     (r = Inr () \<longrightarrow> load_bytes (dv_mem (pr_io p')) 0x81E00000 4 = [5, 6, 7, 8])"
proof -
  let ?c = "sample_cli\<lparr>cl_mode := BootPreloader, cl_lk := Some ''lk.img'', cl_jump_address := None\<rparr>"
  let ?lk = "(0x81E00000, [5, 6, 7, 8]) :: upload_file"
  obtain st an where prepared: "prepare sample_tools ?c = Inr (st, an)" and lk: "st_lk st = Some ?lk" and up: "st_upload st = []"
    and mode: "st_lk_mode st = Normal"
    and bl: "pp_blacklist (st_params st) = (replicate 12 blacklist_range_default)
        [0 := \<lparr>bl_range = memory_range_new 0x81E00004 0x81E80004, bl_mode = ForbiddenReloc\<rparr>]"
    by (simp add: prepare_sample memory_range_new_def)
  define params where "params = params_default\<lparr>pp_memory := memory_range_new 0x80000000 0xA0000000, pp_blacklist := pp_blacklist (st_params st)\<rparr>"
  have blacklist: "pp_blacklist params = pp_blacklist (st_params st)" and mem: "mr_end (pp_memory params) \<noteq> 0xFFFFFFFF"
    by (simp_all add: params_def memory_range_new_def)
  have f: "fix_loop b a a m = Some m" for a b m by (subst fix_loop.simps) simp
  obtain sp q m1 d where started: "app (sample_image 0) params 0x80000000 (\<lambda>_. 0) = Some (RunMain sp q m1)"
    and main: "main_pl 24 \<lparr>q_in = [], q_out = []\<rparr> q m1 = Some d"
    by (simp add: setup_eval f params_def bl params_eval claim_def)
  have c: "cl_mode ?c = BootPreloader" "length (cl_input ?c) \<le> 6" by (simp_all add: sample_cli_def)
  have files: "files_apart (st_upload st @ [?lk])" "\<forall>f \<in> set (st_upload st @ [?lk]). file_fits f"
    by (simp_all add: up file_fits_def)
  have same: "dv_params (pr_io (protocol_new 24 d)) = dv_params d" by (simp add: protocol_new_def)
  have arg: "get_for_soc MT6572 (st_lk_mode st) (st_dram_size_per_rank st) (st_dram_ranks st) =
      Some (Arg6572 (lk6572 Normal (st_dram_size_per_rank st) (st_dram_ranks st)))"
    by (simp add: get_for_soc_def mode)
  have env: "ev_codecs (sample_env True) = sample_codecs" "ev_pl (sample_env True)" "ev_call (sample_env True) a as d = None" for a as d
    by (simp_all add: sample_env_def)
  have nz: "(0x202000 :: u32) \<noteq> 0" by simp
  from lk_survives_to_its_start [OF prepared c(1) lk blacklist mem started main started_idle [OF main] same sample_env_ok(2) env(2) nz
      arg c(2) files env(3), of sample_outside "Pair (Inr ())"]
  obtain r p' where "rpc_session sample_outside (linked_ops (sample_env True)) sample_codecs (Pair (Inr ()))
       (st\<lparr>st_soc := MT6572, st_params := params\<rparr>) 0x202000 (protocol_new 24 d) = (r, p')"
    "r = Inr () \<longrightarrow> load_bytes (dv_mem (pr_io p')) 0x81E00000 (Suc (Suc (Suc (Suc 0)))) = [5, 6, 7, 8]"
    unfolding env(1) up by auto
  moreover have "Suc (Suc (Suc (Suc 0))) = 4" by simp
  ultimately show ?thesis using prepared blacklist by metis
qed

text \<open>C1: The whole way in LK mode. The host accepts the command line, the payload starts with the parameters
  made for it, and the two run the session over an idle link. With up to five uploads it can fail only
  because the device has no range left. Otherwise the device has left through the preloader for LK; the boot
  argument, every upload and the boot image are in memory intact, LK is intact but for the ten bytes
  patched at its partition read, the patch jumps to the hook, and while LK runs, as long as the image is still in
  memory, every read within a page of the start of the boot partition yields the bytes of the
  image: of the one \<open>mkbootimg\<close> made from kernel and ramdisk, or else of the first upload.\<close>

theorem lk_boots_sent_image:
  assumes "prepare fl c = Inr (st, an)" and "cl_mode c = BootLK" and "st_lk st = Some lk"
    and "ot_analysis ot = an" and "an_generic_read an = Some g" and "get_partition_ptr an soc = Inr gp"
    and "boot_content ot st = Some bimg" and "length bimg < 2 ^ 32"
    and "pp_blacklist params = pp_blacklist (st_params st)"
    and "mr_end (pp_memory params) \<noteq> 0xFFFFFFFF" and "mr_start (pp_memory params) \<noteq> 0"
    and "app img params base m = Some (RunMain sp q m1)" and "main_pl n port q m1 = Some d"
    and "idle e p" and "same_but_port d (pr_io p)" and "calls_keep_port e" and "ev_pl e" and "bldr_jump \<noteq> 0"
    and "get_for_soc soc (st_lk_mode st) (st_dram_size_per_rank st) (st_dram_ranks st) = Some arg"
    and "length (cl_input c) \<le> 5" and "\<forall>f \<in> set (st_upload st). fst f \<noteq> 0"
    and "files_apart (st_upload st @ [lk])" and "\<forall>f \<in> set (st_upload st @ [lk]). file_fits f"
    and "alloc (is_heap (dv_icept d)) \<lparr>ly_size = 64, ly_align = 4\<rparr> = (code, h)"
    and "\<forall>f \<in> set (st_upload st @ [lk]). apart (fst f) (length (snd f)) code 64"
    and "window_apart (unmask_thumb2 (g OR 1)) code" and "unat (fst lk) \<le> unat (unmask_thumb2 (g OR 1))"
    and "unat (unmask_thumb2 (g OR 1)) + 10 \<le> unat (fst lk) + length (snd lk)"
    and "\<And>d addr sz. ev_call e (bldr_jump OR 1) [fst lk, addr, sz] d = None"
  shows "\<exists>r p'. rpc_session ot (linked_ops e) (ev_codecs e) repl (st\<lparr>st_soc := soc, st_params := params\<rparr>) bldr_jump p = (r, p') \<and>
    ((\<exists>k. r = Inl (ErrFreeRange k)) \<or>
     (\<exists>start a. r = Inr () \<and> handler_step e (pr_io p') = Left \<and>
       q_in (dv_queues (pr_io p')) =
         mframe (ev_codecs e) (MJump (fst lk) (Some start) (Some (word_of_nat (length (as_bytes arg))))) \<and>
       (\<forall>f \<in> set (st_upload st @ [(start, as_bytes arg), (a, bimg)]).
         load_bytes (dv_mem (pr_io p')) (fst f) (length (snd f)) = snd f) \<and>
       lk_hooked e g lk (pr_io p') \<and>
       (\<forall>get_partition s dev src dst sz i. let entry = boot_entry get_partition (gp OR 1) in
         fst entry \<noteq> 0 \<and> src - boot_address (is_mem s) entry = word_of_nat i \<and> i \<le> 0x1000 \<and> i + unat sz \<le> length bimg \<and>
         load_bytes (is_mem s) a (length bimg) = bimg \<longrightarrow>
         (\<exists>m'. mt_part_generic_read get_partition (dv_lk (pr_io p')) (dv_addr (pr_io p'), s) dev src dst sz = Served sz m' \<and>
           load_bytes m' dst (unat sz) = take (unat sz) (drop i bimg)))))"
proof -
  let ?st = "st\<lparr>st_soc := soc, st_params := params\<rparr>"
  from assms(1) obtain pl_analyzer loaded ps where
    loaded: "load_lk fl c pl_analyzer params_default = Inr (loaded, ps)"
    and input: "read_inputs fl (cl_input c) = Inr (st_upload st)"
    and st: "st_mode st = cl_mode c" "st_lk st = map_option fst loaded" "st_params st = ps"
    by (rule prepare_cases) blast
  from st(2) assms(3) obtain a where "loaded = Some (lk, a)" by (cases loaded) auto
  then have "free_slots params = 11" using load_lk_slots loaded assms(9) by (simp add: st(3) free_slots_def)
  with started_params [OF assms(12,13)] same_but_port_simps [OF assms(15)] assms(10,11)
  have device: "free_slots (dv_params (pr_io p)) = 8" "mr_end (pp_memory (dv_params (pr_io p))) \<noteq> 0xFFFFFFFF"
    "mr_start (pp_memory (dv_params (pr_io p))) \<noteq> 0" "dv_icept (pr_io p) = dv_icept d" "dv_params (pr_io p) = dv_params d"
    by auto
  from started_heap [OF assms(12,13,10,11,24)] obtain hi where
    heap: "bump_inv hi (is_heap (dv_icept (pr_io p)))" "protected (dv_params (pr_io p)) code 64"
    unfolding device(4,5) by blast
  have slots: "length (st_upload ?st) + 3 \<le> free_slots (dv_params (pr_io p))"
    using assms(20) list_all2_lengthD [OF read_inputs_Inr [OF input]] device(1) by simp
  have sess: "st_mode ?st = BootLK" "st_lk ?st = Some lk" "boot_content ot ?st = Some bimg" "st_upload ?st = st_upload st"
    "get_for_soc (st_soc ?st) (st_lk_mode ?st) (st_dram_size_per_rank ?st) (st_dram_ranks ?st) = Some arg"
    "an_generic_read (ot_analysis ot) = Some g" "get_partition_ptr (ot_analysis ot) (st_soc ?st) = Inr gp"
    using assms(2-7,19) by (simp_all add: st(1) boot_content_def split: option.splits list.splits)
  note boots = lk_mode_boots [OF assms(14,16-18) sess(1-3) assms(8) sess(5-7) slots device(2,3) assms(22,23,21) [folded sess(4)]
      heap(1) assms(24) [folded device(4)] assms(26,29) heap(2) assms(25) [folded sess(4)] assms(27,28), of repl, unfolded sess(4)]
  then show ?thesis
  proof (elim exE conjE disjE)
    fix r p' start a
    assume s: "rpc_session ot (linked_ops e) (ev_codecs e) repl ?st bldr_jump p = (r, p')" "r = Inr ()"
      "handler_step e (pr_io p') = Left" "q_in (dv_queues (pr_io p')) =
        mframe (ev_codecs e) (MJump (fst lk) (Some start) (Some (word_of_nat (length (as_bytes arg)))))"
      "\<forall>f \<in> set (st_upload st @ [(start, as_bytes arg), (a, bimg)]). load_bytes (dv_mem (pr_io p')) (fst f) (length (snd f)) = snd f"
      "lk_hooked e g lk (pr_io p')" and l: "dv_lk (pr_io p') = Some (lk_params_new (g OR 1) (gp OR 1) a)"
    have "\<forall>get_partition s dev src dst sz i. let entry = boot_entry get_partition (gp OR 1) in
         fst entry \<noteq> 0 \<and> src - boot_address (is_mem s) entry = word_of_nat i \<and> i \<le> 0x1000 \<and> i + unat sz \<le> length bimg \<and>
         load_bytes (is_mem s) a (length bimg) = bimg \<longrightarrow>
         (\<exists>m'. mt_part_generic_read get_partition (dv_lk (pr_io p')) (dv_addr (pr_io p'), s) dev src dst sz = Served sz m' \<and>
           load_bytes m' dst (unat sz) = take (unat sz) (drop i bimg))"
      unfolding l Let_def by (intro allI impI read_served) (simp_all add: lk_params_new_def odd_or_1)
    with s show ?thesis by blast
  qed blast
qed

text \<open>An LK of sixteen bytes whose first ten are its partition read, and one upload for it to boot.\<close>

definition sample_lk_tools :: file_tools where
  "sample_lk_tools =
     (let block = \<lparr>bk_code = [\<lparr>cd_va = 0, cd_opcode = Str, cd_operand0 = Reg 1, cd_operand1 = RegDerefPreindexOffset 2 0x10\<rparr>],
                   bk_fn_calls = [],
                   bk_data_refs = [(\<lparr>cd_va = 0, cd_opcode = Ldr, cd_operand0 = Reg 3, cd_operand1 = OtherOperand\<rparr>, 0x2000100)],
                   bk_try_get_imm = (\<lambda>_ r. Some (if r = 3 then 0x81E00000 else 0x81E00001))\<rparr>
      in sample_tools\<lparr>fl_read := (\<lambda>path. if path = ''lk.img'' then Some (replicate 16 0) else Some [1, 2]),
          fl_analyze := (\<lambda>_ _. Some \<lparr>az_fn_by_str = (\<lambda>_. Some \<lparr>fn_start_va = 0x81E00008, fn_blocks = [block]\<rparr>),
            az_blocks_by_str = (\<lambda>_. []), az_read_u32 = (\<lambda>_. None), az_read_cstr = (\<lambda>_. Some ''lk'')\<rparr>)\<rparr>)"

definition sample_lk_cli :: cli where
  "sample_lk_cli = sample_cli\<lparr>cl_lk := Some ''lk.img'', cl_input := [(''boot.img'', 0x80200000)], cl_jump_address := None,
     cl_dram_size_per_rank := Some 0x20000000, cl_dram_ranks := Some 1, cl_mode := BootLK\<rparr>"

lemma sample_lk_prepared:
  obtains st an where "prepare sample_lk_tools sample_lk_cli = Inr (st, an)" and "st_lk st = Some (0x81E00000, replicate 16 0)"
    and "st_upload st = [(0x80200000, [1, 2])]" and "st_kernel st = None" and "st_lk_mode st = Normal"
    and "an_generic_read an = Some 0x81E00001" and "get_partition_ptr an MT6572 = Inr 0x81E00008"
    and "pp_blacklist (st_params st) = (replicate 12 blacklist_range_default)
        [0 := \<lparr>bl_range = memory_range_new 0x81E00010 0x81E80010, bl_mode = ForbiddenReloc\<rparr>]"
  by (simp add: sample_lk_tools_def sample_lk_cli_def prepare_sample memory_range_new_def analysis_of_def extract_generic_read_def
      registers_read_def stores_read_def mt_part_get_partition_def get_partition_ptr_def ok_def Let_def)

lemma lk_boots_sent_image_witness:
  "\<exists>st an params d r p'. prepare sample_lk_tools sample_lk_cli = Inr (st, an) \<and>
     pp_blacklist params = pp_blacklist (st_params st) \<and>
     rpc_session (sample_outside\<lparr>ot_analysis := an\<rparr>) (linked_ops (sample_env True)) sample_codecs (Pair (Inr ()))
       (st\<lparr>st_soc := MT6572, st_params := params\<rparr>) 0x202000 (protocol_new 24 d) = (r, p') \<and>
     (r = Inr () \<longrightarrow> load_bytes (dv_mem (pr_io p')) 0x80200000 2 = [1, 2] \<and>
       lk_hooked (sample_env True) 0x81E00001 (0x81E00000, replicate 16 0) (pr_io p'))"
proof -
  let ?lk = "(0x81E00000, replicate 16 0) :: upload_file"
  obtain st an where prepared: "prepare sample_lk_tools sample_lk_cli = Inr (st, an)" and lk: "st_lk st = Some ?lk"
    and up: "st_upload st = [(0x80200000, [1, 2])]" and kernel: "st_kernel st = None" and mode: "st_lk_mode st = Normal"
    and an: "an_generic_read an = Some 0x81E00001" "get_partition_ptr an MT6572 = Inr 0x81E00008"
    and bl: "pp_blacklist (st_params st) = (replicate 12 blacklist_range_default)
        [0 := \<lparr>bl_range = memory_range_new 0x81E00010 0x81E80010, bl_mode = ForbiddenReloc\<rparr>]"
    by (rule sample_lk_prepared)
  define params where "params = params_default\<lparr>pp_memory := memory_range_new 0x80000000 0xA0000000, pp_blacklist := pp_blacklist (st_params st)\<rparr>"
  have f: "fix_loop b a a m = Some m" for a b m by (subst fix_loop.simps) simp
  obtain sp q m1 d where started: "app (sample_image 0) params 0x80000000 (\<lambda>_. 0) = Some (RunMain sp q m1)"
    and main: "main_pl 24 \<lparr>q_in = [], q_out = []\<rparr> q m1 = Some d"
    and h: "is_heap (dv_icept d) = \<lparr>ba_ptr = Some 0x80002000, ba_size = 0x100000\<rparr>"
    by (simp add: setup_eval f params_def bl params_eval claim_def bump_init_def bump_empty_def)
  have heap: "alloc (is_heap (dv_icept d)) \<lparr>ly_size = 64, ly_align = 4\<rparr> = (0x80002000, \<lparr>ba_ptr = Some 0x80002040, ba_size = 0xFFFC0\<rparr>)"
    by (simp add: h alloc_def align_up_def checked_add_def)
  have c: "cl_mode sample_lk_cli = BootLK" "length (cl_input sample_lk_cli) \<le> 5"
    by (simp_all add: sample_lk_cli_def sample_cli_def)
  have content: "boot_content (sample_outside\<lparr>ot_analysis := an\<rparr>) st = Some [1, 2]" by (simp add: boot_content_def kernel up)
  have mem: "mr_end (pp_memory params) \<noteq> 0xFFFFFFFF" "mr_start (pp_memory params) \<noteq> 0" "pp_blacklist params = pp_blacklist (st_params st)"
    by (simp_all add: params_def memory_range_new_def)
  have same: "same_but_port d (pr_io (protocol_new 24 d))" by (simp add: protocol_new_def same_but_port_def)
  have arg: "get_for_soc MT6572 (st_lk_mode st) (st_dram_size_per_rank st) (st_dram_ranks st) =
      Some (Arg6572 (lk6572 Normal (st_dram_size_per_rank st) (st_dram_ranks st)))"
    by (simp add: get_for_soc_def mode)
  have a: "apart 0x80200000 2 0x81E00000 16" "apart 0x80200000 2 0x80002000 64" "apart 0x81E00000 16 0x80002000 64"
    by (rule apart_below apart_above; simp)+
  have files: "files_apart (st_upload st @ [?lk])" "\<forall>f \<in> set (st_upload st @ [?lk]). file_fits f"
    "\<forall>f \<in> set (st_upload st). fst f \<noteq> 0" "\<forall>f \<in> set (st_upload st @ [?lk]). apart (fst f) (length (snd f)) 0x80002000 64"
    using a(1,2) [unfolded numeral_2_eq_2] a(3) by (simp_all add: up file_fits_def)
  have t: "unmask_thumb2 (0x81E00001 OR 1) = 0x81E00000" by (simp add: unmask_thumb2_def)
  have win: "window_apart (unmask_thumb2 (0x81E00001 OR 1)) 0x80002000"
    unfolding t window_apart_def by (rule apart_above) simp_all
  have env: "ev_codecs (sample_env True) = sample_codecs" "ev_pl (sample_env True)" "ev_call (sample_env True) a as d = None" for a as d
    by (simp_all add: sample_env_def)
  have nz: "(0x202000 :: u32) \<noteq> 0" and inside: "unat (fst ?lk) \<le> unat (unmask_thumb2 (0x81E00001 OR 1))"
    "unat (unmask_thumb2 (0x81E00001 OR 1)) + 10 \<le> unat (fst ?lk) + length (snd ?lk)" unfolding t by simp_all
  have ot: "ot_analysis (sample_outside\<lparr>ot_analysis := an\<rparr>) = an" by simp
  from lk_boots_sent_image [OF prepared c(1) lk ot an content _ mem(3,1,2) started main started_idle [OF main] same sample_env_ok(2) env(2) nz
      arg c(2) files(3,1,2) heap files(4) win inside env(3), of "Pair (Inr ())"]
  obtain r p' where r: "rpc_session (sample_outside\<lparr>ot_analysis := an\<rparr>) (linked_ops (sample_env True)) sample_codecs (Pair (Inr ()))
       (st\<lparr>st_soc := MT6572, st_params := params\<rparr>) 0x202000 (protocol_new 24 d) = (r, p')"
    "r = Inr () \<longrightarrow> load_bytes (dv_mem (pr_io p')) 0x80200000 (length [1, 2 :: u8]) = [1, 2] \<and>
      lk_hooked (sample_env True) 0x81E00001 ?lk (pr_io p')"
    unfolding env(1) up by auto
  have "length [1, 2 :: u8] = 2" by simp
  with r prepared mem(3) show ?thesis by metis
qed

end
